(* ===== verification/C_Prelude.thy ===== *)
theory C_Prelude
  imports
    Main
    "HOL-Library.Word"
    "HOL-Library.Signed_Division"
    "HOL-Library.Monad_Syntax"
    "HOL-Library.Sublist"
begin

unbundle bit_operations_syntax

text \<open>
  Shared ground of the development: the machine types of the i686 target (every
  \<open>int\<close>, \<open>unsigned\<close>, \<open>long\<close>, \<open>size_t\<close> and pointer is a 32-bit word, \<open>char\<close> is a
  signed byte), the rule collections, and generic lemmas about words, index
  arithmetic and \<open>option\<close> results.

  A function of the source that may loop for ever or trap returns an \<open>option\<close>:
  \<open>None\<close> says that control never comes back to the caller.
\<close>

type_synonym u8 = "8 word"
type_synonym u16 = "16 word"
type_synonym u32 = "32 word"
type_synonym u64 = "64 word"

text \<open>The 4 GiB byte-addressed memory, addressed by the 32-bit pointers of the target.\<close>

type_synonym mem = "u32 \<Rightarrow> u8"

text \<open>A character literal of the source, as the byte it is.\<close>

abbreviation chr :: "char \<Rightarrow> u8" where
  "chr c \<equiv> of_char c"

text \<open>The bytes of a string literal, without its terminator.\<close>

abbreviation bytes :: "string \<Rightarrow> u8 list" where
  "bytes s \<equiv> map of_char s"

text \<open>
  A \<open>char\<close> promoted to \<open>int\<close> is sign-extended on this target.
\<close>

definition char_to_int :: "u8 \<Rightarrow> u32" where
  "char_to_int c = scast c"

lemma ucast_char_to_int [simp]: "(ucast (char_to_int c) :: u8) = c"
  by (rule bit_word_eqI) (simp add: char_to_int_def bit_simps)

lemma char_to_int_inj [simp]: "char_to_int c = char_to_int d \<longleftrightarrow> c = d"
  by (metis ucast_char_to_int)

named_theorems loads \<open>reads of memory after writes\<close>
named_theorems frames \<open>what an operation leaves unchanged\<close>

subsection \<open>Words and indices\<close>

lemma unat_u32_less [simp]: "unat (x :: u32) < 4294967296"
  using unsigned_less [of x, where ?'a = nat] by simp

lemma unat_of_nat_u32: "n < 2 ^ 32 \<Longrightarrow> unat (of_nat n :: u32) = n"
  by (simp add: unat_of_nat)

lemma of_nat_u32_inj:
  "i < 2 ^ 32 \<Longrightarrow> j < 2 ^ 32 \<Longrightarrow> (of_nat i :: u32) = of_nat j \<longleftrightarrow> i = j"
  by (metis unat_of_nat_u32)

lemma add_of_nat_inj:
  "i < 2 ^ 32 \<Longrightarrow> j < 2 ^ 32 \<Longrightarrow> (p :: u32) + of_nat i = p + of_nat j \<longleftrightarrow> i = j"
  by (simp add: of_nat_u32_inj)

lemma unat_add_no_wrap:
  "unat (x :: u32) + unat y < 2 ^ 32 \<Longrightarrow> unat (x + y) = unat x + unat y"
  by (simp add: unat_word_ariths)

lemma unat_sub_no_wrap: "(y :: u32) \<le> x \<Longrightarrow> unat (x - y) = unat x - unat y"
  by (rule unat_sub)

lemma unat_Suc_less: "(x :: u32) < y \<Longrightarrow> unat (x + 1) = Suc (unat x)"
  by unat_arith

text \<open>The termination argument of every \<open>for (i = a; i < n; i++)\<close> loop.\<close>

lemma loop_decreases: "(x :: u32) < y \<Longrightarrow> unat y - unat (x + 1) < unat y - unat x"
  by unat_arith

lemma unat_minus_1_u32 [simp]: "unat (- 1 :: u32) = 4294967295"
proof -
  have "(- 1 :: u32) = 4294967295" by simp
  then show ?thesis by (simp only:) simp
qed

text \<open>Non-negative words compare the same signed and unsigned.\<close>

lemma sint_u32_small: "(x :: u32) < 2147483648 \<Longrightarrow> sint x = int (unat x)"
  using signed_take_bit_int_eq_self [of 31 "uint x"]
  by (simp add: sint_uint word_less_def order_trans [OF _ uint_ge_0])

lemma nonnegative_less: "\<not> (w :: u32) <s 0 \<Longrightarrow> unat w < 2 ^ 31"
proof (rule ccontr)
  assume w: "\<not> w <s 0" and "\<not> unat w < 2 ^ 31"
  from this(2) have "unat w div 2 ^ 31 = 1" using unat_u32_less [of w] by (intro div_nat_eqI) simp_all
  then have "bit (unat w) 31" by (simp add: bit_iff_odd)
  then have "bit w 31" by (simp add: bit_unsigned_iff)
  with w show False using bit_last_iff [of w] by (simp add: word_sless_alt)
qed

lemma sless_0_iff: "(w :: u32) <s 0 \<longleftrightarrow> 2 ^ 31 \<le> unat w"
proof
  assume neg: "w <s 0"
  show "2 ^ 31 \<le> unat w"
  proof (rule ccontr)
    assume "\<not> 2 ^ 31 \<le> unat w"
    then have "sint w = int (unat w)" by (intro sint_u32_small) (simp add: word_less_nat_alt)
    then have "0 \<le> sint w" by linarith
    with neg show False by (simp add: word_sless_alt)
  qed
qed (use nonnegative_less [of w] in linarith)

lemma greater_0_iff: "0 <s (w :: u32) \<longleftrightarrow> w \<noteq> 0 \<and> unat w < 2 ^ 31"
proof -
  have "0 <s w \<longleftrightarrow> w \<noteq> 0 \<and> \<not> w <s 0" using signed_eq_0_iff [of w, where ?'a = int] by (auto simp: word_sless_alt)
  then show ?thesis by (simp add: sless_0_iff not_le)
qed

text \<open>The sign of a difference of two sizes.\<close>

lemma signed_difference:
  assumes "unat (u :: u32) < 2 ^ 31" "unat v < 2 ^ 31"
  shows "0 <s u - v \<longleftrightarrow> unat v < unat u" "u - v <s 0 \<longleftrightarrow> unat u < unat v"
proof -
  have d: "unat (u - v) = (if unat v \<le> unat u then unat u - unat v else unat u + 2 ^ 32 - unat v)"
    using unat_sub_if' [of u v] by simp
  show "u - v <s 0 \<longleftrightarrow> unat u < unat v" unfolding sless_0_iff d using assms by auto
  have "u - v = 0 \<longleftrightarrow> unat u = unat v" by (metis eq_iff_diff_eq_0 word_unat_eq_iff)
  then show "0 <s u - v \<longleftrightarrow> unat v < unat u" unfolding greater_0_iff d using assms by auto
qed

end
