(* ===== verification/C_Memory.thy ===== *)
theory C_Memory
  imports C_Prelude
begin

text \<open>
  The byte memory every component works on: address ranges, runs of bytes, and the
  little-endian 16- and 32-bit cells of the target.  Addresses wrap modulo \<open>2 ^ 32\<close>
  as the pointers of the code do.
\<close>

subsection \<open>Address ranges\<close>

definition span :: "u32 \<Rightarrow> nat \<Rightarrow> u32 set" where
  "span p n = (\<lambda>i. p + of_nat i) ` {..<n}"

lemma span_0 [simp]: "span p 0 = {}"
  by (simp add: span_def)

lemma span_Suc: "span p (Suc n) = insert p (span (p + 1) n)"
proof -
  have "span p (Suc n) = (\<lambda>i. p + of_nat i) ` insert 0 (Suc ` {..<n})"
    by (simp add: span_def lessThan_Suc_eq_insert_0)
  also have "\<dots> = insert p (span (p + 1) n)"
    by (simp add: span_def image_image add.assoc)
  finally show ?thesis .
qed

lemma in_spanI: "i < n \<Longrightarrow> p + of_nat i \<in> span p n"
  by (auto simp: span_def)

lemma span_mono: "k \<le> n \<Longrightarrow> span p k \<subseteq> span p n"
  by (auto simp: span_def)

lemma span_add: "span p (k + n) = span p k \<union> span (p + of_nat k) n"
proof (induction k arbitrary: p)
  case (Suc k)
  then show ?case by (simp add: span_Suc add.assoc)
qed simp

text \<open>A range by offsets: membership is a comparison of the offset from its start.\<close>

lemma in_span_iff: "n \<le> 2 ^ 32 \<Longrightarrow> q \<in> span p n \<longleftrightarrow> unat (q - p) < n"
proof
  assume n: "n \<le> 2 ^ 32" and "q \<in> span p n"
  then obtain i where "i < n" "q = p + of_nat i" by (auto simp: span_def)
  with n show "unat (q - p) < n" by (simp add: unat_of_nat_u32)
next
  assume "unat (q - p) < n"
  then have "p + of_nat (unat (q - p)) \<in> span p n" by (rule in_spanI)
  then show "q \<in> span p n" by simp
qed

text \<open>Ranges that do not wrap around are intervals.\<close>

lemma span_bounds:
  assumes "q \<in> span p n" "unat p + n \<le> 2 ^ 32"
  shows "unat p \<le> unat q \<and> unat q < unat p + n"
proof -
  obtain i where i: "i < n" "q = p + of_nat i" using assms(1) by (auto simp: span_def)
  then have "unat (of_nat i :: u32) = i" using assms(2) by (intro unat_of_nat_u32) simp
  then have "unat q = unat p + i" using i assms(2) by (simp add: unat_add_no_wrap)
  with i(1) show ?thesis by simp
qed

lemma span_apart:
  "unat p + n \<le> unat q \<Longrightarrow> unat q + k \<le> 2 ^ 32 \<Longrightarrow> span p n \<inter> span q k = {}"
  using span_bounds [of _ p n] span_bounds [of _ q k] unat_u32_less [of q] by fastforce

lemma notin_span_Suc:
  "n < 2 ^ 32 \<Longrightarrow> p \<notin> span (p + 1) n"
  by (simp add: in_span_iff)

subsection \<open>Runs of bytes\<close>

definition rd :: "mem \<Rightarrow> u32 \<Rightarrow> nat \<Rightarrow> u8 list" where
  "rd m p n = map (\<lambda>i. m (p + of_nat i)) [0..<n]"

fun wr :: "mem \<Rightarrow> u32 \<Rightarrow> u8 list \<Rightarrow> mem" where
  "wr m p [] = m"
| "wr m p (b # bs) = wr (m(p := b)) (p + 1) bs"

lemma length_rd [simp]: "length (rd m p n) = n"
  by (simp add: rd_def)

lemma nth_rd [simp]: "i < n \<Longrightarrow> rd m p n ! i = m (p + of_nat i)"
  by (simp add: rd_def)

lemma rd_0 [simp]: "rd m p 0 = []"
  by (simp add: rd_def)

lemma rd_Suc: "rd m p (Suc n) = m p # rd m (p + 1) n"
  by (simp add: rd_def upt_conv_Cons map_Suc_upt [symmetric] add.assoc del: upt_Suc)

lemma rd_1 [simp]: "rd m p 1 = [m p]" "rd m p (Suc 0) = [m p]"
  by (simp_all add: rd_def)

lemma rd_add: "rd m p (k + n) = rd m p k @ rd m (p + of_nat k) n"
proof (induction k arbitrary: p)
  case (Suc k)
  then show ?case by (simp add: rd_Suc add.assoc)
qed simp

lemma rd_cong: "(\<And>q. q \<in> span p n \<Longrightarrow> m q = m' q) \<Longrightarrow> rd m p n = rd m' p n"
  by (simp add: rd_def in_spanI)

lemma wr_other [frames]: "q \<notin> span p (length bs) \<Longrightarrow> wr m p bs q = m q"
  by (induction bs arbitrary: m p) (auto simp: span_Suc)

lemma wr_append: "wr m p (bs @ cs) = wr (wr m p bs) (p + of_nat (length bs)) cs"
  by (induction bs arbitrary: m p) (auto simp: add.assoc)

lemma wr_nth [loads]:
  "i < length bs \<Longrightarrow> length bs \<le> 2 ^ 32 \<Longrightarrow> wr m p bs (p + of_nat i) = bs ! i"
proof (induction bs arbitrary: m p i)
  case (Cons b bs)
  show ?case
  proof (cases i)
    case 0
    have "wr (m(p := b)) (p + 1) bs p = (m(p := b)) p"
      using Cons.prems by (intro wr_other notin_span_Suc) simp
    with 0 show ?thesis by simp
  next
    case (Suc j)
    with Cons.prems have "wr (m(p := b)) (p + 1) bs (p + 1 + of_nat j) = bs ! j"
      by (intro Cons.IH) auto
    with Suc show ?thesis by (simp add: add.assoc)
  qed
qed simp

lemma rd_wr_same [loads]: "length bs \<le> 2 ^ 32 \<Longrightarrow> rd (wr m p bs) p (length bs) = bs"
  by (rule nth_equalityI) (simp_all add: wr_nth)

lemma rd_wr_apart [loads]:
  "span p n \<inter> span q (length bs) = {} \<Longrightarrow> rd (wr m q bs) p n = rd m p n"
  by (rule rd_cong) (blast intro: wr_other)

lemma wr_commute:
  "span p (length bs) \<inter> span q (length cs) = {} \<Longrightarrow>
   length bs \<le> 2 ^ 32 \<Longrightarrow> length cs \<le> 2 ^ 32 \<Longrightarrow>
   wr (wr m p bs) q cs = wr (wr m q cs) p bs"
proof (rule ext)
  fix a
  assume A: "span p (length bs) \<inter> span q (length cs) = {}"
    "length bs \<le> 2 ^ 32" "length cs \<le> 2 ^ 32"
  consider (b) i where "i < length bs" "a = p + of_nat i" "a \<notin> span q (length cs)"
    | (c) i where "i < length cs" "a = q + of_nat i" "a \<notin> span p (length bs)"
    | (n) "a \<notin> span p (length bs)" "a \<notin> span q (length cs)"
    using A(1) by (auto simp: span_def)
  then show "wr (wr m p bs) q cs a = wr (wr m q cs) p bs a"
    using A(2,3) by cases (simp_all add: wr_other wr_nth)
qed

text \<open>Two memories that agree outside a set of addresses.\<close>

definition same_outside :: "u32 set \<Rightarrow> mem \<Rightarrow> mem \<Rightarrow> bool" where
  "same_outside A m m' \<longleftrightarrow> (\<forall>q. q \<notin> A \<longrightarrow> m' q = m q)"

lemma same_outside_refl [simp]: "same_outside A m m"
  by (simp add: same_outside_def)

lemma same_outside_trans [trans]:
  "same_outside A m m' \<Longrightarrow> same_outside A m' m'' \<Longrightarrow> same_outside A m m''"
  by (simp add: same_outside_def)

lemma same_outside_mono: "same_outside A m m' \<Longrightarrow> A \<subseteq> B \<Longrightarrow> same_outside B m m'"
  by (auto simp: same_outside_def)

subsection \<open>16- and 32-bit cells\<close>

definition ld16 :: "mem \<Rightarrow> u32 \<Rightarrow> u16" where
  "ld16 m p = ucast (m p) OR push_bit 8 (ucast (m (p + 1)))"

definition st16 :: "mem \<Rightarrow> u32 \<Rightarrow> u16 \<Rightarrow> mem" where
  "st16 m p v = m(p := ucast v, p + 1 := ucast (drop_bit 8 v))"

definition ld32 :: "mem \<Rightarrow> u32 \<Rightarrow> u32" where
  "ld32 m p = ucast (m p) OR push_bit 8 (ucast (m (p + 1)))
     OR push_bit 16 (ucast (m (p + 2))) OR push_bit 24 (ucast (m (p + 3)))"

definition st32 :: "mem \<Rightarrow> u32 \<Rightarrow> u32 \<Rightarrow> mem" where
  "st32 m p v = m(p := ucast v, p + 1 := ucast (drop_bit 8 v),
     p + 2 := ucast (drop_bit 16 v), p + 3 := ucast (drop_bit 24 v))"

lemma ld16_st16 [loads, simp]: "ld16 (st16 m p v) p = v"
  by (rule bit_word_eqI) (auto simp: ld16_def st16_def bit_simps)

lemma ld32_st32 [loads, simp]: "ld32 (st32 m p v) p = v"
proof (rule bit_word_eqI)
  fix n assume "n < LENGTH(32)"
  then consider "n < 8" | "8 \<le> n" "n < 16" | "16 \<le> n" "n < 24" | "24 \<le> n" "n < 32"
    by force
  then show "bit (ld32 (st32 m p v) p) n \<longleftrightarrow> bit v n"
    by cases (auto simp: ld32_def st32_def bit_simps)
qed

lemma span_2: "span p 2 = {p, p + 1}"
  by (simp add: span_Suc numeral_2_eq_2)

lemma span_3: "span p 3 = {p, p + 1, p + 2}"
  by (simp add: span_def numeral_eq_Suc lessThan_Suc insert_commute)

lemma span_4: "span p 4 = {p, p + 1, p + 2, p + 3}"
  by (simp add: span_def numeral_eq_Suc lessThan_Suc insert_commute)

lemma ld16_cong: "(\<And>q. q \<in> span p 2 \<Longrightarrow> m q = m' q) \<Longrightarrow> ld16 m p = ld16 m' p"
  by (simp add: ld16_def span_2)

lemma ld32_cong: "(\<And>q. q \<in> span p 4 \<Longrightarrow> m q = m' q) \<Longrightarrow> ld32 m p = ld32 m' p"
  by (simp add: ld32_def span_4)

lemma st16_other [frames]: "q \<notin> span p 2 \<Longrightarrow> st16 m p v q = m q"
  by (simp add: st16_def span_2)

lemma st32_other [frames]: "q \<notin> span p 4 \<Longrightarrow> st32 m p v q = m q"
  by (simp add: st32_def span_4)

lemma ld16_st16_apart [loads]:
  "span p 2 \<inter> span q 2 = {} \<Longrightarrow> ld16 (st16 m q v) p = ld16 m p"
  by (rule ld16_cong) (blast intro: st16_other)

lemma ld32_st32_apart [loads]:
  "span p 4 \<inter> span q 4 = {} \<Longrightarrow> ld32 (st32 m q v) p = ld32 m p"
  by (rule ld32_cong) (blast intro: st32_other)

lemma ld32_upd_apart [loads]: "q \<notin> span p 4 \<Longrightarrow> ld32 (m(q := v)) p = ld32 m p"
  by (rule ld32_cong) auto

lemma same_outside_wr: "same_outside A m m1 \<Longrightarrow> span p (length bs) \<subseteq> A \<Longrightarrow> same_outside A m (wr m1 p bs)"
  using wr_other [of _ p bs m1] by (fastforce simp: same_outside_def)

end
