(* ===== verification/C_Block.thy ===== *)
theory C_Block
  imports C_Memory
begin

text \<open>
  The block routines of \<open>libc/lib.c\<close>: \<open>memcpy\<close>, \<open>memset\<close>, \<open>memcmp\<close> and \<open>memmove\<close>.
  Each is the counted loop of the source; the lemmas state its effect on the byte
  memory as one run of bytes written (\<open>wr\<close>), on every input and overlap.
\<close>

subsection \<open>Definitions\<close>

fun memcpy_loop :: "nat \<Rightarrow> u32 \<Rightarrow> u32 \<Rightarrow> mem \<Rightarrow> u32 \<times> mem" where
  "memcpy_loop 0 d s m = (d, m)"
| "memcpy_loop (Suc n) d s m = memcpy_loop n (d + 1) (s + 1) (m(d := m s))"

definition memcpy :: "u32 \<Rightarrow> u32 \<Rightarrow> u32 \<Rightarrow> mem \<Rightarrow> u32 \<times> mem" where
  "memcpy d s n m = memcpy_loop (unat n) d s m"

fun memset_loop :: "nat \<Rightarrow> u32 \<Rightarrow> u8 \<Rightarrow> mem \<Rightarrow> u32 \<times> mem" where
  "memset_loop 0 a c m = (a, m)"
| "memset_loop (Suc n) a c m = memset_loop n (a + 1) c (m(a := c))"

definition memset :: "u32 \<Rightarrow> u32 \<Rightarrow> u32 \<Rightarrow> mem \<Rightarrow> u32 \<times> mem" where
  "memset a c n m = memset_loop (unat n) a (ucast c) m"

fun memcmp_loop :: "nat \<Rightarrow> u32 \<Rightarrow> u32 \<Rightarrow> mem \<Rightarrow> u32" where
  "memcmp_loop 0 s1 s2 m = 0"
| "memcmp_loop (Suc n) s1 s2 m =
     (if m s1 \<noteq> m s2 then - 1 else memcmp_loop n (s1 + 1) (s2 + 1) m)"

definition memcmp :: "u32 \<Rightarrow> u32 \<Rightarrow> u32 \<Rightarrow> mem \<Rightarrow> u32" where
  "memcmp s1 s2 n m = memcmp_loop (unat n) s1 s2 m"

fun memmove_up :: "nat \<Rightarrow> u32 \<Rightarrow> u32 \<Rightarrow> mem \<Rightarrow> u32 \<times> mem" where
  "memmove_up 0 d s m = (d, m)"
| "memmove_up (Suc n) d s m = memmove_up n (d + 1) (s + 1) (m(d := m s))"

fun memmove_down :: "nat \<Rightarrow> u32 \<Rightarrow> u32 \<Rightarrow> mem \<Rightarrow> u32 \<times> mem" where
  "memmove_down 0 d s m = (d, m)"
| "memmove_down (Suc n) d s m = memmove_down n (d - 1) (s - 1) (m(d := m s))"

definition memmove :: "u32 \<Rightarrow> u32 \<Rightarrow> u32 \<Rightarrow> mem \<Rightarrow> u32 \<times> mem" where
  "memmove dest src n m =
     (if dest < src then memmove_up (unat n) dest src m
      else memmove_down (unat n) (dest + n) (src + n) m)"

subsection \<open>Copying upwards\<close>

text \<open>
  The upward copy reads every source byte before it is overwritten as long as the
  destination never catches up with the part of the source still to be read.
\<close>

definition upward_safe :: "u32 \<Rightarrow> u32 \<Rightarrow> nat \<Rightarrow> bool" where
  "upward_safe d s n \<longleftrightarrow> (\<forall>i<n. \<forall>j<n. i < j \<longrightarrow> d + of_nat i \<noteq> s + of_nat j)"

lemma upward_safe_Suc:
  "upward_safe d s (Suc n) \<Longrightarrow> d \<notin> span (s + 1) n \<and> upward_safe (d + 1) (s + 1) n"
proof
  assume A: "upward_safe d s (Suc n)"
  show "d \<notin> span (s + 1) n"
  proof
    assume "d \<in> span (s + 1) n"
    then obtain j where "j < n" "d + of_nat 0 = s + of_nat (Suc j)"
      by (auto simp: span_def add.assoc)
    with A show False unfolding upward_safe_def by blast
  qed
  have "d + of_nat (Suc i) \<noteq> s + of_nat (Suc j)" if "i < n" "j < n" "i < j" for i j
    using A that unfolding upward_safe_def by blast
  then show "upward_safe (d + 1) (s + 1) n"
    by (simp add: upward_safe_def add.assoc)
qed

lemma upward_safe_apart:
  assumes "span d n \<inter> span s n = {}" shows "upward_safe d s n"
  unfolding upward_safe_def
proof (intro allI impI notI)
  fix i j assume "i < n" "j < n" "i < j" "d + of_nat i = s + of_nat j"
  then have "d + of_nat i \<in> span d n \<inter> span s n"
    using in_spanI [of i n d] in_spanI [of j n s] by simp
  with assms show False by simp
qed

lemma upward_safe_below:
  assumes "d < s" "unat s + n \<le> 2 ^ 32" shows "upward_safe d s n"
  unfolding upward_safe_def
proof (intro allI impI notI)
  fix i j assume ij: "i < n" "j < n" "i < j" and eq: "d + of_nat i = s + of_nat j"
  have d: "unat d < unat s" using assms(1) by (simp add: word_less_nat_alt)
  have "unat (d + of_nat i) = unat d + i" "unat (s + of_nat j) = unat s + j"
    using assms(2) d ij by (simp_all add: unat_add_no_wrap unat_of_nat_u32)
  with eq d ij show False by simp
qed

lemma memcpy_loop_eq:
  "upward_safe d s n \<Longrightarrow> memcpy_loop n d s m = (d + of_nat n, wr m d (rd m s n))"
proof (induction n arbitrary: d s m)
  case (Suc n)
  from Suc.prems have *: "d \<notin> span (s + 1) n" "upward_safe (d + 1) (s + 1) n"
    by (simp_all add: upward_safe_Suc)
  have "rd (m(d := m s)) (s + 1) n = rd m (s + 1) n"
    using *(1) by (intro rd_cong) auto
  then show ?case by (simp add: Suc.IH [OF *(2)] rd_Suc add.assoc del: fun_upd_apply)
qed simp

lemma memmove_up_is_memcpy: "memmove_up n d s m = memcpy_loop n d s m"
  by (induction n arbitrary: d s m) auto

lemma memcpy_apart:
  "span d (unat n) \<inter> span s (unat n) = {} \<Longrightarrow>
   memcpy d s n m = (d + n, wr m d (rd m s (unat n)))"
  by (simp add: memcpy_def memcpy_loop_eq upward_safe_apart)

lemma memcpy_frame: "q \<notin> span d (unat n) \<Longrightarrow> snd (memcpy d s n m) q = m q"
proof -
  have "q \<notin> span d k \<Longrightarrow> snd (memcpy_loop k d s m) q = m q" for k
    by (induction k arbitrary: d s m) (auto simp: span_Suc)
  then show "q \<notin> span d (unat n) \<Longrightarrow> snd (memcpy d s n m) q = m q"
    by (simp add: memcpy_def)
qed

lemma memmove_below:
  "dest < src \<Longrightarrow> unat src + unat n \<le> 2 ^ 32 \<Longrightarrow>
   memmove dest src n m = (dest + n, wr m dest (rd m src (unat n)))"
  by (simp add: memmove_def memmove_up_is_memcpy memcpy_loop_eq upward_safe_below)

subsection \<open>Copying downwards\<close>

text \<open>
  The downward branch starts at the offset \<open>n\<close>, not \<open>n - 1\<close>, and stops before the
  offset 0: it moves the run of bytes that starts one past the source.
\<close>

lemma wr_upd_after:
  "length bs < 2 ^ 32 \<Longrightarrow>
   wr (m(p + of_nat (length bs) := v)) p bs = wr m p (bs @ [v])"
proof -
  assume l: "length bs < 2 ^ 32"
  let ?q = "p + of_nat (length bs)"
  have "span p (length bs) \<inter> span ?q (length [v]) = {}"
    using l by (auto simp: span_Suc in_span_iff unat_of_nat_u32)
  then have "wr (wr m p bs) ?q [v] = wr (wr m ?q [v]) p bs"
    using l by (intro wr_commute) auto
  then show ?thesis by (simp add: wr_append)
qed

lemma memmove_down_eq:
  assumes "src \<le> dest" "unat dest + n < 2 ^ 32"
  shows "memmove_down n (dest + of_nat n) (src + of_nat n) m
    = (dest, wr m (dest + 1) (rd m (src + 1) n))"
  using assms
proof (induction n arbitrary: m)
  case (Suc n)
  let ?q = "dest + 1 + of_nat n" and ?v = "m (src + 1 + of_nat n)"
  have "unat src \<le> unat dest" using Suc.prems(1) by (simp add: word_le_nat_alt)
  have "?q \<notin> span (src + 1) n"
  proof
    assume "?q \<in> span (src + 1) n"
    then obtain i where "i < n" and e: "dest + of_nat n = src + of_nat i"
      by (auto simp: span_def)
    moreover have "unat (dest + of_nat n) = unat dest + n" "unat (src + of_nat i) = unat src + i"
      using Suc.prems \<open>i < n\<close> \<open>unat src \<le> unat dest\<close>
      by (simp_all add: unat_add_no_wrap unat_of_nat_u32)
    ultimately show False using \<open>unat src \<le> unat dest\<close> by simp
  qed
  then have r: "rd (m(?q := ?v)) (src + 1) n = rd m (src + 1) n"
    by (intro rd_cong) auto
  have "memmove_down (Suc n) (dest + of_nat (Suc n)) (src + of_nat (Suc n)) m
      = memmove_down n (dest + of_nat n) (src + of_nat n) (m(?q := ?v))"
    by (simp add: add.commute add.left_commute)
  also have "\<dots> = (dest, wr (m(?q := ?v)) (dest + 1) (rd m (src + 1) n))"
    using Suc by (simp add: r)
  also have "wr (m(?q := ?v)) (dest + 1) (rd m (src + 1) n)
      = wr m (dest + 1) (rd m (src + 1) n @ [?v])"
    using wr_upd_after [of "rd m (src + 1) n" m "dest + 1" ?v] Suc.prems by simp
  also have "rd m (src + 1) n @ [?v] = rd m (src + 1) (Suc n)"
    using rd_add [of m "src + 1" n 1] by (simp add: rd_Suc)
  finally show ?case .
qed simp

lemma memmove_above:
  "src \<le> dest \<Longrightarrow> unat dest + unat n < 2 ^ 32 \<Longrightarrow>
   memmove dest src n m = (dest, wr m (dest + 1) (rd m (src + 1) (unat n)))"
  using memmove_down_eq [of src dest "unat n" m] by (auto simp: memmove_def dest: leD)

subsection \<open>memset and memcmp\<close>

lemma memset_loop_eq: "memset_loop n a c m = (a + of_nat n, wr m a (replicate n c))"
  by (induction n arbitrary: a m) (simp_all add: add.assoc)

lemma memset_eq: "memset a c n m = (a + n, wr m a (replicate (unat n) (ucast c)))"
  by (simp add: memset_def memset_loop_eq)

lemma memcmp_loop_eq: "memcmp_loop n a b m = (if rd m a n = rd m b n then 0 else - 1)"
  by (induction n arbitrary: a b) (auto simp: rd_Suc)

lemma memcmp_eq: "memcmp a b n m = (if rd m a (unat n) = rd m b (unat n) then 0 else - 1)"
  by (simp add: memcmp_def memcmp_loop_eq)

subsection \<open>Properties\<close>

text \<open>C29: Moving a block to a lower address copies it exactly, whether or not the ranges
  overlap, and writes nothing outside the destination.\<close>

theorem memmove_to_lower:
  assumes "dest < src" "unat src + unat n \<le> 2 ^ 32"
  shows "rd (snd (memmove dest src n m)) dest (unat n) = rd m src (unat n)
    \<and> same_outside (span dest (unat n)) m (snd (memmove dest src n m))"
  using memmove_below [OF assms] rd_wr_same [of "rd m src (unat n)" m dest]
  by (auto simp: wr_other less_imp_le same_outside_def)

theorem memmove_to_lower_witness:
  "rd (snd (memmove 0x100 0x101 4 (\<lambda>a. ucast a))) 0x100 (unat (4 :: u32))
      = rd (\<lambda>a. ucast a) 0x101 (unat (4 :: u32))
    \<and> same_outside (span 0x100 (unat (4 :: u32))) ucast (snd (memmove 0x100 0x101 4 (\<lambda>a. ucast a)))"
  by (rule memmove_to_lower) simp_all

text \<open>C39: Moving a block to a higher address (or onto itself) is off by one: the destination
  after its first byte receives the bytes after the source's first byte, one byte beyond both
  ranges included, and the first byte of the destination is never written.\<close>

theorem memmove_to_higher_shifted:
  assumes "src \<le> dest" "unat dest + unat n < 2 ^ 32" "0 < n"
  shows "rd (snd (memmove dest src n m)) (dest + 1) (unat n) = rd m (src + 1) (unat n)
    \<and> snd (memmove dest src n m) dest = m dest"
proof -
  have "wr m (dest + 1) (rd m (src + 1) (unat n)) dest = m dest"
    using notin_span_Suc [of "unat n" dest] by (intro wr_other) simp
  then show ?thesis
    using memmove_above [OF assms(1,2)] rd_wr_same [of "rd m (src + 1) (unat n)" m "dest + 1"]
    by (simp add: less_imp_le)
qed

theorem memmove_to_higher_shifted_witness:
  "rd (snd (memmove 0x102 0x100 4 (\<lambda>a. ucast a))) (0x102 + 1) (unat (4 :: u32))
      = rd (\<lambda>a. ucast a) (0x100 + 1) (unat (4 :: u32))
    \<and> snd (memmove 0x102 0x100 4 (\<lambda>a. ucast a)) 0x102 = ucast (0x102 :: u32)"
  by (rule memmove_to_higher_shifted) simp_all

text \<open>C30: After \<open>memcpy\<close> between ranges that do not overlap, \<open>memcmp\<close> finds them equal, and
  nothing outside the destination has changed.\<close>

theorem memcpy_memcmp_roundtrip:
  assumes "span d (unat n) \<inter> span s (unat n) = {}"
  shows "memcmp d s n (snd (memcpy d s n m)) = 0
    \<and> same_outside (span d (unat n)) m (snd (memcpy d s n m))"
proof -
  let ?b = "rd m s (unat n)"
  have "rd (wr m d ?b) d (unat n) = ?b"
    using rd_wr_same [of ?b m d] by (simp add: less_imp_le)
  moreover have "rd (wr m d ?b) s (unat n) = ?b"
    using assms by (intro rd_wr_apart) auto
  ultimately show ?thesis
    using memcpy_apart [OF assms, of m] by (simp add: memcmp_eq wr_other same_outside_def)
qed

theorem memcpy_memcmp_roundtrip_witness:
  "memcmp 0x200 0x100 3 (snd (memcpy 0x200 0x100 3 (\<lambda>a. ucast a))) = 0
    \<and> same_outside (span 0x200 (unat (3 :: u32))) ucast (snd (memcpy 0x200 0x100 3 (\<lambda>a. ucast a)))"
  by (rule memcpy_memcmp_roundtrip) (simp add: span_3)

end
