(* ===== verification/C_String.thy ===== *)
theory C_String
  imports C_Memory
begin

text \<open>
  The string and memory routines of \<open>libc/lib.c\<close>, over the byte memory.  A scan for a
  terminator is a partial function: without a terminator in reach it does not return.
  A loop counted by a \<open>size_t\<close> recurses on the count.  The mutating routines return the
  pointer they return in C (here one past the last byte written) and the new memory.
\<close>

subsection \<open>Zero-terminated strings\<close>

fun cstr :: "mem \<Rightarrow> u32 \<Rightarrow> u8 list \<Rightarrow> bool" where
  "cstr m p [] \<longleftrightarrow> m p = 0"
| "cstr m p (x # xs) \<longleftrightarrow> m p = x \<and> x \<noteq> 0 \<and> cstr m (p + 1) xs"

lemma cstr_cong:
  "(\<And>q. q \<in> span p (Suc (length xs)) \<Longrightarrow> m q = m' q) \<Longrightarrow> cstr m p xs \<longleftrightarrow> cstr m' p xs"
proof (induction xs arbitrary: p)
  case (Cons x xs)
  have "cstr m (p + 1) xs \<longleftrightarrow> cstr m' (p + 1) xs"
    using Cons.prems by (intro Cons.IH) (simp add: span_Suc [of p])
  then show ?case using Cons.prems by (simp add: span_Suc)
qed (simp add: span_Suc)

lemma cstr_upd [frames]:
  "q \<notin> span p (Suc (length xs)) \<Longrightarrow> cstr (m(q := v)) p xs \<longleftrightarrow> cstr m p xs"
  by (rule cstr_cong) auto

lemma cstr_append: "cstr m p (xs @ ys) \<longleftrightarrow> rd m p (length xs) = xs \<and> 0 \<notin> set xs
    \<and> cstr m (p + of_nat (length xs)) ys"
  by (induction xs arbitrary: p) (auto simp: rd_Suc add.assoc)

lemma cstr_iff: "cstr m p xs \<longleftrightarrow> rd m p (length xs) = xs \<and> 0 \<notin> set xs
    \<and> m (p + of_nat (length xs)) = 0"
  using cstr_append [of m p xs "[]"] by simp

text \<open>A string that is all that was written.\<close>

lemma cstr_written:
  assumes "cstr m' p xs" "same_outside (span p (Suc (length xs))) m m'" "length xs < 2 ^ 32"
  shows "m' = wr m p (xs @ [0])"
proof
  fix q
  have r: "rd m' p (Suc (length xs)) = xs @ [0]"
    using assms(1) rd_add [of m' p "length xs" 1] by (simp add: cstr_iff)
  show "m' q = wr m p (xs @ [0]) q"
  proof (cases "q \<in> span p (Suc (length xs))")
    case True
    then obtain i where i: "i < Suc (length xs)" "q = p + of_nat i" by (auto simp: span_def)
    then have "m' q = (xs @ [0]) ! i" using r nth_rd [of i "Suc (length xs)" m' p] by simp
    then show ?thesis using i assms(3) by (simp add: wr_nth)
  next
    case False
    then show ?thesis using assms(2) by (simp add: same_outside_def wr_other)
  qed
qed

lemma cstr_unique: "cstr m p xs \<Longrightarrow> cstr m p ys \<Longrightarrow> xs = ys"
proof (induction xs arbitrary: p ys)
  case Nil
  then show ?case by (cases ys) auto
next
  case (Cons x xs)
  then show ?case by (cases ys) auto
qed

subsection \<open>Scans: strlen, strchr, strrchr\<close>

partial_function (option) strlen_loop :: "mem \<Rightarrow> u32 \<Rightarrow> u32 \<Rightarrow> u32 option" where
  "strlen_loop m s i = (if m (s + i) \<noteq> 0 then strlen_loop m s (i + 1) else Some (i + 1))"

definition strlen :: "mem \<Rightarrow> u32 \<Rightarrow> u32 option" where
  "strlen m s = map_option (\<lambda>i. i - 1) (strlen_loop m s 0)"

partial_function (option) strchr :: "mem \<Rightarrow> u32 \<Rightarrow> u8 \<Rightarrow> u32 option" where
  "strchr m s c =
     (if m s \<noteq> 0 \<and> m s \<noteq> c then strchr m (s + 1) c
      else Some (if m s \<noteq> c then 0 else s))"

partial_function (option) strrchr_loop :: "mem \<Rightarrow> u32 \<Rightarrow> u8 \<Rightarrow> u32 \<Rightarrow> u32 option" where
  "strrchr_loop m s c l =
     (if m s \<noteq> 0 then strrchr_loop m (s + 1) c (if m s = c then s else l) else Some l)"

definition strrchr :: "mem \<Rightarrow> u32 \<Rightarrow> u8 \<Rightarrow> u32 option" where
  "strrchr m s c = strrchr_loop m s c 0"

lemma strlen_loop_cstr:
  "cstr m (s + i) xs \<Longrightarrow> strlen_loop m s i = Some (i + of_nat (length xs) + 1)"
  by (induction xs arbitrary: i) (simp_all add: strlen_loop.simps [of m s] add.assoc)

lemma strlen_cstr: "cstr m s xs \<Longrightarrow> strlen m s = Some (of_nat (length xs))"
  by (simp add: strlen_def strlen_loop_cstr [of m s 0])

lemma strchr_cstr:
  "cstr m s xs \<Longrightarrow> strchr m s c =
     (let i = length (takeWhile (\<lambda>x. x \<noteq> c) xs)
      in Some (if i < length xs \<or> c = 0 then s + of_nat i else 0))"
proof (induction xs arbitrary: s)
  case Nil
  then show ?case by (simp add: strchr.simps [of m s])
next
  case (Cons x xs)
  show ?case
  proof (cases "x = c")
    case True
    with Cons.prems show ?thesis by (simp add: strchr.simps [of m s])
  next
    case False
    with Cons.prems have "strchr m s c = strchr m (s + 1) c"
      by (simp add: strchr.simps [of m s])
    also have "\<dots> = (let i = length (takeWhile (\<lambda>x. x \<noteq> c) xs)
        in Some (if i < length xs \<or> c = 0 then s + 1 + of_nat i else 0))"
      using Cons by simp
    finally show ?thesis using False by (simp add: Let_def add.assoc)
  qed
qed

text \<open>The offset of the last occurrence of a byte, if any.\<close>

fun last_index :: "'a \<Rightarrow> 'a list \<Rightarrow> nat option" where
  "last_index c [] = None"
| "last_index c (x # xs) =
     (case last_index c xs of Some i \<Rightarrow> Some (Suc i) | None \<Rightarrow> if x = c then Some 0 else None)"

lemma last_index_None: "last_index c xs = None \<longleftrightarrow> c \<notin> set xs"
  by (induction xs) (auto split: option.splits)

lemma last_index_Some:
  "last_index c xs = Some i \<Longrightarrow>
   i < length xs \<and> xs ! i = c \<and> (\<forall>j. i < j \<longrightarrow> j < length xs \<longrightarrow> xs ! j \<noteq> c)"
proof (induction xs arbitrary: i)
  case (Cons x xs)
  show ?case
  proof (cases "last_index c xs")
    case None
    with Cons.prems have "i = 0" "x = c" by (auto split: if_splits)
    moreover have "c \<notin> set xs" using None by (simp add: last_index_None)
    ultimately show ?thesis by (auto simp: nth_Cons' dest: nth_mem)
  next
    case (Some k)
    with Cons have "i = Suc k" "k < length xs" "xs ! k = c"
      "\<forall>j. k < j \<longrightarrow> j < length xs \<longrightarrow> xs ! j \<noteq> c" by auto
    then show ?thesis by (auto simp: nth_Cons')
  qed
qed simp

lemma strrchr_loop_cstr:
  "cstr m s xs \<Longrightarrow> strrchr_loop m s c l =
     Some (case last_index c xs of Some i \<Rightarrow> s + of_nat i | None \<Rightarrow> l)"
proof (induction xs arbitrary: s l)
  case Nil
  then show ?case by (simp add: strrchr_loop.simps [of m s])
next
  case (Cons x xs)
  then have "strrchr_loop m s c l = strrchr_loop m (s + 1) c (if x = c then s else l)"
    by (simp add: strrchr_loop.simps [of m s])
  with Cons show ?case
    by (simp add: add.assoc split: option.splits)
qed

lemma strrchr_cstr:
  "cstr m s xs \<Longrightarrow> strrchr m s c =
     Some (case last_index c xs of Some i \<Rightarrow> s + of_nat i | None \<Rightarrow> 0)"
  by (simp add: strrchr_def strrchr_loop_cstr)

subsection \<open>Case conversion\<close>

text \<open>The chains of comparisons of the source, in its order of letters.\<close>

definition toupper :: "u32 \<Rightarrow> u32" where
  "toupper x =
    (if x = 97 then 65 else if x = 103 then 71 else if x = 109 then 77
     else if x = 115 then 83 else if x = 98 then 66 else if x = 104 then 72
     else if x = 110 then 78 else if x = 116 then 84 else if x = 99 then 67
     else if x = 105 then 73 else if x = 111 then 79 else if x = 117 then 85
     else if x = 100 then 68 else if x = 106 then 74 else if x = 112 then 80
     else if x = 118 then 86 else if x = 101 then 69 else if x = 107 then 75
     else if x = 113 then 81 else if x = 119 then 87 else if x = 102 then 70
     else if x = 108 then 76 else if x = 114 then 82 else if x = 120 then 88
     else if x = 121 then 89 else if x = 122 then 90
     else x)"

definition tolower :: "u32 \<Rightarrow> u32" where
  "tolower x =
    (if x = 65 then 97 else if x = 71 then 103 else if x = 77 then 109
     else if x = 83 then 115 else if x = 66 then 98 else if x = 72 then 104
     else if x = 78 then 110 else if x = 84 then 116 else if x = 67 then 99
     else if x = 73 then 105 else if x = 79 then 111 else if x = 85 then 117
     else if x = 68 then 100 else if x = 74 then 106 else if x = 80 then 112
     else if x = 86 then 118 else if x = 69 then 101 else if x = 75 then 107
     else if x = 81 then 113 else if x = 87 then 119 else if x = 70 then 102
     else if x = 76 then 108 else if x = 82 then 114 else if x = 88 then 120
     else if x = 89 then 121 else if x = 90 then 122
     else x)"

lemma u32_range_cases:
  fixes x :: u32
  assumes "a \<le> unat x" "unat x < a + 26" "\<And>i. i < 26 \<Longrightarrow> P (of_nat (a + i))"
  shows "P x"
proof -
  have "P (of_nat (a + (unat x - a)))" using assms by (intro assms(3)) simp
  with assms(1) show ?thesis by simp
qed

lemma all_less_26: "(\<forall>i<26. P i) \<longleftrightarrow> P 0 \<and> P 1 \<and> P 2 \<and> P 3 \<and> P 4 \<and> P 5 \<and> P 6 \<and> P 7 \<and> P 8
    \<and> P 9 \<and> P 10 \<and> P 11 \<and> P 12 \<and> P 13 \<and> P 14 \<and> P 15 \<and> P 16 \<and> P 17 \<and> P 18 \<and> P 19 \<and> P 20
    \<and> P 21 \<and> P 22 \<and> P 23 \<and> P 24 \<and> P (25 :: nat)"
  by (simp add: numeral_eq_Suc All_less_Suc) blast

lemma tolower_upper:
  assumes "65 \<le> x" "x \<le> 90" shows "tolower x = x + 32"
proof -
  have "\<forall>i<26. tolower (of_nat (65 + i)) = of_nat (65 + i) + 32"
    unfolding all_less_26 by (simp add: tolower_def)
  moreover have "65 \<le> unat x" "unat x < 65 + 26"
    using assms by (simp_all add: word_le_nat_alt)
  ultimately show ?thesis by (rule_tac u32_range_cases [of 65 x]) auto
qed

lemma tolower_other: "\<not> (65 \<le> x \<and> x \<le> 90) \<Longrightarrow> tolower x = x"
  by (simp add: tolower_def split del: if_split) (auto split: if_split)

lemma tolower_eq: "tolower x = (if 65 \<le> x \<and> x \<le> 90 then x + 32 else x)"
  by (simp add: tolower_upper tolower_other)

lemma toupper_lower:
  assumes "97 \<le> x" "x \<le> 122" shows "toupper x = x - 32"
proof -
  have "\<forall>i<26. toupper (of_nat (97 + i)) = of_nat (97 + i) - 32"
    unfolding all_less_26 by (simp add: toupper_def)
  moreover have "97 \<le> unat x" "unat x < 97 + 26"
    using assms by (simp_all add: word_le_nat_alt)
  ultimately show ?thesis by (rule_tac u32_range_cases [of 97 x]) auto
qed

lemma toupper_other: "\<not> (97 \<le> x \<and> x \<le> 122) \<Longrightarrow> toupper x = x"
  by (simp add: toupper_def split del: if_split) (auto split: if_split)

lemma toupper_eq: "toupper x = (if 97 \<le> x \<and> x \<le> 122 then x - 32 else x)"
  by (simp add: toupper_lower toupper_other)

subsection \<open>Comparisons\<close>

partial_function (option) strcmp :: "mem \<Rightarrow> u32 \<Rightarrow> u32 \<Rightarrow> u32 option" where
  "strcmp m s1 s2 =
     (if m s1 \<noteq> 0 \<and> m s2 \<noteq> 0
      then (if m s1 \<noteq> m s2 then Some (- 1) else strcmp m (s1 + 1) (s2 + 1))
      else Some 0)"

partial_function (option) strcasecmp :: "mem \<Rightarrow> u32 \<Rightarrow> u32 \<Rightarrow> u32 option" where
  "strcasecmp m s1 s2 =
     (if m s1 \<noteq> 0 \<and> m s2 \<noteq> 0
      then (if tolower (char_to_int (m s1)) \<noteq> tolower (char_to_int (m s2)) then Some (- 1)
            else strcasecmp m (s1 + 1) (s2 + 1))
      else Some 0)"

fun strncasecmp_loop :: "nat \<Rightarrow> u32 \<Rightarrow> u32 \<Rightarrow> mem \<Rightarrow> u32" where
  "strncasecmp_loop 0 s1 s2 m = 0"
| "strncasecmp_loop (Suc n) s1 s2 m =
     (if tolower (char_to_int (m s1)) \<noteq> tolower (char_to_int (m s2)) then - 1
      else strncasecmp_loop n (s1 + 1) (s2 + 1) m)"

definition strncasecmp :: "u32 \<Rightarrow> u32 \<Rightarrow> u32 \<Rightarrow> mem \<Rightarrow> u32" where
  "strncasecmp s1 s2 n m = strncasecmp_loop (unat n) s1 s2 m"

abbreviation fold_case :: "u8 \<Rightarrow> u32" where
  "fold_case c \<equiv> tolower (char_to_int c)"

lemma strcmp_cstr:
  "cstr m s1 xs \<Longrightarrow> cstr m s2 ys \<Longrightarrow>
   strcmp m s1 s2 = Some (if prefix xs ys \<or> prefix ys xs then 0 else - 1)"
proof (induction xs ys arbitrary: s1 s2 rule: list_induct2')
  case (4 x xs y ys)
  then show ?case by (cases "x = y") (simp_all add: strcmp.simps [of m s1])
qed (simp_all add: strcmp.simps [of m s for s])

lemma strcasecmp_cstr:
  "cstr m s1 xs \<Longrightarrow> cstr m s2 ys \<Longrightarrow>
   strcasecmp m s1 s2 = Some (let us = map fold_case xs; vs = map fold_case ys
      in if prefix us vs \<or> prefix vs us then 0 else - 1)"
proof (induction xs ys arbitrary: s1 s2 rule: list_induct2')
  case (4 x xs y ys)
  then show ?case
    by (cases "fold_case x = fold_case y") (simp_all add: strcasecmp.simps [of m s1] Let_def)
qed (simp_all add: strcasecmp.simps [of m s for s])

lemma strncasecmp_loop_eq:
  "strncasecmp_loop n a b m =
     (if map fold_case (rd m a n) = map fold_case (rd m b n) then 0 else - 1)"
  by (induction n arbitrary: a b) (auto simp: rd_Suc)

lemma strncasecmp_eq:
  "strncasecmp a b n m =
     (if map fold_case (rd m a (unat n)) = map fold_case (rd m b (unat n)) then 0 else - 1)"
  by (simp add: strncasecmp_def strncasecmp_loop_eq)

subsection \<open>Copies and concatenation\<close>

partial_function (option) strcpy :: "u32 \<Rightarrow> u32 \<Rightarrow> mem \<Rightarrow> (u32 \<times> mem) option" where
  "strcpy d s m =
     (if m s \<noteq> 0 then strcpy (d + 1) (s + 1) (m(d := m s)) else Some (d, m))"

fun strncpy_loop :: "nat \<Rightarrow> u32 \<Rightarrow> u32 \<Rightarrow> mem \<Rightarrow> u32 \<times> mem" where
  "strncpy_loop 0 d s m = (d, m)"
| "strncpy_loop (Suc n) d s m =
     (if m s = 0 then (d, m) else strncpy_loop n (d + 1) (s + 1) (m(d := m s)))"

definition strncpy :: "u32 \<Rightarrow> u32 \<Rightarrow> u32 \<Rightarrow> mem \<Rightarrow> u32 \<times> mem" where
  "strncpy d s n m = strncpy_loop (unat n) d s m"

partial_function (option) str_end :: "mem \<Rightarrow> u32 \<Rightarrow> u32 option" where
  "str_end m s = (if m s \<noteq> 0 then str_end m (s + 1) else Some s)"

definition strcat :: "u32 \<Rightarrow> u32 \<Rightarrow> mem \<Rightarrow> (u32 \<times> mem) option" where
  "strcat s1 s2 m = do {
     e \<leftarrow> str_end m s1;
     (d, m1) \<leftarrow> strcpy e s2 m;
     Some (d + 1, m1(d := 0)) }"

definition strncat :: "u32 \<Rightarrow> u32 \<Rightarrow> u32 \<Rightarrow> mem \<Rightarrow> (u32 \<times> mem) option" where
  "strncat s1 s2 n m = do {
     e \<leftarrow> str_end m s1;
     let (d, m1) = strncpy_loop (unat n) e s2 m;
     Some (d + 1, m1(d := 0)) }"

lemma cstr_upd_Cons:
  assumes "cstr m s (x # xs)" "d \<notin> span s (Suc (Suc (length xs)))"
  shows "cstr (m(d := v)) (s + 1) xs"
  using assms by (simp add: cstr_upd span_Suc [of s])

lemma apart_Suc:
  assumes "span d (Suc n) \<inter> span s (Suc k) = {}"
  shows "d \<notin> span s (Suc k)" "span (d + 1) n \<inter> span (s + 1) k = {}"
  using assms by (auto simp: span_Suc)

lemma strcpy_cstr:
  "cstr m s xs \<Longrightarrow> span d (length xs) \<inter> span s (Suc (length xs)) = {} \<Longrightarrow>
   strcpy d s m = Some (d + of_nat (length xs), wr m d xs)"
proof (induction xs arbitrary: d s m)
  case Nil
  then show ?case by (simp add: strcpy.simps [of d s m])
next
  case (Cons x xs)
  from Cons.prems(2) have d: "d \<notin> span s (Suc (Suc (length xs)))"
    and apart: "span (d + 1) (length xs) \<inter> span (s + 1) (Suc (length xs)) = {}"
    by (simp_all add: apart_Suc)
  have "cstr (m(d := x)) (s + 1) xs" using Cons.prems(1) d by (rule cstr_upd_Cons)
  from Cons.IH [OF this apart] Cons.prems(1) show ?case
    by (simp add: strcpy.simps [of d s m] add.assoc del: fun_upd_apply)
qed

lemma strncpy_loop_cstr:
  "cstr m s xs \<Longrightarrow> span d (length xs) \<inter> span s (Suc (length xs)) = {} \<Longrightarrow>
   strncpy_loop n d s m = (d + of_nat (min n (length xs)), wr m d (take n xs))"
proof (induction xs arbitrary: d s m n)
  case Nil
  then show ?case by (cases n) simp_all
next
  case (Cons x xs)
  from Cons.prems(2) have d: "d \<notin> span s (Suc (Suc (length xs)))"
    and apart: "span (d + 1) (length xs) \<inter> span (s + 1) (Suc (length xs)) = {}"
    by (simp_all add: apart_Suc)
  have "cstr (m(d := x)) (s + 1) xs" using Cons.prems(1) d by (rule cstr_upd_Cons)
  from Cons.IH [OF this apart] Cons.prems(1) show ?case
    by (cases n) (simp_all add: add.assoc del: fun_upd_apply)
qed

lemma strncpy_cstr:
  "cstr m s xs \<Longrightarrow> span d (length xs) \<inter> span s (Suc (length xs)) = {} \<Longrightarrow>
   strncpy d s n m = (d + of_nat (min (unat n) (length xs)), wr m d (take (unat n) xs))"
  by (simp add: strncpy_def strncpy_loop_cstr)

lemma str_end_cstr: "cstr m s xs \<Longrightarrow> str_end m s = Some (s + of_nat (length xs))"
  by (induction xs arbitrary: s) (simp_all add: str_end.simps [of m s for s] add.assoc)

text \<open>
  Concatenation, from the end of the first string: the second one must lie clear of the
  bytes written, which include the terminator.
\<close>

lemma wr_terminated:
  assumes "cstr m s xs" "0 \<notin> set ys" "length xs + length ys < 2 ^ 32"
  shows "cstr ((wr m (s + of_nat (length xs)) ys)(s + of_nat (length xs + length ys) := 0)) s (xs @ ys)"
proof -
  let ?e = "s + of_nat (length xs)"
  let ?m = "wr m ?e (ys @ [0])"
  have "(wr m ?e ys)(s + of_nat (length xs + length ys) := 0) = ?m"
    by (simp add: wr_append add.assoc)
  moreover have "rd ?m s (length xs) = xs"
  proof -
    have "span s (length xs) \<inter> span ?e (length (ys @ [0 :: u8])) = {}"
      using assms(3) by (auto simp: span_def add.assoc simp flip: of_nat_add of_nat_Suc
          dest!: of_nat_u32_inj [THEN iffD1, rotated 2])
    with assms(1) show ?thesis by (simp add: cstr_iff rd_wr_apart)
  qed
  moreover have "cstr ?m ?e ys"
  proof -
    have "rd ?m ?e (length ys + 1) = ys @ [0]"
      using rd_wr_same [of "ys @ [0]" m ?e] assms(3) by simp
    then have "rd ?m ?e (length ys) = ys \<and> ?m (?e + of_nat (length ys)) = 0"
      by (simp add: rd_add rd_Suc del: One_nat_def)
    with assms(2) show ?thesis by (simp add: cstr_iff)
  qed
  ultimately show ?thesis using assms(1) by (simp add: cstr_iff rd_add add.assoc)
qed

lemma span_shift: "span (p + of_nat k) n \<subseteq> span p (k + n)"
  by (simp add: span_add)

text \<open>What both concatenations do: append at the end of \<open>s1\<close> and terminate.\<close>

lemma append_at_end:
  assumes "cstr m s1 xs" "0 \<notin> set zs" "length xs + length zs < 2 ^ 32"
  defines "e \<equiv> s1 + of_nat (length xs)"
  defines "m' \<equiv> (wr m e zs)(e + of_nat (length zs) := 0)"
  shows "cstr m' s1 (xs @ zs)"
    and "q \<notin> span s1 (length xs + length zs + 1) \<Longrightarrow> m' q = m q"
proof -
  show "cstr m' s1 (xs @ zs)"
    using wr_terminated [OF assms(1,2,3)] by (simp add: m'_def e_def add.assoc)
  assume q: "q \<notin> span s1 (length xs + length zs + 1)"
  then have "q \<notin> span e (length zs + 1)"
    using span_shift [of s1 "length xs" "length zs + 1"] by (auto simp: e_def add.assoc)
  then have "q \<notin> span e (length zs)" "q \<noteq> e + of_nat (length zs)"
    using span_mono [of "length zs" "length zs + 1" e] in_spanI [of "length zs" "length zs + 1" e]
    by auto
  then show "m' q = m q" by (simp add: m'_def wr_other)
qed

lemma strcat_cstr:
  assumes "cstr m s1 xs" "cstr m s2 ys" "length xs + length ys < 2 ^ 32"
    and "span s1 (length xs + length ys + 1) \<inter> span s2 (length ys + 1) = {}"
  shows "\<exists>m'. strcat s1 s2 m = Some (s1 + of_nat (length xs + length ys + 1), m')
    \<and> cstr m' s1 (xs @ ys) \<and> (\<forall>q. q \<notin> span s1 (length xs + length ys + 1) \<longrightarrow> m' q = m q)"
proof -
  let ?e = "s1 + of_nat (length xs)"
  have "span ?e (length ys) \<inter> span s2 (Suc (length ys)) = {}"
    using assms(4) span_shift [of s1 "length xs" "length ys"]
      span_mono [of "length xs + length ys" "length xs + length ys + 1" s1] by auto
  then have "strcat s1 s2 m = Some (?e + of_nat (length ys) + 1,
      (wr m ?e ys)(?e + of_nat (length ys) := 0))"
    using assms(1,2) by (simp add: strcat_def str_end_cstr strcpy_cstr)
  moreover have "0 \<notin> set ys" using assms(2) by (simp add: cstr_iff)
  ultimately show ?thesis
    using append_at_end [OF assms(1) _ assms(3)] by (simp add: add.assoc)
qed

lemma strncat_cstr:
  fixes n :: u32
  assumes "cstr m s1 xs" "cstr m s2 ys" "length xs + length ys < 2 ^ 32"
    and "span s1 (length xs + length ys + 1) \<inter> span s2 (length ys + 1) = {}"
  defines "zs \<equiv> take (unat n) ys"
  shows "\<exists>m'. strncat s1 s2 n m = Some (s1 + of_nat (length xs + length zs + 1), m')
    \<and> cstr m' s1 (xs @ zs) \<and> (\<forall>q. q \<notin> span s1 (length xs + length zs + 1) \<longrightarrow> m' q = m q)"
proof -
  let ?e = "s1 + of_nat (length xs)"
  have len: "length zs = min (unat n) (length ys)" by (simp add: zs_def min.commute)
  have "span ?e (length ys) \<inter> span s2 (Suc (length ys)) = {}"
    using assms(4) span_shift [of s1 "length xs" "length ys"]
      span_mono [of "length xs + length ys" "length xs + length ys + 1" s1] by auto
  then have "strncat s1 s2 n m = Some (?e + of_nat (length zs) + 1,
      (wr m ?e zs)(?e + of_nat (length zs) := 0))"
    using assms(1,2) by (simp add: strncat_def str_end_cstr strncpy_loop_cstr zs_def min.commute)
  moreover have "0 \<notin> set zs" "length xs + length zs < 2 ^ 32"
    using assms(2,3) set_take_subset [of "unat n" ys] by (auto simp: cstr_iff zs_def)
  ultimately show ?thesis
    using append_at_end [OF assms(1)] by (simp add: add.assoc)
qed

subsection \<open>strtok\<close>

text \<open>
  The delimiter scan only stops on a match: it runs past the end of \<open>delim\<close> when the
  character is not there.  \<open>strtok\<close> returns the pointer, the memory and the new value of
  the static \<open>_tok_g\<close>, which it writes and never reads back.
\<close>

partial_function (option) is_delim_scan :: "mem \<Rightarrow> u8 \<Rightarrow> u32 \<Rightarrow> u32 option" where
  "is_delim_scan m c delim = (if m delim \<noteq> c then is_delim_scan m c (delim + 1) else Some delim)"

definition is_delim :: "mem \<Rightarrow> u8 \<Rightarrow> u32 \<Rightarrow> bool option" where
  "is_delim m c delim = do {
     d \<leftarrow> is_delim_scan m c delim;
     Some (if m d = c then True else False) }"

partial_function (option) strtok_scan :: "mem \<Rightarrow> u32 \<Rightarrow> u32 \<Rightarrow> u32 option" where
  "strtok_scan m delim t = do {
     b \<leftarrow> is_delim m (m t) delim;
     if \<not> b \<and> m t \<noteq> 0 then strtok_scan m delim (t + 1) else Some t }"

definition strtok :: "u32 \<Rightarrow> u32 \<Rightarrow> u32 \<Rightarrow> mem \<Rightarrow> (u32 \<times> mem \<times> u32) option" where
  "strtok tok_g t delim m =
     (if t = 0 then do {
        t1 \<leftarrow> strtok_scan m delim t;
        b \<leftarrow> is_delim m (m t1) delim;
        if b then do {
          let m1 = m(t1 := 0);
          t2 \<leftarrow> strtok_scan m1 delim t1;
          b2 \<leftarrow> is_delim m1 (m1 t2) delim;
          Some (t2, if b2 then m1(t2 := 0) else m1, t1) }
        else Some (0, m, tok_g) }
      else Some (t, m, t))"

lemma is_delim_scan_found:
  "is_delim_scan m c delim = Some d \<Longrightarrow> m d = c"
proof -
  assume ret: "is_delim_scan m c delim = Some d"
  show "m d = c"
    by (rule is_delim_scan.raw_induct [where P = "\<lambda>m c _ d. m d = c", OF _ ret])
      (auto split: if_splits)
qed

lemma is_delim_true: "is_delim m c delim = Some b \<Longrightarrow> b"
  by (auto simp: is_delim_def bind_eq_Some_conv dest: is_delim_scan_found)

lemma is_delim_iff: "is_delim m c delim = Some b \<Longrightarrow> is_delim m c delim = Some True"
  using is_delim_true by auto

text \<open>So the scan of \<open>strtok\<close> stops where it starts.\<close>

lemma strtok_scan_start:
  "strtok_scan m delim t = Some t' \<Longrightarrow> t' = t \<and> is_delim m (m t) delim = Some True"
  by (subst (asm) strtok_scan.simps) (auto simp: bind_eq_Some_conv split: if_splits dest: is_delim_true)

subsection \<open>When \<open>strlen\<close> returns\<close>

lemma strlen_loop_zero:
  assumes ret: "strlen_loop m s i = Some r" shows "\<exists>q. m q = 0"
  by (rule strlen_loop.raw_induct [where P = "\<lambda>m _ _ _. \<exists>q. m q = 0", OF _ ret])
    (auto split: if_splits)

lemma zero_cstr:
  assumes "m q = 0" shows "\<exists>xs. cstr m s xs \<and> length xs < 2 ^ 32"
proof -
  define k where "k = (LEAST k. m (s + of_nat k) = 0)"
  have ex: "m (s + of_nat (unat (q - s))) = 0" using assms by simp
  then have k: "m (s + of_nat k) = 0" unfolding k_def by (rule LeastI)
  have least: "m (s + of_nat j) \<noteq> 0" if "j < k" for j
    using that not_less_Least unfolding k_def by blast
  have "k \<le> unat (q - s)" unfolding k_def using ex by (rule Least_le)
  then have "k < 2 ^ 32" using le_less_trans [OF _ unat_u32_less] by simp
  moreover have "cstr m s (rd m s k)" using k least by (auto simp: cstr_iff rd_def)
  ultimately show ?thesis by (metis length_rd)
qed

subsection \<open>Properties\<close>

text \<open>C37: \<open>strcmp\<close> returns for every pair of terminated strings, and answers 0 exactly when one
  of them is a prefix of the other.\<close>

theorem strcmp_compares_prefixes:
  assumes "cstr m s1 xs" "cstr m s2 ys"
  shows "\<exists>r. strcmp m s1 s2 = Some r \<and> (r = 0 \<longleftrightarrow> prefix xs ys \<or> prefix ys xs)"
  using strcmp_cstr [OF assms] by auto

theorem strcmp_compares_prefixes_witness:
  "\<exists>r. strcmp ((\<lambda>_. 0)(0 := 65)) 0 4 = Some r \<and> (r = 0 \<longleftrightarrow> prefix [65 :: u8] [] \<or> prefix [] [65 :: u8])"
  by (rule strcmp_compares_prefixes) simp_all

text \<open>C28: \<open>strcat\<close> returns for terminated strings whose ranges do not meet: the first one has
  become the concatenation, nothing else has changed, and the result points past the
  terminator.\<close>

theorem strcat_concatenates:
  assumes "cstr m s1 xs" "cstr m s2 ys" "length xs + length ys < 2 ^ 32"
    and "span s1 (length xs + length ys + 1) \<inter> span s2 (length ys + 1) = {}"
  shows "\<exists>m'. strcat s1 s2 m = Some (s1 + of_nat (length xs + length ys + 1), m')
    \<and> cstr m' s1 (xs @ ys) \<and> same_outside (span s1 (length xs + length ys + 1)) m m'"
  unfolding same_outside_def using assms by (rule strcat_cstr)

theorem strcat_concatenates_witness:
  "\<exists>m'. strcat 0 8 ((\<lambda>_. 0)(0 := 65, 8 := 66))
        = Some (0 + of_nat (length [65 :: u8] + length [66 :: u8] + 1), m')
    \<and> cstr m' 0 ([65] @ [66])
    \<and> same_outside (span 0 (length [65 :: u8] + length [66 :: u8] + 1)) ((\<lambda>_. 0)(0 := 65, 8 := 66)) m'"
  by (rule strcat_concatenates) (simp_all add: span_Suc)

text \<open>\<open>strcpy\<close> copies the characters of a terminated string but not its terminator: the byte
  after them keeps its old value, as all memory outside the copy does.\<close>

theorem strcpy_leaves_unterminated:
  assumes "cstr m s xs" "span d (length xs) \<inter> span s (Suc (length xs)) = {}" "length xs < 2 ^ 32"
  shows "\<exists>m'. strcpy d s m = Some (d + of_nat (length xs), m') \<and> rd m' d (length xs) = xs
    \<and> m' (d + of_nat (length xs)) = m (d + of_nat (length xs))
    \<and> same_outside (span d (length xs)) m m'"
proof -
  have "d + of_nat (length xs) \<notin> span d (length xs)"
    using assms(3) by (simp add: in_span_iff unat_of_nat_u32)
  then show ?thesis
    using strcpy_cstr [OF assms(1,2)] rd_wr_same [of xs m d] assms(3)
    by (simp add: wr_other same_outside_def)
qed

theorem strcpy_leaves_unterminated_witness:
  "\<exists>m'. strcpy 8 0 ((\<lambda>_. 1)(0 := 65, 1 := 0)) = Some (8 + of_nat (length [65 :: u8]), m')
    \<and> rd m' 8 (length [65 :: u8]) = [65]
    \<and> m' (8 + of_nat (length [65 :: u8]))
        = ((\<lambda>_. 1)(0 := 65, 1 := 0)) (8 + of_nat (length [65 :: u8]) :: u32)
    \<and> same_outside (span 8 (length [65 :: u8])) ((\<lambda>_. 1)(0 := 65, 1 := 0)) m'"
  by (rule strcpy_leaves_unterminated) (simp_all add: span_Suc)

text \<open>\<open>strrchr\<close> of a character of a terminated string is the address of its last occurrence,
  and the null pointer when the character does not occur, the terminator included.\<close>

theorem strrchr_finds_last:
  assumes "cstr m s xs"
  shows "(c \<notin> set xs \<and> strrchr m s c = Some 0)
    \<or> (\<exists>i < length xs. strrchr m s c = Some (s + of_nat i) \<and> xs ! i = c
        \<and> (\<forall>j. i < j \<and> j < length xs \<longrightarrow> xs ! j \<noteq> c))"
proof (cases "last_index c xs")
  case None
  then show ?thesis using strrchr_cstr [OF assms, of c] last_index_None [of c xs] by simp
next
  case (Some i)
  then show ?thesis using strrchr_cstr [OF assms, of c] last_index_Some [OF Some] by auto
qed

theorem strrchr_finds_last_witness:
  "strrchr ((\<lambda>_. 0)(1 := 47, 2 := 65, 3 := 47)) 1 47 = Some 3"
proof -
  let ?m = "(\<lambda>_. 0)(1 := 47, 2 := 65, 3 := 47) :: mem" and ?xs = "[47, 65, 47] :: u8 list"
  have "cstr ?m 1 ?xs" by simp
  moreover have "47 \<in> set ?xs" by simp
  ultimately obtain i where i: "i < length ?xs" "strrchr ?m 1 47 = Some (1 + of_nat i)"
    "\<forall>j. i < j \<and> j < length ?xs \<longrightarrow> ?xs ! j \<noteq> 47"
    using strrchr_finds_last [of ?m 1 ?xs 47] by blast
  have "\<not> i < 2" using i(3) [rule_format, of 2] by auto
  with i(1) have "i = 2" by simp
  with i(2) show ?thesis by simp
qed

text \<open>\<open>strlen\<close> returns exactly when there is a zero byte somewhere in memory, and its result is
  the one number of bytes that lie before the first zero byte from the string's address on.\<close>

theorem strlen_returns_iff:
  "(strlen m s \<noteq> None \<longleftrightarrow> 0 \<in> range m) \<and> (strlen m s = Some n \<longleftrightarrow> cstr m s (rd m s (unat n)))"
proof
  have zero: "0 \<in> range m" if "strlen m s = Some k" for k
    using that strlen_loop_zero [of m s 0] by (auto simp: strlen_def)
  have ret: "\<exists>xs. cstr m s xs \<and> length xs < 2 ^ 32 \<and> strlen m s = Some (of_nat (length xs))"
    if "0 \<in> range m"
    using that zero_cstr [of m _ s] strlen_cstr [of m s] by (metis imageE)
  show "strlen m s \<noteq> None \<longleftrightarrow> 0 \<in> range m" using zero ret by auto
  show "strlen m s = Some n \<longleftrightarrow> cstr m s (rd m s (unat n))"
  proof
    assume n: "strlen m s = Some n"
    with zero ret obtain xs where xs: "cstr m s xs" "length xs < 2 ^ 32" "n = of_nat (length xs)"
      by fastforce
    then have "unat n = length xs" by (simp add: unat_of_nat_u32)
    with xs(1) show "cstr m s (rd m s (unat n))" by (simp add: cstr_iff)
  next
    assume "cstr m s (rd m s (unat n))"
    from strlen_cstr [OF this] show "strlen m s = Some n" by simp
  qed
qed

text \<open>The chains of comparisons of \<open>tolower\<close> and \<open>toupper\<close> are the usual functions on the ASCII
  letters, and leave every other value of \<open>int\<close> alone.\<close>

theorem case_tables_are_ascii:
  "tolower x = (if 65 \<le> x \<and> x \<le> 90 then x + 32 else x)
    \<and> toupper x = (if 97 \<le> x \<and> x \<le> 122 then x - 32 else x)"
  by (simp only: tolower_eq toupper_eq simp_thms)

text \<open>C40: \<open>strtok\<close> never finds a token boundary: a call with a string returns that string unchanged,
  and a call for the next token, if it returns at all, returns the null pointer and has
  written a zero byte to address 0.\<close>

theorem strtok_never_splits:
  assumes "strtok tok_g t delim m = Some (p, m', tok_g')"
  shows "p = t \<and> tok_g' = t \<and> m' = (if t = 0 then m(0 := 0) else m)"
proof (cases "t = 0")
  case True
  let ?m = "m(0 := 0)"
  from True assms obtain t1 where "strtok_scan m delim 0 = Some t1"
    by (cases "strtok_scan m delim 0") (simp_all add: strtok_def)
  with strtok_scan_start [OF this] have 1: "strtok_scan m delim 0 = Some 0"
    "is_delim m (m 0) delim = Some True" by simp_all
  from True assms 1 obtain t2 where "strtok_scan ?m delim 0 = Some t2"
    by (cases "strtok_scan ?m delim 0") (simp_all add: strtok_def Let_def)
  with strtok_scan_start [OF this] have 2: "strtok_scan ?m delim 0 = Some 0"
    "is_delim ?m (?m 0) delim = Some True" by simp_all
  from True assms 1 2 show ?thesis by (simp add: strtok_def Let_def)
next
  case False
  with assms show ?thesis by (auto simp: strtok_def)
qed

theorem strtok_never_splits_witness:
  "strtok 7 0 4 ((\<lambda>_. 0)(4 := 44)) = Some (0, ((\<lambda>_. 0)(4 := 44))(0 := 0), 0)"
proof -
  have d: "is_delim ((\<lambda>_. 0)(4 := 44)) 0 4 = Some True"
    by (simp add: is_delim_def is_delim_scan.simps)
  have s: "strtok_scan ((\<lambda>_. 0)(4 := 44)) 4 0 = Some 0" using d by (simp add: strtok_scan.simps)
  have e: "((\<lambda>_. 0)(4 := 44))(0 := 0) = (\<lambda>_ :: u32. 0 :: u8)(4 := 44)" by (simp add: fun_eq_iff)
  have "\<exists>p m' g. strtok 7 0 4 ((\<lambda>_. 0)(4 := 44)) = Some (p, m', g)"
    using d s by (simp add: strtok_def e Let_def)
  then show ?thesis using strtok_never_splits [of 7 0 4 "(\<lambda>_. 0)(4 := 44)"] by auto
qed

text \<open>The delimiter test of \<open>strtok\<close> never answers no: it returns only when it has found the
  character, be it in the delimiter string or in the memory behind it.\<close>

theorem is_delim_never_false: "is_delim m c delim \<noteq> Some False"
  using is_delim_true [of m c delim False] by blast

end
