(* ===== verification/Machine.thy ===== *)
theory Machine
  imports C_Block C_String
begin

text \<open>
  The state every stateful function of the C library works on: the byte memory, the
  static and global variables of \<open>libc/lib.c\<close>, the allocator's master record
  (\<open>libc/alloc.h\<close>), and the I/O ports.  Port output is a log; the values that port
  input will return are a script, which the hardware supplies and the code does not
  know.  A read with no value left in the script never returns (\<open>None\<close>).
\<close>

subsection \<open>The allocator's records (alloc.h)\<close>

text \<open>Block types, the unnamed \<open>enum\<close> of the header.\<close>

definition BLOCK_FREE :: u8 where "BLOCK_FREE = 1"
definition BLOCK_USED :: u8 where "BLOCK_USED = 2"
definition BLOCK_NOT_PRESENT :: u8 where "BLOCK_NOT_PRESENT = 3"
definition BLOCK_POISON :: u8 where "BLOCK_POISON = 4"

record mem_region =
  rg_addr :: u32
  rg_free_size :: u32
  rg_size :: u32
  rg_head :: u32
  rg_max_blocks :: u32
  rg_blocks :: u32

text \<open>
  The array \<open>regions\<close> has \<open>DEFAULT_MAX_REGIONS\<close> entries; every loop over it is bounded
  by \<open>max_regions\<close>.
\<close>

record mem_master =
  ms_next :: u32
  ms_max_regions :: u32
  ms_regions :: "nat \<Rightarrow> mem_region"

subsection \<open>Ports\<close>

datatype io_event =
    Outb u16 u8 | Outw u16 u16 | Outl u16 u32
  | Inb u16 | Inw u16 | Inl u16

subsection \<open>The machine\<close>

record machine =
  ram :: mem
  term_row :: u32
  term_col :: u32
  term_color :: u8
  term_lies :: bool
  last_saved_ch :: u8
  kb_shift :: bool
  is_press :: "u32 \<Rightarrow> bool"
  tok_g :: u32
  heap_master :: mem_master
  io_log :: "io_event list"
  io_in :: "u32 list"

text \<open>
  The state \<open>main\<close> is entered in: the static variables with their initialisers, whatever
  memory the boot loader left, and the values the hardware will deliver.
\<close>

definition mem_region_0 :: mem_region where
  "mem_region_0 = \<lparr>rg_addr = 0, rg_free_size = 0, rg_size = 0, rg_head = 0, rg_max_blocks = 0,
     rg_blocks = 0\<rparr>"

definition initial_machine :: "mem \<Rightarrow> u32 list \<Rightarrow> machine" where
  "initial_machine m inputs = \<lparr>ram = m, term_row = 0, term_col = 0, term_color = 0,
     term_lies = True, last_saved_ch = 0, kb_shift = False, is_press = (\<lambda>_. False), tok_g = 0,
     heap_master = \<lparr>ms_next = 0, ms_max_regions = 0, ms_regions = (\<lambda>_. mem_region_0)\<rparr>,
     io_log = [], io_in = inputs\<rparr>"

definition log_io :: "io_event list \<Rightarrow> machine \<Rightarrow> machine" where
  "log_io es s = s\<lparr>io_log := io_log s @ es\<rparr>"

text \<open>The next value the hardware returns, with the read recorded.\<close>

definition port_in :: "io_event \<Rightarrow> machine \<Rightarrow> (u32 \<times> machine) option" where
  "port_in e s = (case io_in s of [] \<Rightarrow> None
     | v # vs \<Rightarrow> Some (v, s\<lparr>io_in := vs, io_log := io_log s @ [e]\<rparr>))"

text \<open>
  The static helpers \<open>inb\<close> and \<open>outb\<close> of \<open>lib.c\<close>.  The assembly of \<open>outb\<close> names neither
  of its parameters: it always writes a newline to the serial port \<open>0x3F8\<close>.
\<close>

definition inb :: "u16 \<Rightarrow> machine \<Rightarrow> (u8 \<times> machine) option" where
  "inb port s = map_option (\<lambda>(v, s'). (ucast v, s')) (port_in (Inb port) s)"

definition outb :: "u16 \<Rightarrow> u8 \<Rightarrow> machine \<Rightarrow> machine" where
  "outb port data s = log_io [Outb 0x3F8 (chr CHR ''\<newline>'')] s"

text \<open>Every field but the log and the script is untouched by the ports.\<close>

lemma log_io_simps [simp]:
  "ram (log_io es s) = ram s" "term_row (log_io es s) = term_row s"
  "term_col (log_io es s) = term_col s" "term_color (log_io es s) = term_color s"
  "term_lies (log_io es s) = term_lies s" "last_saved_ch (log_io es s) = last_saved_ch s"
  "kb_shift (log_io es s) = kb_shift s" "is_press (log_io es s) = is_press s"
  "heap_master (log_io es s) = heap_master s" "io_in (log_io es s) = io_in s"
  "tok_g (log_io es s) = tok_g s" "io_log (log_io es s) = io_log s @ es"
  by (simp_all add: log_io_def)

end
