(* ===== verification/Console.thy ===== *)
theory Console
  imports Machine
begin

text \<open>
  The text console of \<open>libc/lib.c\<close> (the curses subset): the VGA text buffer at
  \<open>0xB8000\<close> in the byte memory, the cursor \<open>_row\<close>, \<open>_col\<close>, and the routines that write
  to them.  The second half relates them to an abstract terminal, a list of 2000 cells
  with a cursor in its range.
\<close>

subsection \<open>Constants (ncurses.h)\<close>

datatype vga_color =
    COLOR_BLACK | COLOR_BLUE | COLOR_GREEN | COLOR_CYAN | COLOR_RED | COLOR_MAGENTA
  | COLOR_BROWN | COLOR_LIGHT_GREY | COLOR_DARK_GREY | COLOR_LIGHT_BLUE
  | COLOR_LIGHT_GREEN | COLOR_LIGHT_CYAN | COLOR_LIGHT_RED | COLOR_LIGHT_MAGENTA
  | COLOR_YELLOW | COLOR_WHITE

fun color_code :: "vga_color \<Rightarrow> u32" where
  "color_code COLOR_BLACK = 0" | "color_code COLOR_BLUE = 1" | "color_code COLOR_GREEN = 2"
| "color_code COLOR_CYAN = 3" | "color_code COLOR_RED = 4" | "color_code COLOR_MAGENTA = 5"
| "color_code COLOR_BROWN = 6" | "color_code COLOR_LIGHT_GREY = 7"
| "color_code COLOR_DARK_GREY = 8" | "color_code COLOR_LIGHT_BLUE = 9"
| "color_code COLOR_LIGHT_GREEN = 10" | "color_code COLOR_LIGHT_CYAN = 11"
| "color_code COLOR_LIGHT_RED = 12" | "color_code COLOR_LIGHT_MAGENTA = 13"
| "color_code COLOR_YELLOW = 14" | "color_code COLOR_WHITE = 15"

abbreviation COLS :: u32 where "COLS \<equiv> 80"
abbreviation LINES :: u32 where "LINES \<equiv> 25"
abbreviation ERR :: u32 where "ERR \<equiv> - 1"
definition A_NORMAL :: u32 where "A_NORMAL = 0"

text \<open>\<open>_buffer\<close>, the VGA text window.\<close>

abbreviation vga_base :: u32 where "vga_base \<equiv> 0xB8000"

subsection \<open>The routines\<close>

definition vga_entry_color :: "u32 \<Rightarrow> u32 \<Rightarrow> u8" where
  "vga_entry_color fg bg = ucast (fg OR push_bit 4 bg)"

definition vga_entry :: "u8 \<Rightarrow> u8 \<Rightarrow> u16" where
  "vga_entry uc color = ucast uc OR push_bit 8 (ucast color)"

text \<open>\<open>_buffer[index] = v\<close>, with the address arithmetic of a 16-bit array.\<close>

definition buffer_put :: "u32 \<Rightarrow> u16 \<Rightarrow> mem \<Rightarrow> mem" where
  "buffer_put index v m = st16 m (vga_base + 2 * index) v"

text \<open>\<open>for (; x < COLS; x++) _buffer[base + x] = v\<close>\<close>

function fill_row :: "u16 \<Rightarrow> u32 \<Rightarrow> u32 \<Rightarrow> mem \<Rightarrow> mem" where
  "fill_row v base x m =
     (if x < COLS then fill_row v base (x + 1) (buffer_put (base + x) v m) else m)"
  by pat_completeness auto
termination
  by (relation "measure (\<lambda>(v, base, x, m). 80 - unat x)")
    (auto dest: loop_decreases)

declare fill_row.simps [simp del]

text \<open>\<open>for (; y < LINES; y++)\<close> over whole rows.\<close>

function fill_rows :: "u16 \<Rightarrow> u32 \<Rightarrow> mem \<Rightarrow> mem" where
  "fill_rows v y m =
     (if y < LINES then fill_rows v (y + 1) (fill_row v (y * COLS) 0 m) else m)"
  by pat_completeness auto
termination
  by (relation "measure (\<lambda>(v, y, m). 25 - unat y)")
    (auto dest: loop_decreases)

declare fill_rows.simps [simp del]

abbreviation blank :: "u8 \<Rightarrow> u16" where
  "blank color \<equiv> vga_entry (chr CHR '' '') color"

definition terminal_setcolor :: "u8 \<Rightarrow> machine \<Rightarrow> machine" where
  "terminal_setcolor color s = s\<lparr>term_color := color\<rparr>"

definition clrtoeol :: "machine \<Rightarrow> machine" where
  "clrtoeol s = s\<lparr>ram := fill_row (blank (term_color s)) (term_row s * COLS) (term_col s) (ram s)\<rparr>"

definition clear :: "machine \<Rightarrow> machine" where
  "clear s =
     (let s1 = s\<lparr>ram := fill_rows (blank (term_color s)) 0 (ram s)\<rparr>
      in if term_lies s1 then s1\<lparr>term_lies := False\<rparr> else s1)"

definition enable_cursor :: "u8 \<Rightarrow> u8 \<Rightarrow> machine \<Rightarrow> machine option" where
  "enable_cursor cursor_start cursor_end s = do {
     let s1 = outb 0x3D4 0x0A s;
     (a, s2) \<leftarrow> inb 0x3D5 s1;
     let s3 = outb 0x3D5 ((a AND 0xC0) OR cursor_start) s2;
     let s4 = outb 0x3D4 0x0B s3;
     (b, s5) \<leftarrow> inb 0x3D5 s4;
     Some (outb 0x3D5 ((b AND 0xE0) OR cursor_end) s5) }"

definition initscr :: "machine \<Rightarrow> (u32 \<times> machine) option" where
  "initscr s = do {
     let s1 = s\<lparr>term_color := vga_entry_color (color_code COLOR_LIGHT_GREY) (color_code COLOR_BLACK)\<rparr>;
     s2 \<leftarrow> enable_cursor 0 15 (clear s1);
     Some (1, s2\<lparr>term_lies := True\<rparr>) }"

definition move :: "u32 \<Rightarrow> u32 \<Rightarrow> machine \<Rightarrow> u32 \<times> machine" where
  "move y x s =
     (if x <s 0 \<or> y <s 0 \<or> COLS <=s x \<or> LINES <=s y then (ERR, s)
      else (0, s\<lparr>term_col := x, term_row := y\<rparr>))"

definition pair_content :: "u32 \<Rightarrow> u16 \<times> u16" where
  "pair_content num = (ucast (num AND 0x0F), ucast (signed_drop_bit 4 num AND 0x0F))"

definition attrset :: "u32 \<Rightarrow> machine \<Rightarrow> u32 \<times> machine" where
  "attrset attr s =
     (0, if attr = A_NORMAL
         then s\<lparr>term_color := vga_entry_color (color_code COLOR_LIGHT_GREY) (color_code COLOR_BLACK)\<rparr>
         else s\<lparr>term_color := ucast (attr AND 0xFF)\<rparr>)"

text \<open>\<open>while (s--)\<close>: the count is taken from the \<open>int\<close> as an unsigned number.\<close>

fun scrl_loop :: "nat \<Rightarrow> u16 \<Rightarrow> mem \<Rightarrow> mem" where
  "scrl_loop 0 v m = m"
| "scrl_loop (Suc n) v m =
     scrl_loop n v
       (fill_row v ((LINES - 1) * COLS) 0
         (snd (memmove vga_base (vga_base + 2 * COLS) (COLS * (LINES - 1) * 2) m)))"

definition scrl :: "u32 \<Rightarrow> machine \<Rightarrow> machine" where
  "scrl n s = s\<lparr>ram := scrl_loop (unat n) (blank (term_color s)) (ram s)\<rparr>"

definition clrtobot :: "machine \<Rightarrow> machine" where
  "clrtobot s =
     (let s1 = clrtoeol s
      in s1\<lparr>ram := fill_rows (blank (term_color s1)) (term_row s1 + 1) (ram s1)\<rparr>)"

text \<open>\<open>addch\<close>, in its three steps: the character, the end of the line, the last line.\<close>

definition addch_char :: "u32 \<Rightarrow> machine \<Rightarrow> machine" where
  "addch_char c s =
     (if c = ucast (chr CHR ''\<newline>'') \<or> c = 13
      then log_io [Outb 0x3F8 10, Outb 0x3F8 13]
        (if c = ucast (chr CHR ''\<newline>'')
         then s\<lparr>term_col := 0, term_row := term_row s + 1\<rparr> else s\<lparr>term_col := 0\<rparr>)
      else if c = 8 then s\<lparr>term_col := term_col s - 1\<rparr>
      else if c = 11 then s\<lparr>term_row := term_row s + 1\<rparr>
      else if c = 9
      then s\<lparr>term_col := term_col s + word_of_int (4 - sint (term_col s) smod 4)\<rparr>
      else let index = term_row s * COLS + term_col s in
        (log_io [Outb 0x3F8 (ucast c)]
          (s\<lparr>ram := buffer_put index (vga_entry (ucast c) (term_color s)) (ram s)\<rparr>))
        \<lparr>term_col := term_col s + 1\<rparr>)"

definition addch_settle :: "machine \<Rightarrow> machine" where
  "addch_settle s1 =
     (let s2 = (if COLS <=s term_col s1
                then s1\<lparr>term_col := 0, term_row := term_row s1 + 1\<rparr> else s1)
      in if LINES <=s term_row s2
         then scrl 1 (s2\<lparr>term_row := LINES - 1\<rparr>) else s2)"

definition addch :: "u32 \<Rightarrow> machine \<Rightarrow> machine" where
  "addch c s = addch_settle (addch_char c s)"

definition putchar_c :: "u8 \<Rightarrow> machine \<Rightarrow> machine" where
  "putchar_c c s = addch (char_to_int c) s"

definition putchar :: "u32 \<Rightarrow> machine \<Rightarrow> u32 \<times> machine" where
  "putchar c s = (0, putchar_c (ucast c) s)"

function addnstr_loop :: "u32 \<Rightarrow> u32 \<Rightarrow> u32 \<Rightarrow> machine \<Rightarrow> machine" where
  "addnstr_loop p n i s =
     (if i < n then addnstr_loop p n (i + 1) (addch (char_to_int (ram s (p + i))) s) else s)"
  by pat_completeness auto
termination
  by (relation "measure (\<lambda>(p, n, i, s). unat n - unat i)")
    (auto dest: loop_decreases)

declare addnstr_loop.simps [simp del]

definition addnstr :: "u32 \<Rightarrow> u32 \<Rightarrow> machine \<Rightarrow> machine" where
  "addnstr p n s = addnstr_loop p n 0 s"

definition terminal_writestring :: "u32 \<Rightarrow> machine \<Rightarrow> machine option" where
  "terminal_writestring data s = map_option (\<lambda>n. addnstr data n s) (strlen (ram s) data)"

text \<open>\<open>puts\<close> steps its pointer down: \<open>putchar(*s--)\<close>.\<close>

partial_function (option) puts_loop :: "u32 \<Rightarrow> machine \<Rightarrow> machine option" where
  "puts_loop p s =
     (if ram s p \<noteq> 0 then puts_loop (p - 1) (snd (putchar (char_to_int (ram s p)) s)) else Some s)"

definition puts :: "u32 \<Rightarrow> machine \<Rightarrow> (u32 \<times> machine) option" where
  "puts p s = map_option (\<lambda>s'. (0, s')) (puts_loop p s)"

end
