(* ===== verification/Printf_Int.thy ===== *)
theory Printf_Int
  imports Console
begin

text \<open>
  The lower half of \<open>libc/printf.c\<close>: the output functions, padding and reversal, and the
  conversion of integers.  An output position is the pair of the index \<open>idx\<close> and the
  machine.  The conversion buffer of 32 bytes is the list of the bytes stored so far.
\<close>

subsection \<open>Flags and output functions\<close>

abbreviation FLAGS_ZEROPAD :: u32 where "FLAGS_ZEROPAD \<equiv> 1"
abbreviation FLAGS_LEFT :: u32 where "FLAGS_LEFT \<equiv> 2"
abbreviation FLAGS_PLUS :: u32 where "FLAGS_PLUS \<equiv> 4"
abbreviation FLAGS_SPACE :: u32 where "FLAGS_SPACE \<equiv> 8"
abbreviation FLAGS_HASH :: u32 where "FLAGS_HASH \<equiv> 16"
abbreviation FLAGS_UPPERCASE :: u32 where "FLAGS_UPPERCASE \<equiv> 32"
abbreviation FLAGS_CHAR :: u32 where "FLAGS_CHAR \<equiv> 64"
abbreviation FLAGS_SHORT :: u32 where "FLAGS_SHORT \<equiv> 128"
abbreviation FLAGS_LONG :: u32 where "FLAGS_LONG \<equiv> 256"
abbreviation FLAGS_LONG_LONG :: u32 where "FLAGS_LONG_LONG \<equiv> 512"
abbreviation FLAGS_PRECISION :: u32 where "FLAGS_PRECISION \<equiv> 1024"
abbreviation FLAGS_ADAPT_EXP :: u32 where "FLAGS_ADAPT_EXP \<equiv> 2048"

definition has :: "u32 \<Rightarrow> u32 \<Rightarrow> bool" where
  "has flags f \<longleftrightarrow> flags AND f \<noteq> 0"

abbreviation PRINTF_NTOA_BUFFER_SIZE :: nat where "PRINTF_NTOA_BUFFER_SIZE \<equiv> 32"

datatype out_fct = Out_buffer | Out_null | Out_char | Out_fct "u8 \<Rightarrow> machine \<Rightarrow> machine"

fun out_call :: "out_fct \<Rightarrow> u8 \<Rightarrow> u32 \<Rightarrow> u32 \<Rightarrow> u32 \<Rightarrow> machine \<Rightarrow> machine" where
  "out_call Out_buffer c buffer idx maxlen s =
     (if idx < maxlen then s\<lparr>ram := (ram s)(buffer + idx := c)\<rparr> else s)"
| "out_call Out_null c buffer idx maxlen s = s"
| "out_call Out_char c buffer idx maxlen s = (if c \<noteq> 0 then putchar_c c s else s)"
| "out_call (Out_fct fct) c buffer idx maxlen s = (if c \<noteq> 0 then fct c s else s)"

type_synonym pos = "u32 \<times> machine"

text \<open>\<open>out(c, buffer, idx++, maxlen)\<close>\<close>

definition put1 :: "out_fct \<Rightarrow> u32 \<Rightarrow> u32 \<Rightarrow> u8 \<Rightarrow> pos \<Rightarrow> pos" where
  "put1 out buffer maxlen c p = (fst p + 1, out_call out c buffer (fst p) maxlen (snd p))"

subsection \<open>Small helpers\<close>

fun strnlen_loop :: "nat \<Rightarrow> mem \<Rightarrow> u32 \<Rightarrow> u32" where
  "strnlen_loop 0 m s = s"
| "strnlen_loop (Suc n) m s = (if m s \<noteq> 0 then strnlen_loop n m (s + 1) else s)"

definition strnlen_s :: "mem \<Rightarrow> u32 \<Rightarrow> u32 \<Rightarrow> u32" where
  "strnlen_s m str maxsize = strnlen_loop (unat maxsize) m str - str"

definition is_digit :: "u8 \<Rightarrow> bool" where
  "is_digit ch \<longleftrightarrow> chr CHR ''0'' <=s ch \<and> ch <=s chr CHR ''9''"

fun atoi_fmt :: "u8 list \<Rightarrow> u32 \<Rightarrow> u32 \<times> u8 list" where
  "atoi_fmt [] i = (i, [])"
| "atoi_fmt (c # cs) i =
     (if is_digit c then atoi_fmt cs (i * 10 + (char_to_int c - 48)) else (i, c # cs))"

subsection \<open>Padding and reversal\<close>

text \<open>\<open>for (; i < width; i++) out(' ', buffer, idx++, maxlen)\<close>\<close>

function pad_loop :: "out_fct \<Rightarrow> u32 \<Rightarrow> u32 \<Rightarrow> u32 \<Rightarrow> u32 \<Rightarrow> pos \<Rightarrow> pos" where
  "pad_loop out buffer maxlen i width p =
     (if i < width then pad_loop out buffer maxlen (i + 1) width (put1 out buffer maxlen 32 p)
      else p)"
  by pat_completeness auto
termination
  by (relation "measure (\<lambda>(out, buffer, maxlen, i, width, p). unat width - unat i)")
    (auto dest: loop_decreases)

declare pad_loop.simps [simp del]

text \<open>\<open>while (len) out(buf[--len], buffer, idx++, maxlen)\<close>\<close>

fun rev_loop :: "out_fct \<Rightarrow> u32 \<Rightarrow> u32 \<Rightarrow> u8 list \<Rightarrow> nat \<Rightarrow> pos \<Rightarrow> pos" where
  "rev_loop out buffer maxlen buf 0 p = p"
| "rev_loop out buffer maxlen buf (Suc len) p =
     rev_loop out buffer maxlen buf len (put1 out buffer maxlen (buf ! len) p)"

text \<open>\<open>while (idx - start_idx < width) out(' ', buffer, idx++, maxlen)\<close>\<close>

function left_loop :: "out_fct \<Rightarrow> u32 \<Rightarrow> u32 \<Rightarrow> u32 \<Rightarrow> u32 \<Rightarrow> pos \<Rightarrow> pos" where
  "left_loop out buffer maxlen start_idx width p =
     (if fst p - start_idx < width
      then left_loop out buffer maxlen start_idx width (put1 out buffer maxlen 32 p) else p)"
  by pat_completeness auto
termination
proof (relation "measure (\<lambda>(out, buffer, maxlen, start_idx, width, p).
    unat width - unat (fst p - start_idx))", goal_cases)
  case (2 out buffer maxlen start_idx width p)
  then show ?case using loop_decreases [OF 2] by (simp add: put1_def add.commute add_diff_eq)
qed simp

declare left_loop.simps [simp del]

definition out_rev :: "out_fct \<Rightarrow> u32 \<Rightarrow> u32 \<Rightarrow> u8 list \<Rightarrow> u32 \<Rightarrow> u32 \<Rightarrow> pos \<Rightarrow> pos" where
  "out_rev out buffer maxlen buf width flags p0 =
     (let start_idx = fst p0;
          len = length buf;
          p1 = (if \<not> has flags FLAGS_LEFT \<and> \<not> has flags FLAGS_ZEROPAD
                then pad_loop out buffer maxlen (of_nat len) width p0 else p0);
          p2 = rev_loop out buffer maxlen buf len p1
      in if has flags FLAGS_LEFT then left_loop out buffer maxlen start_idx width p2 else p2)"

subsection \<open>Integer conversion\<close>

text \<open>\<open>while (len < limit && len < PRINTF_NTOA_BUFFER_SIZE) buf[len++] = '0'\<close>\<close>

function zero_fill :: "u32 \<Rightarrow> u8 list \<Rightarrow> u8 list" where
  "zero_fill limit buf =
     (if length buf < unat limit \<and> length buf < PRINTF_NTOA_BUFFER_SIZE
      then zero_fill limit (buf @ [chr CHR ''0'']) else buf)"
  by pat_completeness auto
termination
  by (relation "measure (\<lambda>(limit, buf). PRINTF_NTOA_BUFFER_SIZE - length buf)") auto

declare zero_fill.simps [simp del]

text \<open>\<open>buf[len++] = c\<close>, where the code has just checked that there is room.\<close>

abbreviation room :: "u8 list \<Rightarrow> bool" where
  "room buf \<equiv> length buf < PRINTF_NTOA_BUFFER_SIZE"

text \<open>The three parts of \<open>_ntoa_format\<close>: leading zeros, the base prefix, the sign.\<close>

definition ntoa_zeros :: "bool \<Rightarrow> u32 \<Rightarrow> u32 \<Rightarrow> u32 \<Rightarrow> u8 list \<Rightarrow> u8 list \<times> u32" where
  "ntoa_zeros negative prec width flags buf =
     (if \<not> has flags FLAGS_LEFT then
        let width1 = (if width \<noteq> 0 \<and> has flags FLAGS_ZEROPAD
              \<and> (negative \<or> has flags (FLAGS_PLUS OR FLAGS_SPACE)) then width - 1 else width);
            buf1 = zero_fill prec buf;
            buf2 = (if has flags FLAGS_ZEROPAD then zero_fill width1 buf1 else buf1)
        in (buf2, width1)
      else (buf, width))"

definition ntoa_hash :: "u32 \<Rightarrow> u32 \<Rightarrow> u32 \<Rightarrow> u32 \<Rightarrow> u8 list \<Rightarrow> u8 list" where
  "ntoa_hash base prec width flags buf =
     (if has flags FLAGS_HASH then
        let len = length buf;
            buf1 = (if \<not> has flags FLAGS_PRECISION \<and> len \<noteq> 0
                       \<and> (len = unat prec \<or> len = unat width)
                    then let buf' = butlast buf
                         in if buf' \<noteq> [] \<and> base = 16 then butlast buf' else buf'
                    else buf);
            buf2 = (if base = 16 \<and> \<not> has flags FLAGS_UPPERCASE \<and> room buf1
                    then buf1 @ [chr CHR ''x'']
                    else if base = 16 \<and> has flags FLAGS_UPPERCASE \<and> room buf1
                    then buf1 @ [chr CHR ''X'']
                    else if base = 2 \<and> room buf1 then buf1 @ [chr CHR ''b''] else buf1)
        in if room buf2 then buf2 @ [chr CHR ''0''] else buf2
      else buf)"

definition ntoa_sign :: "bool \<Rightarrow> u32 \<Rightarrow> u8 list \<Rightarrow> u8 list" where
  "ntoa_sign negative flags buf =
     (if room buf then
        if negative then buf @ [chr CHR ''-'']
        else if has flags FLAGS_PLUS then buf @ [chr CHR ''+'']
        else if has flags FLAGS_SPACE then buf @ [chr CHR '' ''] else buf
      else buf)"

definition ntoa_format ::
    "out_fct \<Rightarrow> u32 \<Rightarrow> u32 \<Rightarrow> u8 list \<Rightarrow> bool \<Rightarrow> u32 \<Rightarrow> u32 \<Rightarrow> u32 \<Rightarrow> u32 \<Rightarrow> pos \<Rightarrow> pos" where
  "ntoa_format out buffer maxlen buf negative base prec width flags p =
     (let (buf1, width1) = ntoa_zeros negative prec width flags buf;
          buf2 = ntoa_hash base prec width1 flags buf1;
          buf3 = ntoa_sign negative flags buf2
      in out_rev out buffer maxlen buf3 width1 flags p)"

definition digit_char :: "u8 \<Rightarrow> u32 \<Rightarrow> u8" where
  "digit_char digit flags =
     (if digit <s 10 then chr CHR ''0'' + digit
      else (if has flags FLAGS_UPPERCASE then chr CHR ''A'' else chr CHR ''a'') + digit - 10)"

text \<open>
  The \<open>do ... while (value && len < PRINTF_NTOA_BUFFER_SIZE)\<close> loop, at the width of the
  caller's \<open>value\<close>.
\<close>

function ntoa_loop :: "'a :: len word \<Rightarrow> 'a word \<Rightarrow> u32 \<Rightarrow> u8 list \<Rightarrow> u8 list" where
  "ntoa_loop value base flags buf =
     (let buf' = buf @ [digit_char (ucast (value mod base)) flags];
          value' = value div base
      in if value' \<noteq> 0 \<and> room buf' then ntoa_loop value' base flags buf' else buf')"
  by pat_completeness auto
termination
  by (relation "measure (\<lambda>(value, base, flags, buf). PRINTF_NTOA_BUFFER_SIZE - length buf)") auto

declare ntoa_loop.simps [simp del]

definition ntoa_long ::
    "out_fct \<Rightarrow> u32 \<Rightarrow> u32 \<Rightarrow> u32 \<Rightarrow> bool \<Rightarrow> u32 \<Rightarrow> u32 \<Rightarrow> u32 \<Rightarrow> u32 \<Rightarrow> pos \<Rightarrow> pos" where
  "ntoa_long out buffer maxlen value negative base prec width flags p =
     (let flags1 = (if value = 0 then flags AND NOT FLAGS_HASH else flags);
          buf = (if \<not> has flags1 FLAGS_PRECISION \<or> value \<noteq> 0
                 then ntoa_loop value base flags1 [] else [])
      in ntoa_format out buffer maxlen buf negative base prec width flags1 p)"

definition ntoa_long_long ::
    "out_fct \<Rightarrow> u32 \<Rightarrow> u32 \<Rightarrow> u64 \<Rightarrow> bool \<Rightarrow> u64 \<Rightarrow> u32 \<Rightarrow> u32 \<Rightarrow> u32 \<Rightarrow> pos \<Rightarrow> pos" where
  "ntoa_long_long out buffer maxlen value negative base prec width flags p =
     (let flags1 = (if value = 0 then flags AND NOT FLAGS_HASH else flags);
          buf = (if \<not> has flags1 FLAGS_PRECISION \<or> value \<noteq> 0
                 then ntoa_loop value base flags1 [] else [])
      in ntoa_format out buffer maxlen buf negative (ucast base) prec width flags1 p)"

end
