(* ===== verification/Printf_Float.thy ===== *)
theory Printf_Float
  imports Printf_Int
begin

text \<open>
  The floating-point conversions \<open>_ftoa\<close> and \<open>_etoa\<close>.  The arithmetic is that of the x87
  unit, which is not part of the source: its operations, on values of some type \<open>'d\<close>,
  are the parameter \<open>fpu\<close>.  Nothing is assumed about them.
\<close>

subsection \<open>The floating-point unit\<close>

record 'd fpu =
  fp_arg :: "u32 \<times> u32 \<Rightarrow> 'd"      \<comment> \<open>a \<open>double\<close> from its two stack words\<close>
  fp_dec :: "int \<Rightarrow> int \<Rightarrow> 'd"       \<comment> \<open>the literal with this decimal mantissa and exponent\<close>
  fp_dbl_max :: 'd
  fp_eq :: "'d \<Rightarrow> 'd \<Rightarrow> bool"
  fp_lt :: "'d \<Rightarrow> 'd \<Rightarrow> bool"
  fp_le :: "'d \<Rightarrow> 'd \<Rightarrow> bool"
  fp_add :: "'d \<Rightarrow> 'd \<Rightarrow> 'd"
  fp_sub :: "'d \<Rightarrow> 'd \<Rightarrow> 'd"
  fp_mul :: "'d \<Rightarrow> 'd \<Rightarrow> 'd"
  fp_div :: "'d \<Rightarrow> 'd \<Rightarrow> 'd"
  fp_neg :: "'d \<Rightarrow> 'd"
  fp_of_int :: "u32 \<Rightarrow> 'd"
  fp_of_ulong :: "u32 \<Rightarrow> 'd"
  fp_to_int :: "'d \<Rightarrow> u32"
  fp_to_ulong :: "'d \<Rightarrow> u32"
  fp_bits :: "'d \<Rightarrow> u64"             \<comment> \<open>the union of \<open>_etoa\<close>\<close>
  fp_of_bits :: "u64 \<Rightarrow> 'd"

subsection \<open>Fixed notation\<close>

text \<open>\<open>while (len < PRINTF_FTOA_BUFFER_SIZE && prec > 9U)\<close>\<close>

function limit_prec :: "u32 \<Rightarrow> u8 list \<Rightarrow> u32 \<times> u8 list" where
  "limit_prec prec buf =
     (if room buf \<and> 9 < prec then limit_prec (prec - 1) (buf @ [chr CHR ''0'']) else (prec, buf))"
  by pat_completeness auto
termination
  by (relation "measure (\<lambda>(prec, buf). 32 - length buf)") auto

declare limit_prec.simps [simp del]

text \<open>The table \<open>pow10\<close> has ten entries: a larger index reads past it.\<close>

definition pow10 :: "'d fpu \<Rightarrow> u32 \<Rightarrow> 'd option" where
  "pow10 fp prec = (if prec \<le> 9 then Some (fp_dec fp 1 (int (unat prec))) else None)"

text \<open>The rounding of the fraction, with the rollover into the whole part.\<close>

definition round_frac :: "'d fpu \<Rightarrow> 'd \<Rightarrow> 'd \<Rightarrow> u32 \<Rightarrow> u32 \<Rightarrow> u32 \<times> u32" where
  "round_frac fp p10 diff whole frac =
     (if fp_lt fp (fp_dec fp 5 (- 1)) diff
      then (if fp_le fp p10 (fp_of_ulong fp (frac + 1)) then (whole + 1, 0) else (whole, frac + 1))
      else if fp_lt fp diff (fp_dec fp 5 (- 1)) then (whole, frac)
      else if frac = 0 \<or> frac AND 1 \<noteq> 0 then (whole, frac + 1)
      else (whole, frac))"

text \<open>The digits of the fraction: \<open>while (len < SIZE) { --count; ...; if (!(frac /= 10U)) break; }\<close>\<close>

function frac_digits :: "u32 \<Rightarrow> u32 \<Rightarrow> u8 list \<Rightarrow> u32 \<times> u8 list" where
  "frac_digits count frac buf =
     (if room buf then
        let buf' = buf @ [ucast (48 + frac mod 10)]
        in if frac div 10 = 0 then (count - 1, buf') else frac_digits (count - 1) (frac div 10) buf'
      else (count, buf))"
  by pat_completeness auto
termination
  by (relation "measure (\<lambda>(count, frac, buf). 32 - length buf)") auto

declare frac_digits.simps [simp del]

text \<open>\<open>while (len < SIZE && count-- > 0U) buf[len++] = '0'\<close>\<close>

function extra_zeros :: "u32 \<Rightarrow> u8 list \<Rightarrow> u8 list" where
  "extra_zeros count buf =
     (if room buf \<and> 0 < count then extra_zeros (count - 1) (buf @ [chr CHR ''0'']) else buf)"
  by pat_completeness auto
termination
  by (relation "measure (\<lambda>(count, buf). 32 - length buf)") auto

declare extra_zeros.simps [simp del]

text \<open>The digits of the whole part, an \<open>int\<close>: C division truncates.\<close>

function whole_digits :: "u32 \<Rightarrow> u8 list \<Rightarrow> u8 list" where
  "whole_digits whole buf =
     (if room buf then
        let buf' = buf @ [word_of_int (48 + sint whole smod 10)];
            whole' = word_of_int (sint whole sdiv 10)
        in if whole' = 0 then buf' else whole_digits whole' buf'
      else buf)"
  by pat_completeness auto
termination
  by (relation "measure (\<lambda>(whole, buf). 32 - length buf)") auto

declare whole_digits.simps [simp del]

definition ftoa_fixed ::
    "'d fpu \<Rightarrow> out_fct \<Rightarrow> u32 \<Rightarrow> u32 \<Rightarrow> 'd \<Rightarrow> u32 \<Rightarrow> u32 \<Rightarrow> u32 \<Rightarrow> pos \<Rightarrow> pos option" where
  "ftoa_fixed fp out buffer maxlen value0 prec0 width flags p =
     (let negative = fp_lt fp value0 (fp_dec fp 0 0);
          value = (if negative then fp_sub fp (fp_dec fp 0 0) value0 else value0);
          (prec, buf0) = limit_prec (if \<not> has flags FLAGS_PRECISION then 6 else prec0) []
      in case pow10 fp prec of None \<Rightarrow> None
       | Some p10 \<Rightarrow>
         let whole0 = fp_to_int fp value;
             tmp = fp_mul fp (fp_sub fp value (fp_of_int fp whole0)) p10;
             frac0 = fp_to_ulong fp tmp;
             diff0 = fp_sub fp tmp (fp_of_ulong fp frac0);
             (whole1, frac) = round_frac fp p10 diff0 whole0 frac0;
             (whole, buf1) =
               (if prec = 0 then
                  let diff = fp_sub fp value (fp_of_int fp whole1)
                  in (if (\<not> fp_lt fp diff (fp_dec fp 5 (- 1)) \<or> fp_lt fp (fp_dec fp 5 (- 1)) diff)
                         \<and> whole1 AND 1 \<noteq> 0
                      then (whole1 + 1, buf0) else (whole1, buf0))
                else
                  let (count, b1) = frac_digits prec frac buf0; b2 = extra_zeros count b1
                  in (whole1, if room b2 then b2 @ [chr CHR ''.''] else b2));
             buf2 = whole_digits whole buf1;
             (buf3, width1) =
               (if \<not> has flags FLAGS_LEFT \<and> has flags FLAGS_ZEROPAD then
                  let w1 = (if width \<noteq> 0 \<and> (negative \<or> has flags (FLAGS_PLUS OR FLAGS_SPACE))
                            then width - 1 else width)
                  in (zero_fill w1 buf2, w1)
                else (buf2, width))
         in Some (out_rev out buffer maxlen (ntoa_sign negative flags buf3) width1 flags p))"

subsection \<open>Exponential notation\<close>

text \<open>The decimal exponent and the power of ten it stands for, from the bits of the value.\<close>

definition decimal_exponent :: "'d fpu \<Rightarrow> 'd \<Rightarrow> u32 \<times> 'd" where
  "decimal_exponent fp value =
     (let u = fp_bits fp value;
          exp2 = ucast (drop_bit 52 u AND 0x7FF) - 1023;
          f = fp_of_bits fp ((u AND mask 52) OR push_bit 52 1023);
          expval = fp_to_int fp (fp_add fp
              (fp_add fp (fp_dec fp 1760912590558 (- 13))
                (fp_mul fp (fp_of_int fp exp2) (fp_dec fp 301029995663981 (- 15))))
              (fp_mul fp (fp_sub fp f (fp_dec fp 15 (- 1))) (fp_dec fp 289529654602168 (- 15))));
          exp2' = fp_to_int fp (fp_add fp
              (fp_mul fp (fp_of_int fp expval) (fp_dec fp 3321928094887362 (- 15))) (fp_dec fp 5 (- 1)));
          z = fp_sub fp (fp_mul fp (fp_of_int fp expval) (fp_dec fp 2302585092994046 (- 15)))
                (fp_mul fp (fp_of_int fp exp2') (fp_dec fp 6931471805599453 (- 16)));
          z2 = fp_mul fp z z;
          f1 = fp_of_bits fp (push_bit 52 (scast (exp2' + 1023)));
          f2 = fp_mul fp f1 (fp_add fp (fp_dec fp 1 0)
              (fp_div fp (fp_mul fp (fp_dec fp 2 0) z)
                (fp_add fp (fp_sub fp (fp_dec fp 2 0) z)
                  (fp_div fp z2 (fp_add fp (fp_dec fp 6 0)
                    (fp_div fp z2 (fp_add fp (fp_dec fp 10 0)
                      (fp_div fp z2 (fp_dec fp 14 0)))))))))
      in if fp_lt fp value f2 then (expval - 1, fp_div fp f2 (fp_dec fp 10 0)) else (expval, f2))"

text \<open>Precision, exponent, flags and the width of the exponent after the \<open>%g\<close> decision.\<close>

definition adapt_exp :: "'d fpu \<Rightarrow> 'd \<Rightarrow> u32 \<Rightarrow> u32 \<Rightarrow> u32 \<Rightarrow> u32 \<times> u32 \<times> u32 \<times> u32" where
  "adapt_exp fp value prec expval flags =
     (let minwidth = (if expval <s 100 \<and> - 100 <s expval then 4 else 5)
      in if has flags FLAGS_ADAPT_EXP then
           if fp_le fp (fp_dec fp 1 (- 4)) value \<and> fp_lt fp value (fp_dec fp 1 6)
           then (if expval <s prec then prec - expval - 1 else 0, 0, flags OR FLAGS_PRECISION, 0)
           else (if 0 < prec \<and> has flags FLAGS_PRECISION then prec - 1 else prec,
                 expval, flags, minwidth)
         else (prec, expval, flags, minwidth))"

text \<open>The exponent part, and the spaces after it.\<close>

definition etoa_exponent ::
    "out_fct \<Rightarrow> u32 \<Rightarrow> u32 \<Rightarrow> u32 \<Rightarrow> u32 \<Rightarrow> u32 \<Rightarrow> u32 \<Rightarrow> u32 \<Rightarrow> pos \<Rightarrow> pos" where
  "etoa_exponent out buffer maxlen expval minwidth start_idx width flags p1 =
     (if minwidth \<noteq> 0 then
        let p2 = put1 out buffer maxlen
              (if has flags FLAGS_UPPERCASE then chr CHR ''E'' else chr CHR ''e'') p1;
            p3 = ntoa_long out buffer maxlen (if expval <s 0 then - expval else expval)
              (expval <s 0) 10 0 (minwidth - 1) (FLAGS_ZEROPAD OR FLAGS_PLUS) p2
        in if has flags FLAGS_LEFT then left_loop out buffer maxlen start_idx width p3 else p3
      else p1)"

text \<open>The special values and their text, in reverse, and the values that \<open>_ftoa\<close> leaves to \<open>_etoa\<close>.\<close>

definition ftoa_special :: "'d fpu \<Rightarrow> 'd \<Rightarrow> u32 \<Rightarrow> u8 list option" where
  "ftoa_special fp value flags =
     (if \<not> fp_eq fp value value then Some (bytes ''nan'')
      else if fp_lt fp value (fp_neg fp (fp_dbl_max fp)) then Some (bytes ''fni-'')
      else if fp_lt fp (fp_dbl_max fp) value
      then Some (if has flags FLAGS_PLUS then bytes ''fni+'' else bytes ''fni'')
      else None)"

definition ftoa_large :: "'d fpu \<Rightarrow> 'd \<Rightarrow> bool" where
  "ftoa_large fp value \<longleftrightarrow> fp_lt fp (fp_dec fp 1 9) value \<or> fp_lt fp value (fp_neg fp (fp_dec fp 1 9))"

declare ftoa_special_def [simp] ftoa_large_def [simp]

text \<open>
  \<open>_ftoa\<close> (\<open>exp\<close> false) and \<open>_etoa\<close> (\<open>exp\<close> true) call each other.
\<close>

partial_function (option) float_conv ::
    "'d fpu \<Rightarrow> bool \<Rightarrow> out_fct \<Rightarrow> u32 \<Rightarrow> u32 \<Rightarrow> 'd \<Rightarrow> u32 \<Rightarrow> u32 \<Rightarrow> u32 \<Rightarrow> pos \<Rightarrow> pos option" where
  "float_conv fp exp out buffer maxlen value prec width flags p =
     (if \<not> exp then
        if ftoa_special fp value flags \<noteq> None
        then Some (out_rev out buffer maxlen (the (ftoa_special fp value flags)) width flags p)
        else if ftoa_large fp value
        then float_conv fp True out buffer maxlen value prec width flags p
        else ftoa_fixed fp out buffer maxlen value prec width flags p
      else
        if \<not> fp_eq fp value value \<or> fp_lt fp (fp_dbl_max fp) value
           \<or> fp_lt fp value (fp_neg fp (fp_dbl_max fp))
        then float_conv fp False out buffer maxlen value prec width flags p
        else
          let negative = fp_lt fp value (fp_dec fp 0 0);
              v = (if negative then fp_neg fp value else value);
              (expval0, f) = decimal_exponent fp v;
              (prec1, expval, flags1, minwidth) =
                adapt_exp fp v (if \<not> has flags FLAGS_PRECISION then 6 else prec) expval0 flags;
              fwidth = (if has flags1 FLAGS_LEFT \<and> minwidth \<noteq> 0 then 0
                        else if minwidth < width then width - minwidth else 0);
              v1 = (if expval \<noteq> 0 then fp_div fp v f else v)
          in do {
            p1 \<leftarrow> float_conv fp False out buffer maxlen (if negative then fp_neg fp v1 else v1)
                   prec1 fwidth (flags1 AND NOT FLAGS_ADAPT_EXP) p;
            Some (etoa_exponent out buffer maxlen expval minwidth (fst p) width flags1 p1) })"

end
