(* ===== verification/Printf.thy ===== *)
theory Printf
  imports Printf_Float
begin

text \<open>
  The upper half of \<open>libc/printf.c\<close>: the directives, \<open>_vsnprintf\<close> and the public
  functions.  The format is the bytes of the format string before its terminator; the
  variable arguments are the 32-bit words of the caller's stack, as \<open>va_arg\<close> takes them
  on this target (a \<open>long long\<close> and a \<open>double\<close> take two).  A call whose arguments run
  out, or that reads the format past its terminator, has no defined behaviour: \<open>None\<close>.
\<close>

subsection \<open>Format directives\<close>

type_synonym va = "u32 list"

fun va_arg :: "va \<Rightarrow> (u32 \<times> va) option" where
  "va_arg [] = None"
| "va_arg (x # xs) = Some (x, xs)"

fun va_arg2 :: "va \<Rightarrow> ((u32 \<times> u32) \<times> va) option" where
  "va_arg2 (lo # hi # xs) = Some ((lo, hi), xs)"
| "va_arg2 _ = None"

definition long_long :: "u32 \<times> u32 \<Rightarrow> u64" where
  "long_long w = ucast (fst w) OR push_bit 32 (ucast (snd w))"

text \<open>\<open>*format\<close>: the character at the position, the terminator at the end.\<close>

fun fhead :: "u8 list \<Rightarrow> u8" where
  "fhead [] = 0"
| "fhead (c # cs) = c"

fun parse_flags :: "u8 list \<Rightarrow> u32 \<Rightarrow> u32 \<times> u8 list" where
  "parse_flags [] flags = (flags, [])"
| "parse_flags (c # cs) flags =
     (if c = chr CHR ''0'' then parse_flags cs (flags OR FLAGS_ZEROPAD)
      else if c = chr CHR ''-'' then parse_flags cs (flags OR FLAGS_LEFT)
      else if c = chr CHR ''+'' then parse_flags cs (flags OR FLAGS_PLUS)
      else if c = chr CHR '' '' then parse_flags cs (flags OR FLAGS_SPACE)
      else if c = chr CHR ''#'' then parse_flags cs (flags OR FLAGS_HASH)
      else (flags, c # cs))"

text \<open>Width: flags, width, rest of the format, rest of the arguments.\<close>

definition parse_width :: "u8 list \<Rightarrow> u32 \<Rightarrow> va \<Rightarrow> (u32 \<times> u32 \<times> u8 list \<times> va) option" where
  "parse_width fmt flags va =
     (if is_digit (fhead fmt)
      then let (width, fmt') = atoi_fmt fmt 0 in Some (flags, width, fmt', va)
      else if fhead fmt = chr CHR ''*''
      then do {
        (w, va') \<leftarrow> va_arg va;
        Some (if w <s 0 then (flags OR FLAGS_LEFT, - w, tl fmt, va')
              else (flags, w, tl fmt, va')) }
      else Some (flags, 0, fmt, va))"

definition parse_precision :: "u8 list \<Rightarrow> u32 \<Rightarrow> va \<Rightarrow> (u32 \<times> u32 \<times> u8 list \<times> va) option" where
  "parse_precision fmt flags va =
     (if fhead fmt = chr CHR ''.'' then
        let flags' = flags OR FLAGS_PRECISION; fmt' = tl fmt
        in if is_digit (fhead fmt')
           then let (precision, fmt'') = atoi_fmt fmt' 0 in Some (flags', precision, fmt'', va)
           else if fhead fmt' = chr CHR ''*''
           then do {
             (prec, va') \<leftarrow> va_arg va;
             Some (flags', if 0 <s prec then prec else 0, tl fmt', va') }
           else Some (flags', 0, fmt', va)
      else Some (flags, 0, fmt, va))"

text \<open>
  Length: on this target \<open>ptrdiff_t\<close> and \<open>size_t\<close> have the size of \<open>long\<close>,
  \<open>intmax_t\<close> that of \<open>long long\<close>.
\<close>

definition parse_length :: "u8 list \<Rightarrow> u32 \<Rightarrow> u32 \<times> u8 list" where
  "parse_length fmt flags =
     (if fhead fmt = chr CHR ''l'' then
        let flags' = flags OR FLAGS_LONG; fmt' = tl fmt
        in if fhead fmt' = chr CHR ''l'' then (flags' OR FLAGS_LONG_LONG, tl fmt') else (flags', fmt')
      else if fhead fmt = chr CHR ''h'' then
        let flags' = flags OR FLAGS_SHORT; fmt' = tl fmt
        in if fhead fmt' = chr CHR ''h'' then (flags' OR FLAGS_CHAR, tl fmt') else (flags', fmt')
      else if fhead fmt = chr CHR ''t'' then (flags OR FLAGS_LONG, tl fmt)
      else if fhead fmt = chr CHR ''j'' then (flags OR FLAGS_LONG_LONG, tl fmt)
      else if fhead fmt = chr CHR ''z'' then (flags OR FLAGS_LONG, tl fmt)
      else (flags, fmt))"

subsection \<open>The conversions\<close>

text \<open>Base and flags of an integer conversion.\<close>

definition int_base :: "u8 \<Rightarrow> u32" where
  "int_base spec =
     (if spec = chr CHR ''x'' \<or> spec = chr CHR ''X'' then 16
      else if spec = chr CHR ''o'' then 8
      else if spec = chr CHR ''b'' then 2 else 10)"

definition int_flags :: "u8 \<Rightarrow> u32 \<Rightarrow> u32" where
  "int_flags spec flags =
     (let signed = (spec = chr CHR ''i'' \<or> spec = chr CHR ''d'');
          f1 = (if int_base spec = 10 then flags AND NOT FLAGS_HASH else flags);
          f2 = (if spec = chr CHR ''X'' then f1 OR FLAGS_UPPERCASE else f1);
          f3 = (if \<not> signed then f2 AND NOT (FLAGS_PLUS OR FLAGS_SPACE) else f2)
      in if has f3 FLAGS_PRECISION then f3 AND NOT FLAGS_ZEROPAD else f3)"

text \<open>\<open>value > 0 ? value : 0 - value\<close>\<close>

definition magnitude :: "'a :: len word \<Rightarrow> 'a word" where
  "magnitude v = (if 0 <s v then v else 0 - v)"

definition conv_int ::
    "out_fct \<Rightarrow> u32 \<Rightarrow> u32 \<Rightarrow> u8 \<Rightarrow> u32 \<Rightarrow> u32 \<Rightarrow> u32 \<Rightarrow> va \<Rightarrow> pos \<Rightarrow> (va \<times> pos) option" where
  "conv_int out buffer maxlen spec flags0 width precision va p =
     (let base = int_base spec; flags = int_flags spec flags0
      in if spec = chr CHR ''i'' \<or> spec = chr CHR ''d'' then
           if has flags FLAGS_LONG_LONG then do {
             (w, va') \<leftarrow> va_arg2 va;
             let value = long_long w;
             Some (va', ntoa_long_long out buffer maxlen (magnitude value) (value <s 0)
                          (ucast base) precision width flags p) }
           else if has flags FLAGS_LONG then do {
             (value, va') \<leftarrow> va_arg va;
             Some (va', ntoa_long out buffer maxlen (magnitude value) (value <s 0)
                          base precision width flags p) }
           else do {
             (w, va') \<leftarrow> va_arg va;
             let value = (if has flags FLAGS_CHAR then char_to_int (ucast w)
                          else if has flags FLAGS_SHORT then scast (ucast w :: u16) else w);
             Some (va', ntoa_long out buffer maxlen (magnitude value) (value <s 0)
                          base precision width flags p) }
         else
           if has flags FLAGS_LONG_LONG then do {
             (w, va') \<leftarrow> va_arg2 va;
             Some (va', ntoa_long_long out buffer maxlen (long_long w) False
                          (ucast base) precision width flags p) }
           else if has flags FLAGS_LONG then do {
             (value, va') \<leftarrow> va_arg va;
             Some (va', ntoa_long out buffer maxlen value False base precision width flags p) }
           else do {
             (w, va') \<leftarrow> va_arg va;
             let value = (if has flags FLAGS_CHAR then ucast (ucast w :: u8)
                          else if has flags FLAGS_SHORT then ucast (ucast w :: u16) else w);
             Some (va', ntoa_long out buffer maxlen value False base precision width flags p) })"

definition conv_char ::
    "out_fct \<Rightarrow> u32 \<Rightarrow> u32 \<Rightarrow> u32 \<Rightarrow> u32 \<Rightarrow> va \<Rightarrow> pos \<Rightarrow> (va \<times> pos) option" where
  "conv_char out buffer maxlen flags width va p = do {
     let p1 = (if \<not> has flags FLAGS_LEFT then pad_loop out buffer maxlen 1 width p else p);
     (w, va') \<leftarrow> va_arg va;
     let p2 = put1 out buffer maxlen (ucast w) p1;
     Some (va', if has flags FLAGS_LEFT then pad_loop out buffer maxlen 1 width p2 else p2) }"

text \<open>
  \<open>while (*p != 0 && (!(flags & FLAGS_PRECISION) || precision--)) out(*(p++), ...)\<close>, reading
  each byte from the memory as the output has left it.
\<close>

partial_function (option) str_loop ::
    "out_fct \<Rightarrow> u32 \<Rightarrow> u32 \<Rightarrow> bool \<Rightarrow> u32 \<Rightarrow> u32 \<Rightarrow> pos \<Rightarrow> pos option" where
  "str_loop out buffer maxlen limited precision q p =
     (if ram (snd p) q \<noteq> 0 \<and> (\<not> limited \<or> precision \<noteq> 0)
      then str_loop out buffer maxlen limited (if limited then precision - 1 else precision)
             (q + 1) (put1 out buffer maxlen (ram (snd p) q) p)
      else Some p)"

definition conv_str ::
    "out_fct \<Rightarrow> u32 \<Rightarrow> u32 \<Rightarrow> u32 \<Rightarrow> u32 \<Rightarrow> u32 \<Rightarrow> va \<Rightarrow> pos \<Rightarrow> (va \<times> pos) option" where
  "conv_str out buffer maxlen flags width precision va p = do {
     (q, va') \<leftarrow> va_arg va;
     let l0 = strnlen_s (ram (snd p)) q (if precision \<noteq> 0 then precision else - 1);
     let l = (if has flags FLAGS_PRECISION then (if l0 < precision then l0 else precision) else l0);
     let p1 = (if \<not> has flags FLAGS_LEFT then pad_loop out buffer maxlen l width p else p);
     p2 \<leftarrow> str_loop out buffer maxlen (has flags FLAGS_PRECISION) precision q p1;
     Some (va', if has flags FLAGS_LEFT then pad_loop out buffer maxlen l width p2 else p2) }"

definition conv_ptr ::
    "out_fct \<Rightarrow> u32 \<Rightarrow> u32 \<Rightarrow> u32 \<Rightarrow> u32 \<Rightarrow> va \<Rightarrow> pos \<Rightarrow> (va \<times> pos) option" where
  "conv_ptr out buffer maxlen flags precision va p = do {
     (w, va') \<leftarrow> va_arg va;
     Some (va', ntoa_long out buffer maxlen w False 16 precision 8
                  (flags OR (FLAGS_ZEROPAD OR FLAGS_UPPERCASE)) p) }"

definition conv_float ::
    "'d fpu \<Rightarrow> out_fct \<Rightarrow> u32 \<Rightarrow> u32 \<Rightarrow> u8 \<Rightarrow> u32 \<Rightarrow> u32 \<Rightarrow> u32 \<Rightarrow> va \<Rightarrow> pos
      \<Rightarrow> (va \<times> pos) option" where
  "conv_float fp out buffer maxlen spec flags width precision va p = do {
     (d, va') \<leftarrow> va_arg2 va;
     p' \<leftarrow> (if spec = chr CHR ''f'' \<or> spec = chr CHR ''F''
           then float_conv fp False out buffer maxlen (fp_arg fp d) precision width
                  (if spec = chr CHR ''F'' then flags OR FLAGS_UPPERCASE else flags) p
           else float_conv fp True out buffer maxlen (fp_arg fp d) precision width
                  ((if spec = chr CHR ''g'' \<or> spec = chr CHR ''G'' then flags OR FLAGS_ADAPT_EXP else flags)
                    OR (if spec = chr CHR ''E'' \<or> spec = chr CHR ''G'' then FLAGS_UPPERCASE else 0)) p);
     Some (va', p') }"

text \<open>A percent sign, and any other character.\<close>

definition conv_other :: "out_fct \<Rightarrow> u32 \<Rightarrow> u32 \<Rightarrow> u8 \<Rightarrow> va \<Rightarrow> pos \<Rightarrow> (va \<times> pos) option" where
  "conv_other out buffer maxlen spec va p =
     (if spec = chr CHR ''%'' then Some (va, put1 out buffer maxlen (chr CHR ''%'') p)
      else Some (va, put1 out buffer maxlen spec p))"

declare conv_other_def [simp]

text \<open>\<open>switch (*format)\<close>; the caller has checked that there is a character.\<close>

definition convert ::
    "'d fpu \<Rightarrow> out_fct \<Rightarrow> u32 \<Rightarrow> u32 \<Rightarrow> u8 \<Rightarrow> u32 \<Rightarrow> u32 \<Rightarrow> u32 \<Rightarrow> va \<Rightarrow> pos
      \<Rightarrow> (va \<times> pos) option" where
  "convert fp out buffer maxlen spec flags width precision va p =
     (if spec \<in> set (bytes ''diuxXob'')
      then conv_int out buffer maxlen spec flags width precision va p
      else if spec \<in> set (bytes ''fFeEgG'')
      then conv_float fp out buffer maxlen spec flags width precision va p
      else if spec = chr CHR ''c'' then conv_char out buffer maxlen flags width va p
      else if spec = chr CHR ''s'' then conv_str out buffer maxlen flags width precision va p
      else if spec = chr CHR ''p'' then conv_ptr out buffer maxlen flags precision va p
      else conv_other out buffer maxlen spec va p)"

text \<open>Flags, width, precision and length of one directive, in the source's order.\<close>

definition parse_directive ::
    "u8 list \<Rightarrow> va \<Rightarrow> (u32 \<times> u32 \<times> u32 \<times> u8 list \<times> va) option" where
  "parse_directive fmt va = do {
     let (f1, fmt1) = parse_flags fmt 0;
     (f2, width, fmt2, va2) \<leftarrow> parse_width fmt1 f1 va;
     (f3, precision, fmt3, va3) \<leftarrow> parse_precision fmt2 f2 va2;
     let (f4, fmt4) = parse_length fmt3 f3;
     Some (f4, width, precision, fmt4, va3) }"

subsection \<open>Directives consume the format\<close>

lemma length_atoi_fmt: "length (snd (atoi_fmt cs i)) \<le> length cs"
  by (induction cs i rule: atoi_fmt.induct) auto

lemma length_parse_flags: "length (snd (parse_flags cs f)) \<le> length cs"
  by (induction cs f rule: parse_flags.induct) auto

lemma length_parse_width:
  "parse_width fmt f va = Some (f', w, fmt', va') \<Longrightarrow> length fmt' \<le> length fmt"
  using length_atoi_fmt [of fmt 0]
  by (auto simp: parse_width_def bind_eq_Some_conv split: if_splits prod.splits)

lemma length_parse_precision:
  "parse_precision fmt f va = Some (f', w, fmt', va') \<Longrightarrow> length fmt' \<le> length fmt"
  using length_atoi_fmt [of "tl fmt" 0]
  by (auto simp: parse_precision_def bind_eq_Some_conv Let_def split: if_splits prod.splits)

lemma length_parse_length: "length (snd (parse_length fmt f)) \<le> length fmt"
  by (auto simp: parse_length_def Let_def)

lemma parse_directive_parts:
  assumes "parse_directive fmt va = Some (f, w, p, fmt', va')"
  obtains f1 fmt1 f2 fmt2 va2 f3 fmt3 where
    "parse_flags fmt 0 = (f1, fmt1)" "parse_width fmt1 f1 va = Some (f2, w, fmt2, va2)"
    "parse_precision fmt2 f2 va2 = Some (f3, p, fmt3, va')" "parse_length fmt3 f3 = (f, fmt')"
proof -
  obtain f1 fmt1 where 1: "parse_flags fmt 0 = (f1, fmt1)" by fastforce
  from assms obtain f2 fmt2 va2 f3 fmt3 where
    2: "parse_width fmt1 f1 va = Some (f2, w, fmt2, va2)"
      "parse_precision fmt2 f2 va2 = Some (f3, p, fmt3, va')"
    and 3: "f = fst (parse_length fmt3 f3)" "fmt' = snd (parse_length fmt3 f3)"
    by (auto simp: parse_directive_def 1 bind_eq_Some_conv case_prod_beta)
  from 3 have "parse_length fmt3 f3 = (f, fmt')" by simp
  with 1 2 show thesis by (rule that)
qed

lemma length_parse_directive:
  assumes "parse_directive fmt va = Some (f, w, p, fmt', va')"
  shows "length fmt' \<le> length fmt"
  using assms
proof (rule parse_directive_parts)
  fix f1 fmt1 f2 fmt2 va2 f3 fmt3
  assume 1: "parse_flags fmt 0 = (f1, fmt1)" "parse_width fmt1 f1 va = Some (f2, w, fmt2, va2)"
    "parse_precision fmt2 f2 va2 = Some (f3, p, fmt3, va')" "parse_length fmt3 f3 = (f, fmt')"
  show "length fmt' \<le> length fmt"
    using length_parse_flags [of fmt 0] length_parse_width [OF 1(2)]
      length_parse_precision [OF 1(3)] length_parse_length [of fmt3 f3] 1(1,4) by simp
qed

subsection \<open>The main loop and the public functions\<close>

text \<open>
  \<open>while (*format)\<close>.  A format that ends inside a directive makes the source step over
  the terminator and read on behind it: \<open>None\<close>.
\<close>

function vsn_loop ::
    "'d fpu \<Rightarrow> out_fct \<Rightarrow> u32 \<Rightarrow> u32 \<Rightarrow> u8 list \<Rightarrow> va \<Rightarrow> pos \<Rightarrow> pos option" where
  "vsn_loop fp out buffer maxlen [] va p = Some p"
| "vsn_loop fp out buffer maxlen (c # fmt) va p =
     (if c \<noteq> chr CHR ''%''
      then vsn_loop fp out buffer maxlen fmt va (put1 out buffer maxlen c p)
      else do {
        (flags, width, precision, fmt1, va1) \<leftarrow> parse_directive fmt va;
        if fmt1 = [] then None
        else do {
          (va2, p2) \<leftarrow> convert fp out buffer maxlen (fhead fmt1) flags width precision va1 p;
          vsn_loop fp out buffer maxlen (tl fmt1) va2 p2 } })"
  by pat_completeness auto
termination
  by (relation "measure (\<lambda>(fp, out, buffer, maxlen, fmt, va, p). length fmt)")
    (auto dest!: length_parse_directive intro: le_less_trans [OF diff_le_self])

text \<open>The terminator, at the end of the text or of the buffer.\<close>

definition put_end :: "out_fct \<Rightarrow> u32 \<Rightarrow> u32 \<Rightarrow> pos \<Rightarrow> machine" where
  "put_end out buffer maxlen p =
     out_call out 0 buffer (if fst p < maxlen then fst p else maxlen - 1) maxlen (snd p)"

declare put_end_def [simp]

definition vsnprintf_core ::
    "'d fpu \<Rightarrow> out_fct \<Rightarrow> u32 \<Rightarrow> u32 \<Rightarrow> u8 list \<Rightarrow> va \<Rightarrow> machine \<Rightarrow> (u32 \<times> machine) option" where
  "vsnprintf_core fp out0 buffer maxlen fmt va s = do {
     let out = (if buffer = 0 then Out_null else out0);
     (idx, s1) \<leftarrow> vsn_loop fp out buffer maxlen fmt va (0, s);
     Some (idx, put_end out buffer maxlen (idx, s1)) }"

text \<open>
  \<open>printf\<close> and \<open>vprintf\<close> pass a local array, so a buffer that is not null; their output
  function ignores it.
\<close>

definition local_buffer :: u32 where "local_buffer = 1"

definition printf :: "'d fpu \<Rightarrow> u8 list \<Rightarrow> va \<Rightarrow> machine \<Rightarrow> (u32 \<times> machine) option" where
  "printf fp fmt va s = vsnprintf_core fp Out_char local_buffer (- 1) fmt va s"

definition vprintf :: "'d fpu \<Rightarrow> u8 list \<Rightarrow> va \<Rightarrow> machine \<Rightarrow> (u32 \<times> machine) option" where
  "vprintf fp fmt va s = vsnprintf_core fp Out_char local_buffer (- 1) fmt va s"

definition sprintf ::
    "'d fpu \<Rightarrow> u32 \<Rightarrow> u8 list \<Rightarrow> va \<Rightarrow> machine \<Rightarrow> (u32 \<times> machine) option" where
  "sprintf fp buffer fmt va s = vsnprintf_core fp Out_buffer buffer (- 1) fmt va s"

definition snprintf ::
    "'d fpu \<Rightarrow> u32 \<Rightarrow> u32 \<Rightarrow> u8 list \<Rightarrow> va \<Rightarrow> machine \<Rightarrow> (u32 \<times> machine) option" where
  "snprintf fp buffer count fmt va s = vsnprintf_core fp Out_buffer buffer count fmt va s"

definition vsnprintf ::
    "'d fpu \<Rightarrow> u32 \<Rightarrow> u32 \<Rightarrow> u8 list \<Rightarrow> va \<Rightarrow> machine \<Rightarrow> (u32 \<times> machine) option" where
  "vsnprintf fp buffer count fmt va s = vsnprintf_core fp Out_buffer buffer count fmt va s"

definition vsprintf ::
    "'d fpu \<Rightarrow> u32 \<Rightarrow> u8 list \<Rightarrow> va \<Rightarrow> machine \<Rightarrow> (u32 \<times> machine) option" where
  "vsprintf fp buffer fmt va s = vsnprintf fp buffer 80 fmt va s"

text \<open>\<open>arg\<close> is fixed for the call: the callback is its closure.\<close>

definition fctprintf ::
    "'d fpu \<Rightarrow> (u8 \<Rightarrow> u32 \<Rightarrow> machine \<Rightarrow> machine) \<Rightarrow> u32 \<Rightarrow> u8 list \<Rightarrow> va \<Rightarrow> machine
      \<Rightarrow> (u32 \<times> machine) option" where
  "fctprintf fp fct arg fmt va s =
     vsnprintf_core fp (Out_fct (\<lambda>c. fct c arg)) local_buffer (- 1) fmt va s"

text \<open>The stream versions of \<open>lib.c\<close> ignore the stream and return \<open>-1\<close>.\<close>

definition vfprintf ::
    "'d fpu \<Rightarrow> u32 \<Rightarrow> u8 list \<Rightarrow> va \<Rightarrow> machine \<Rightarrow> (u32 \<times> machine) option" where
  "vfprintf fp stream fmt va s = do {
     (_, s') \<leftarrow> vprintf fp fmt va s;
     Some (- 1, s') }"

definition fprintf ::
    "'d fpu \<Rightarrow> u32 \<Rightarrow> u8 list \<Rightarrow> va \<Rightarrow> machine \<Rightarrow> (u32 \<times> machine) option" where
  "fprintf fp stream fmt va s = do {
     (_, s') \<leftarrow> vprintf fp fmt va s;
     Some (- 1, s') }"

end
