(* ===== verification/Console_Spec.thy ===== *)
theory Console_Spec
  imports Console
begin

text \<open>
  The console as an abstract terminal.  \<open>view\<close> reads the 2000 cells of the VGA window,
  the cursor and the attribute out of the machine; the operations of \<open>Console\<close> are
  shown to act on the view as the list operations \<open>tty_*\<close> do, to keep the cursor on the
  screen, and to leave all memory outside the window alone.
\<close>

subsection \<open>The abstract terminal\<close>

record tty =
  cells :: "u16 list"
  crow :: nat
  ccol :: nat
  cattr :: u8

definition tty_scroll :: "tty \<Rightarrow> tty" where
  "tty_scroll t = t\<lparr>cells := drop 80 (cells t) @ replicate 80 (blank (cattr t))\<rparr>"

definition tty_char :: "u32 \<Rightarrow> tty \<Rightarrow> tty" where
  "tty_char c t =
     (if c = 10 then t\<lparr>ccol := 0, crow := Suc (crow t)\<rparr>
      else if c = 13 then t\<lparr>ccol := 0\<rparr>
      else if c = 8 then t\<lparr>ccol := ccol t - 1\<rparr>
      else if c = 11 then t\<lparr>crow := Suc (crow t)\<rparr>
      else if c = 9 then t\<lparr>ccol := 4 * (ccol t div 4) + 4\<rparr>
      else t\<lparr>cells := (cells t)[80 * crow t + ccol t := vga_entry (ucast c) (cattr t)],
             ccol := Suc (ccol t)\<rparr>)"

definition tty_settle :: "tty \<Rightarrow> tty" where
  "tty_settle t =
     (let t1 = if 80 \<le> ccol t then t\<lparr>ccol := 0, crow := Suc (crow t)\<rparr> else t
      in if 25 \<le> crow t1 then tty_scroll (t1\<lparr>crow := 24\<rparr>) else t1)"

definition tty_put :: "u32 \<Rightarrow> tty \<Rightarrow> tty" where
  "tty_put c t = tty_settle (tty_char c t)"

subsection \<open>The view\<close>

definition cell :: "mem \<Rightarrow> nat \<Rightarrow> u16" where
  "cell m i = ld16 m (vga_base + of_nat (2 * i))"

definition screen :: "mem \<Rightarrow> u16 list" where
  "screen m = map (cell m) [0..<2000]"

definition view :: "machine \<Rightarrow> tty" where
  "view s = \<lparr>cells = screen (ram s), crow = unat (term_row s), ccol = unat (term_col s),
             cattr = term_color s\<rparr>"

definition term_ok :: "machine \<Rightarrow> bool" where
  "term_ok s \<longleftrightarrow> term_row s < LINES \<and> term_col s < COLS"

text \<open>The bytes of the window: 2000 cells of two bytes.\<close>

abbreviation vga_window :: "u32 set" where
  "vga_window \<equiv> span vga_base 4000"

lemma length_screen [simp]: "length (screen m) = 2000"
  by (simp add: screen_def)

lemma nth_screen [simp]: "i < 2000 \<Longrightarrow> screen m ! i = cell m i"
  by (simp add: screen_def)

subsection \<open>Cells\<close>

lemma cell_bytes:
  "cell m i = ucast (m (vga_base + of_nat (2 * i)))
     OR push_bit 8 (ucast (m (vga_base + of_nat (2 * i + 1))))"
  by (simp add: cell_def ld16_def add.assoc)

lemma cell_cong:
  "m (vga_base + of_nat (2 * i)) = m' (vga_base + of_nat (2 * j)) \<Longrightarrow>
   m (vga_base + of_nat (2 * i + 1)) = m' (vga_base + of_nat (2 * j + 1)) \<Longrightarrow>
   cell m i = cell m' j"
  unfolding cell_bytes by (simp only:)

lemma cell_addr_inj:
  "a < 4000 \<Longrightarrow> b < 4000 \<Longrightarrow> vga_base + of_nat a = vga_base + (of_nat b :: u32) \<longleftrightarrow> a = b"
  by (rule add_of_nat_inj) simp_all

lemma st16_at:
  "st16 m p v = m(p := ucast v, p + 1 := ucast (drop_bit 8 v))"
  by (fact st16_def)

lemma cell_buffer_put:
  assumes "i < 2000" "j < 2000"
  shows "cell (buffer_put (of_nat j) v m) i = (if i = j then v else cell m i)"
proof (cases "i = j")
  case True
  then show ?thesis by (simp add: cell_def buffer_put_def)
next
  case False
  have *: "buffer_put (of_nat j) v m (vga_base + of_nat a) = m (vga_base + of_nat a)"
    if "a < 4000" "a \<noteq> 2 * j" "a \<noteq> 2 * j + 1" for a
    using that assms cell_addr_inj [of a "2 * j"] cell_addr_inj [of a "2 * j + 1"]
    by (simp add: buffer_put_def st16_at add.assoc)
  have "2 * i \<noteq> 2 * j + 1" by presburger
  then have "cell (buffer_put (of_nat j) v m) i = cell m i"
    using assms False by (intro cell_cong *) auto
  with False show ?thesis by simp
qed

lemma buffer_put_frame:
  assumes "j < 2000" "q \<notin> vga_window"
  shows "buffer_put (of_nat j) v m q = m q"
proof -
  have "vga_base + of_nat (2 * j) \<in> vga_window" "vga_base + of_nat (2 * j + 1) \<in> vga_window"
    using assms(1) by (intro in_spanI; simp)+
  with assms(2) show ?thesis
    by (auto simp: buffer_put_def st16_at add.assoc)
qed

lemma screen_buffer_put:
  "j < 2000 \<Longrightarrow> screen (buffer_put (of_nat j) v m) = (screen m)[j := v]"
  by (rule nth_equalityI) (simp_all add: cell_buffer_put nth_list_update)

lemma screen_cong: "(\<And>i. i < 2000 \<Longrightarrow> cell m i = cell m' i) \<Longrightarrow> screen m = screen m'"
  by (rule nth_equalityI) simp_all

lemma screen_frame:
  assumes "\<And>q. q \<in> vga_window \<Longrightarrow> m q = m' q" shows "screen m = screen m'"
proof (rule screen_cong)
  fix i :: nat assume "i < 2000"
  then show "cell m i = cell m' i"
    by (intro cell_cong assms in_spanI) simp_all
qed

subsection \<open>Filling rows\<close>

lemma of_nat_less_u32: "i < 2 ^ 32 \<Longrightarrow> n < 2 ^ 32 \<Longrightarrow> (of_nat i :: u32) < of_nat n \<longleftrightarrow> i < n"
  by (simp add: word_less_nat_alt unat_of_nat_u32)

lemma fill_row_step:
  "x < 80 \<Longrightarrow> fill_row v base (of_nat x) m
     = fill_row v base (of_nat (Suc x)) (buffer_put (base + of_nat x) v m)"
  using of_nat_less_u32 [of x 80] by (simp add: fill_row.simps [of v base "of_nat x"] add.commute)

lemma fill_row_done: "fill_row v base (of_nat 80) m = m"
  by (simp add: fill_row.simps [of v base])

lemma fill_row_cells:
  assumes "b + 80 \<le> 2000" "x \<le> 80" "i < 2000"
  shows "cell (fill_row v (of_nat b) (of_nat x) m) i
     = (if b + x \<le> i \<and> i < b + 80 then v else cell m i)"
  using assms(2)
proof (induction x arbitrary: m rule: inc_induct)
  case base
  show ?case by (simp only: fill_row_done) auto
next
  case (step x)
  have "cell (buffer_put (of_nat (b + x)) v m) i = (if i = b + x then v else cell m i)"
    using assms step.hyps by (intro cell_buffer_put) simp_all
  with step show ?case by (auto simp: fill_row_step simp del: of_nat_Suc)
qed

lemma fill_row_frame:
  assumes "b + 80 \<le> 2000" "x \<le> 80" "q \<notin> vga_window"
  shows "fill_row v (of_nat b) (of_nat x) m q = m q"
  using assms(2)
proof (induction x arbitrary: m rule: inc_induct)
  case base
  show ?case by (simp only: fill_row_done)
next
  case (step x)
  have "buffer_put (of_nat (b + x)) v m q = m q"
    using assms step.hyps by (intro buffer_put_frame) simp_all
  with step show ?case by (simp add: fill_row_step del: of_nat_Suc)
qed

lemma fill_rows_step:
  "y < 25 \<Longrightarrow> fill_rows v (of_nat y) m
     = fill_rows v (of_nat (Suc y)) (fill_row v (of_nat (80 * y)) (of_nat 0) m)"
  using of_nat_less_u32 [of y 25]
  by (simp add: fill_rows.simps [of v "of_nat y"] add.commute mult.commute)

lemma fill_rows_done: "fill_rows v (of_nat 25) m = m"
  by (simp add: fill_rows.simps [of v])

lemma fill_rows_cells:
  assumes "y \<le> 25" "i < 2000"
  shows "cell (fill_rows v (of_nat y) m) i = (if 80 * y \<le> i then v else cell m i)"
  using assms(1)
proof (induction y arbitrary: m rule: inc_induct)
  case base
  show ?case using assms(2) by (simp only: fill_rows_done) simp
next
  case (step y)
  have "cell (fill_row v (of_nat (80 * y)) (of_nat 0) m) i
      = (if 80 * y + 0 \<le> i \<and> i < 80 * y + 80 then v else cell m i)"
    using assms(2) step.hyps by (intro fill_row_cells) simp_all
  with step show ?case by (auto simp: fill_rows_step simp del: of_nat_Suc of_nat_mult of_nat_0)
qed

lemma fill_rows_frame:
  assumes "y \<le> 25" "q \<notin> vga_window"
  shows "fill_rows v (of_nat y) m q = m q"
  using assms(1)
proof (induction y arbitrary: m rule: inc_induct)
  case base
  show ?case by (simp only: fill_rows_done)
next
  case (step y)
  have "fill_row v (of_nat (80 * y)) (of_nat 0) m q = m q"
    using assms(2) step.hyps by (intro fill_row_frame) simp_all
  with step show ?case by (simp add: fill_rows_step del: of_nat_Suc of_nat_mult of_nat_0)
qed

subsection \<open>Scrolling\<close>

lemma wr_shifted:
  "a < n \<Longrightarrow> n \<le> 2 ^ 32 \<Longrightarrow> wr m p (rd m (p + of_nat k) n) (p + of_nat a) = m (p + of_nat (a + k))"
  by (simp add: wr_nth ac_simps)

abbreviation scrolled :: "mem \<Rightarrow> mem" where
  "scrolled m \<equiv> wr m vga_base (rd m (vga_base + of_nat 160) 3840)"

lemma scrl_move_eq:
  "snd (memmove vga_base (vga_base + 2 * COLS) (COLS * (LINES - 1) * 2) m) = scrolled m"
  using memmove_below [of vga_base "vga_base + 160" 3840 m] by simp

lemma cell_shift_up: "i < 1920 \<Longrightarrow> cell (scrolled m) i = cell m (i + 80)"
  using wr_shifted [of "2 * i" 3840 m vga_base 160] wr_shifted [of "2 * i + 1" 3840 m vga_base 160]
  by (intro cell_cong) (simp_all add: ac_simps)

lemma scrl_loop_1: "scrl_loop (Suc 0) v m = fill_row v (of_nat 1920) (of_nat 0) (scrolled m)"
  unfolding scrl_loop.simps scrl_move_eq by simp

lemma scrl_cells:
  assumes "i < 2000"
  shows "cell (scrl_loop (Suc 0) v m) i = (if i < 1920 then cell m (i + 80) else v)"
proof -
  have "cell (scrl_loop (Suc 0) v m) i
      = (if 1920 + 0 \<le> i \<and> i < 1920 + 80 then v else cell (scrolled m) i)"
    unfolding scrl_loop_1 using assms by (intro fill_row_cells) simp_all
  with assms show ?thesis by (simp add: cell_shift_up del: scrl_loop.simps of_nat_numeral)
qed

lemma scrl_frame:
  assumes "q \<notin> vga_window"
  shows "scrl_loop (Suc 0) v m q = m q"
proof -
  have "scrl_loop (Suc 0) v m q = scrolled m q"
    unfolding scrl_loop_1 using assms by (intro fill_row_frame) simp_all
  also have "\<dots> = m q"
    using assms span_mono [of 3840 4000 vga_base] by (intro wr_other) auto
  finally show ?thesis .
qed

lemma screen_scrl:
  "screen (scrl_loop (Suc 0) v m) = drop 80 (screen m) @ replicate 80 v"
  by (rule nth_equalityI) (auto simp: scrl_cells nth_append add.commute simp del: scrl_loop.simps)

subsection \<open>Refinement of addch\<close>

lemma term_okD:
  assumes "term_ok s" shows "unat (term_row s) < 25" "unat (term_col s) < 80"
  using assms by (simp_all add: term_ok_def word_less_nat_alt)

lemma cursor_index:
  "(r :: u32) * COLS + c = of_nat (80 * unat r + unat c)"
  by (simp add: mult.commute)

lemma cell_index_bound:
  "term_ok s \<Longrightarrow> 80 * unat (term_row s) + unat (term_col s) < 2000"
  using term_okD [of s] by linarith

lemma screen_put_at:
  "80 * unat r + unat c < 2000 \<Longrightarrow>
   screen (buffer_put (r * COLS + c) v m) = (screen m)[80 * unat r + unat c := v]"
  unfolding cursor_index by (rule screen_buffer_put)

lemma put_at_frame:
  "80 * unat r + unat c < 2000 \<Longrightarrow> q \<notin> vga_window \<Longrightarrow>
   buffer_put (r * COLS + c) v m q = m q"
  unfolding cursor_index by (rule buffer_put_frame)

text \<open>What \<open>addch_char\<close> leaves: cursor bounds that the settling step brings back.\<close>

definition cursor_loose :: "machine \<Rightarrow> bool" where
  "cursor_loose s \<longleftrightarrow> unat (term_row s) \<le> 25 \<and> unat (term_col s) \<le> 83"

lemma unat_add_small: "unat (x :: u32) < 1000 \<Longrightarrow> n < 1000 \<Longrightarrow> unat (x + of_nat n) = unat x + n"
  by (simp add: unat_add_no_wrap unat_of_nat_u32)

lemma smod_nat_4: "int n smod 4 = int (n mod 4)"
  by (auto simp: signed_modulo_int_def zmod_int sgn_if)

lemma tab_stop:
  assumes "unat (x :: u32) < 80"
  shows "unat (x + (4 - word_of_int (sint x smod 4))) = 4 * (unat x div 4) + 4"
proof -
  have "sint x = int (unat x)"
    using assms by (intro sint_u32_small) (simp add: word_less_nat_alt)
  then have "sint x smod 4 = int (unat x mod 4)"
    by (simp only: smod_nat_4)
  then have "(4 - word_of_int (sint x smod 4) :: u32) = of_nat (4 - unat x mod 4)"
    by (simp add: of_nat_diff)
  then have "unat (x + (4 - word_of_int (sint x smod 4))) = unat x + (4 - unat x mod 4)"
    using assms unat_add_small [of x "4 - unat x mod 4"] by (simp only:)
  also have "\<dots> = 4 * (unat x div 4) + 4"
    by presburger
  finally show ?thesis .
qed

lemma unat_dec: "x \<noteq> (0 :: u32) \<Longrightarrow> unat (x - 1) = unat x - 1"
  by (rule unat_minus_one)

lemma unat_inc: "unat (x :: u32) < 1000 \<Longrightarrow> unat (x + 1) = Suc (unat x)"
  using unat_add_small [of x 1] by simp

lemma addch_char_view:
  assumes "term_ok s" "c = 8 \<longrightarrow> term_col s \<noteq> 0"
  shows "view (addch_char c s) = tty_char c (view s)" "cursor_loose (addch_char c s)"
    "q \<notin> vga_window \<Longrightarrow> ram (addch_char c s) q = ram s q"
proof -
  note ok = term_okD [OF assms(1)] cell_index_bound [OF assms(1)]
  show "view (addch_char c s) = tty_char c (view s)" "cursor_loose (addch_char c s)"
    using ok assms(2)
    by (auto simp: addch_char_def tty_char_def view_def cursor_loose_def Let_def
        screen_put_at unat_inc unat_dec tab_stop)
  show "q \<notin> vga_window \<Longrightarrow> ram (addch_char c s) q = ram s q"
    using ok by (simp add: addch_char_def Let_def put_at_frame)
qed

lemma sle_small: "unat (x :: u32) \<le> 1000 \<Longrightarrow> n \<le> 1000 \<Longrightarrow> of_nat n <=s x \<longleftrightarrow> n \<le> unat x"
proof -
  assume *: "unat x \<le> 1000" "n \<le> 1000"
  have "sint x = int (unat x)"
    using * by (intro sint_u32_small) (simp add: word_less_nat_alt)
  moreover have "sint (of_nat n :: u32) = int n"
    using * by (subst sint_u32_small) (simp_all add: word_less_nat_alt unat_of_nat_u32)
  ultimately show ?thesis by (simp only: word_sle_eq of_nat_le_iff)
qed

lemma cursor_tests:
  assumes "cursor_loose s"
  shows "COLS <=s term_col s \<longleftrightarrow> 80 \<le> unat (term_col s)"
    "LINES <=s term_row s \<longleftrightarrow> 25 \<le> unat (term_row s)"
    "LINES <=s term_row s + 1 \<longleftrightarrow> 25 \<le> Suc (unat (term_row s))"
proof -
  have b: "unat (term_row s) \<le> 25" "unat (term_col s) \<le> 83"
    using assms by (simp_all add: cursor_loose_def)
  then show "COLS <=s term_col s \<longleftrightarrow> 80 \<le> unat (term_col s)"
    "LINES <=s term_row s \<longleftrightarrow> 25 \<le> unat (term_row s)"
    using sle_small [of "term_col s" 80] sle_small [of "term_row s" 25] by simp_all
  show "LINES <=s term_row s + 1 \<longleftrightarrow> 25 \<le> Suc (unat (term_row s))"
    using b sle_small [of "term_row s + 1" 25] by (simp add: unat_inc)
qed

lemma scrl_1: "scrl 1 s = s\<lparr>ram := scrl_loop (Suc 0) (blank (term_color s)) (ram s)\<rparr>"
  by (simp add: scrl_def del: scrl_loop.simps)

lemma addch_settle_view:
  assumes "cursor_loose s"
  shows "view (addch_settle s) = tty_settle (view s)" "term_ok (addch_settle s)"
    "q \<notin> vga_window \<Longrightarrow> ram (addch_settle s) q = ram s q"
proof -
  have b: "unat (term_row s) \<le> 25" "unat (term_col s) \<le> 83"
    using assms by (simp_all add: cursor_loose_def)
  show "view (addch_settle s) = tty_settle (view s)"
    using b by (simp add: addch_settle_def tty_settle_def tty_scroll_def view_def Let_def scrl_1
        cursor_tests [OF assms] screen_scrl unat_inc del: scrl_loop.simps)
  show "term_ok (addch_settle s)"
    using b by (simp add: addch_settle_def term_ok_def Let_def scrl_1 cursor_tests [OF assms]
        unat_inc word_less_nat_alt del: scrl_loop.simps)
  show "q \<notin> vga_window \<Longrightarrow> ram (addch_settle s) q = ram s q"
    by (simp add: addch_settle_def Let_def scrl_1 scrl_frame del: scrl_loop.simps)
qed

lemma addch_view:
  assumes "term_ok s" "c = 8 \<longrightarrow> term_col s \<noteq> 0"
  shows "view (addch c s) = tty_put c (view s)" "term_ok (addch c s)"
    "q \<notin> vga_window \<Longrightarrow> ram (addch c s) q = ram s q"
  using addch_char_view [OF assms] addch_settle_view [of "addch_char c s"]
  by (simp_all add: addch_def tty_put_def)

text \<open>Everything but memory, cursor and log is untouched by output.\<close>

lemma addch_rest [simp]:
  "term_color (addch c s) = term_color s" "term_lies (addch c s) = term_lies s"
  "last_saved_ch (addch c s) = last_saved_ch s" "kb_shift (addch c s) = kb_shift s"
  "is_press (addch c s) = is_press s" "heap_master (addch c s) = heap_master s"
  "io_in (addch c s) = io_in s" "tok_g (addch c s) = tok_g s"
  by (simp_all add: addch_def addch_settle_def addch_char_def scrl_def Let_def)

text \<open>What the serial port gets to see of a character: line ends as both characters, and the
  other control characters not at all.\<close>

definition serial_echo :: "u32 \<Rightarrow> io_event list" where
  "serial_echo c = (if c \<in> {10, 13} then [Outb 0x3F8 10, Outb 0x3F8 13]
     else if c \<in> {8, 9, 11} then [] else [Outb 0x3F8 (ucast c)])"

lemma addch_log: "io_log (addch c s) = io_log s @ serial_echo c"
  by (simp add: addch_def addch_settle_def addch_char_def serial_echo_def scrl_def Let_def)

subsection \<open>Writing text\<close>

abbreviation char_put :: "u8 \<Rightarrow> tty \<Rightarrow> tty" where
  "char_put c \<equiv> tty_put (char_to_int c)"

lemma char_to_int_backspace [simp]: "char_to_int c = 8 \<longleftrightarrow> c = 8"
proof -
  have "char_to_int 8 = 8" by (simp add: char_to_int_def)
  then show ?thesis by (metis char_to_int_inj)
qed

text \<open>
  A run of characters: the text must not contain a backspace, and the memory it is read
  from must not be part of the window it is written to.
\<close>

lemma addnstr_loop_step:
  "i < n \<Longrightarrow> n < 2 ^ 32 \<Longrightarrow> addnstr_loop p (of_nat n) (of_nat i) s
     = addnstr_loop p (of_nat n) (of_nat (Suc i)) (addch (char_to_int (ram s (p + of_nat i))) s)"
  by (simp add: addnstr_loop.simps [of p "of_nat n" "of_nat i"] of_nat_less_u32 add.commute)

lemma addnstr_loop_view:
  assumes "i \<le> n" "n < 2 ^ 32" "term_ok s" "rd (ram s) p n = bs" "8 \<notin> set bs"
    and "span p n \<inter> vga_window = {}"
  shows "view (addnstr_loop p (of_nat n) (of_nat i) s) = fold char_put (drop i bs) (view s)
    \<and> term_ok (addnstr_loop p (of_nat n) (of_nat i) s)
    \<and> (\<forall>q. q \<notin> vga_window \<longrightarrow> ram (addnstr_loop p (of_nat n) (of_nat i) s) q = ram s q)"
  using assms(1,3,4)
proof (induction i arbitrary: s rule: inc_induct)
  case base
  then show ?case by (auto simp: addnstr_loop.simps [of p "of_nat n"])
next
  case (step i)
  let ?c = "ram s (p + of_nat i)" and ?s = "addch (char_to_int (ram s (p + of_nat i))) s"
  have c: "bs ! i = ?c" "i < length bs" using step by auto
  then have "?c \<noteq> 8" using assms(5) by (metis nth_mem)
  then have nb: "char_to_int ?c = 8 \<longrightarrow> term_col s \<noteq> 0" by simp
  note a = addch_view [OF step.prems(1) nb]
  have "rd (ram ?s) p n = bs"
    using step.prems(2) assms(6) a(3) by (subst step.prems(2) [symmetric], intro rd_cong) auto
  from step.IH [OF a(2) this] c a show ?case
    using step.hyps assms(2) by (simp add: addnstr_loop_step Cons_nth_drop_Suc [symmetric] del: of_nat_Suc)
qed

lemma addnstr_view:
  assumes "term_ok s" "rd (ram s) p (unat n) = bs" "8 \<notin> set bs"
    and "span p (unat n) \<inter> vga_window = {}"
  shows "view (addnstr p n s) = fold char_put bs (view s)" "term_ok (addnstr p n s)"
    "q \<notin> vga_window \<Longrightarrow> ram (addnstr p n s) q = ram s q"
  using addnstr_loop_view [of 0 "unat n" s p bs] assms by (simp_all add: addnstr_def)

lemma terminal_writestring_view:
  assumes "term_ok s" "cstr (ram s) p bs" "8 \<notin> set bs" "length bs < 2 ^ 32"
    and "span p (length bs) \<inter> vga_window = {}"
  shows "\<exists>s'. terminal_writestring p s = Some s' \<and> view s' = fold char_put bs (view s)
    \<and> term_ok s' \<and> (\<forall>q. q \<notin> vga_window \<longrightarrow> ram s' q = ram s q)"
  using assms addnstr_view [of s p "of_nat (length bs)" bs]
  by (simp add: terminal_writestring_def strlen_cstr cstr_iff unat_of_nat_u32)

subsection \<open>Clearing\<close>

lemma screen_fill_rows:
  "y \<le> 25 \<Longrightarrow> screen (fill_rows v (of_nat y) m) = take (80 * y) (screen m) @ replicate (2000 - 80 * y) v"
  by (rule nth_equalityI) (auto simp: fill_rows_cells nth_append)

lemma screen_fill_row:
  "b + 80 \<le> 2000 \<Longrightarrow> x \<le> 80 \<Longrightarrow> screen (fill_row v (of_nat b) (of_nat x) m)
     = take (b + x) (screen m) @ replicate (80 - x) v @ drop (b + 80) (screen m)"
  by (rule nth_equalityI) (auto simp: fill_row_cells nth_append)

lemma clear_view:
  "view (clear s) = (view s)\<lparr>cells := replicate 2000 (blank (term_color s))\<rparr>"
  using screen_fill_rows [of 0] by (simp add: clear_def view_def Let_def)

lemma clear_frame: "q \<notin> vga_window \<Longrightarrow> ram (clear s) q = ram s q"
  using fill_rows_frame [of 0] by (simp add: clear_def Let_def)

lemma clrtoeol_view:
  assumes "term_ok s"
  shows "view (clrtoeol s) = (view s)\<lparr>cells :=
    (let b = 80 * crow (view s); x = ccol (view s); S = cells (view s)
     in take (b + x) S @ replicate (80 - x) (blank (term_color s)) @ drop (b + 80) S)\<rparr>"
  using term_okD [OF assms] screen_fill_row [of "80 * unat (term_row s)" "unat (term_col s)"]
  by (simp add: clrtoeol_def view_def Let_def mult.commute)

lemma clrtobot_view:
  assumes "term_ok s"
  shows "view (clrtobot s) = (view s)\<lparr>cells :=
    (let i = 80 * crow (view s) + ccol (view s)
     in take i (cells (view s)) @ replicate (2000 - i) (blank (term_color s)))\<rparr>"
proof -
  let ?r = "unat (term_row s)" and ?c = "unat (term_col s)" and ?v = "blank (term_color s)"
  have b: "?r < 25" "?c < 80" using term_okD [OF assms] .
  have "screen (fill_rows ?v (of_nat (Suc ?r)) (fill_row ?v (of_nat (80 * ?r)) (of_nat ?c) (ram s)))
      = take (80 * ?r + ?c) (screen (ram s)) @ replicate (2000 - (80 * ?r + ?c)) ?v"
    using b by (intro nth_equalityI) (auto simp: fill_rows_cells fill_row_cells nth_append
        simp del: of_nat_Suc of_nat_mult of_nat_unat)
  then show ?thesis
    by (simp add: clrtobot_def clrtoeol_def view_def Let_def mult.commute add.commute)
qed

lemma clrtoeol_frame: "term_ok s \<Longrightarrow> q \<notin> vga_window \<Longrightarrow> ram (clrtoeol s) q = ram s q"
  using term_okD [of s] fill_row_frame [of "80 * unat (term_row s)" "unat (term_col s)" q]
  by (simp add: clrtoeol_def mult.commute)

lemma clrtobot_frame: "term_ok s \<Longrightarrow> q \<notin> vga_window \<Longrightarrow> ram (clrtobot s) q = ram s q"
  using clrtoeol_frame [of s q] term_okD [of s] fill_rows_frame [of "Suc (unat (term_row s))" q]
  by (simp add: clrtobot_def add.commute clrtoeol_def)

subsection \<open>A session of console operations\<close>

text \<open>The operations that move the cursor or draw, in any order.\<close>

datatype console_op =
    Op_put u32 | Op_move u32 u32 | Op_clear | Op_clrtoeol | Op_clrtobot | Op_attrset u32 | Op_setcolor u8

fun console_do :: "console_op \<Rightarrow> machine \<Rightarrow> machine" where
  "console_do (Op_put c) s = addch c s"
| "console_do (Op_move y x) s = snd (move y x s)"
| "console_do Op_clear s = clear s"
| "console_do Op_clrtoeol s = clrtoeol s"
| "console_do Op_clrtobot s = clrtobot s"
| "console_do (Op_attrset a) s = snd (attrset a s)"
| "console_do (Op_setcolor col) s = terminal_setcolor col s"

fun console_run :: "console_op list \<Rightarrow> machine \<Rightarrow> machine" where
  "console_run [] s = s"
| "console_run (p # ps) s = console_run ps (console_do p s)"

text \<open>A backspace in the first column is where the cursor leaves the screen.\<close>

fun backs_off :: "console_op \<Rightarrow> machine \<Rightarrow> bool" where
  "backs_off (Op_put c) s \<longleftrightarrow> c = 8 \<and> term_col s = 0"
| "backs_off p s \<longleftrightarrow> False"

fun stays_inside :: "console_op list \<Rightarrow> machine \<Rightarrow> bool" where
  "stays_inside [] s \<longleftrightarrow> True"
| "stays_inside (p # ps) s \<longleftrightarrow> \<not> backs_off p s \<and> stays_inside ps (console_do p s)"

lemma sbounds:
  assumes "\<not> of_nat n <=s v" "\<not> v <s 0" "n \<le> 1000"
  shows "(v :: u32) < of_nat n"
proof -
  have n: "sint (of_nat n :: u32) = int n"
    using assms(3) by (subst sint_u32_small) (simp_all add: word_less_nat_alt unat_of_nat_u32)
  have v: "0 \<le> sint v" "sint v < int n"
    using assms(1,2) n by (simp_all add: word_sle_eq word_sless_alt)
  with assms(3) have "take_bit LENGTH(32) (sint v) = sint v"
    by (intro take_bit_int_eq_self) simp_all
  with uint_sint [of v] have "uint v = sint v" by (rule trans)
  with v have "uint v < int n" by linarith
  then have "int (unat v) < int n" by simp
  then have "unat v < n" by (simp only: of_nat_less_iff)
  then show ?thesis using assms(3) by (simp add: word_less_nat_alt unat_of_nat_u32)
qed

lemmas sbounds_80 = sbounds [of 80, simplified] and sbounds_25 = sbounds [of 25, simplified]

lemma move_ok: "term_ok s \<Longrightarrow> term_ok (snd (move y x s))"
proof -
  have "v < 80" if "\<not> 80 <=s v" "\<not> v <s 0" for v :: u32
    using that by (rule sbounds_80)
  moreover have "v < 25" if "\<not> 25 <=s v" "\<not> v <s 0" for v :: u32
    using that by (rule sbounds_25)
  ultimately show "term_ok s \<Longrightarrow> term_ok (snd (move y x s))"
    by (simp add: move_def term_ok_def)
qed

lemma backspace_off:
  assumes "term_ok s" "term_col s = 0"
  shows "term_col (addch 8 s) = - 1" "term_row (addch 8 s) = term_row s" "\<not> term_ok (addch 8 s)"
proof -
  have "unat (term_row s) < 25" using term_okD [OF assms(1)] by simp
  then have r: "\<not> (25 :: u32) <=s term_row s" using sle_small [of "term_row s" 25] by simp
  have c: "\<not> (80 :: u32) <=s - 1" by (simp add: word_sle_eq)
  from r c assms(2) show "term_col (addch 8 s) = - 1" "term_row (addch 8 s) = term_row s" "\<not> term_ok (addch 8 s)"
    by (simp_all add: addch_def addch_char_def addch_settle_def term_ok_def Let_def)
qed

lemma console_do_ok:
  assumes "term_ok s" "\<not> backs_off p s"
  shows "term_ok (console_do p s)" "same_outside vga_window (ram s) (ram (console_do p s))"
  using assms addch_view [of s] clear_frame [of _ s] clrtoeol_frame [of s] clrtobot_frame [of s] move_ok [of s]
  by (cases p; auto simp: move_def attrset_def terminal_setcolor_def clear_def clrtoeol_def clrtobot_def
      term_ok_def same_outside_def Let_def)+

lemma console_do_off:
  assumes "term_ok s" "backs_off p s" shows "\<not> term_ok (console_do p s)"
  using assms backspace_off(3) [of s] by (cases p) auto

lemma console_run_ok:
  "term_ok s \<Longrightarrow> stays_inside ps s \<Longrightarrow> term_ok (console_run ps s) \<and> same_outside vga_window (ram s) (ram (console_run ps s))"
proof (induction ps arbitrary: s)
  case (Cons p ps)
  from Cons.prems have p: "term_ok (console_do p s)" "same_outside vga_window (ram s) (ram (console_do p s))"
    using console_do_ok [of s p] by simp_all
  from Cons.IH [OF p(1)] Cons.prems(2) p(2) show ?case by (auto intro: same_outside_trans)
qed simp

lemma stays_inside_take: "stays_inside ps s \<Longrightarrow> stays_inside (take n ps) s"
  by (induction ps arbitrary: s n) (auto simp: take_Cons' )

lemma console_run_inside:
  "term_ok s \<Longrightarrow> \<forall>n. term_ok (console_run (take n ps) s) \<Longrightarrow> stays_inside ps s"
proof (induction ps arbitrary: s)
  case (Cons p ps)
  have step: "term_ok (console_run (take n ps) (console_do p s))" for n
    using Cons.prems(2) [rule_format, of "Suc n"] by simp
  then have "term_ok (console_do p s)" using step [of 0] by simp
  with Cons.IH [of "console_do p s"] step console_do_off [OF Cons.prems(1)] show ?case by auto
qed simp

lemma initial_machine_simps [simp]:
  "ram (initial_machine m i) = m" "term_row (initial_machine m i) = 0"
  "term_col (initial_machine m i) = 0" "term_color (initial_machine m i) = 0"
  "io_in (initial_machine m i) = i" "is_press (initial_machine m i) = (\<lambda>_. False)"
  "last_saved_ch (initial_machine m i) = 0" "kb_shift (initial_machine m i) = False"
  "io_log (initial_machine m i) = []"
  by (simp_all add: initial_machine_def)

lemma initial_machine_ok [simp]: "term_ok (initial_machine m i)"
  by (simp add: term_ok_def)

subsection \<open>Properties\<close>

text \<open>C2: On a cursor that is on the screen, and for every character but a backspace in the first
  column, \<open>addch\<close> acts on the 2000 cells, the cursor and the attribute as the abstract terminal does
  (newline, carriage return, tab, vertical tab, backspace behind the first column, wrap at column 80,
  scroll at row 25); it keeps the cursor on the screen and changes no memory outside the VGA window.
  The excepted case is the lemma \<open>backspace_leaves_screen\<close>.\<close>

theorem addch_refines_terminal:
  assumes "term_ok s" "c = 8 \<longrightarrow> term_col s \<noteq> 0"
  shows "view (addch c s) = tty_put c (view s) \<and> term_ok (addch c s)
    \<and> same_outside vga_window (ram s) (ram (addch c s))"
  using addch_view [OF assms] unfolding same_outside_def by blast

theorem addch_refines_terminal_witness:
  "view (addch 65 (initial_machine (\<lambda>_. 0) [])) = tty_put 65 (view (initial_machine (\<lambda>_. 0) []))
    \<and> term_ok (addch 65 (initial_machine (\<lambda>_. 0) []))
    \<and> same_outside vga_window (\<lambda>_. 0) (ram (addch 65 (initial_machine (\<lambda>_. 0) [])))"
  using addch_refines_terminal [of "initial_machine (\<lambda>_. 0) []" 65] by simp

text \<open>C9: From a cursor on the screen, a sequence of console operations keeps it on the screen after
  every step exactly when the sequence puts no backspace while the cursor is in the first column; such a
  sequence changes no memory outside the VGA window.\<close>

theorem console_session_safe:
  assumes "term_ok s"
  shows "((\<forall>n. term_ok (console_run (take n ops) s)) \<longleftrightarrow> stays_inside ops s)
    \<and> (stays_inside ops s \<longrightarrow> same_outside vga_window (ram s) (ram (console_run ops s)))"
  using console_run_inside [OF assms] console_run_ok [OF assms] stays_inside_take by blast

theorem console_session_safe_witness:
  "(\<forall>n. term_ok (console_run (take n [Op_put 65, Op_put 8, Op_clear]) (initial_machine (\<lambda>_. 0) [])))
    \<and> same_outside vga_window (\<lambda>_. 0) (ram (console_run [Op_put 65, Op_put 8, Op_clear] (initial_machine (\<lambda>_. 0) [])))"
proof -
  let ?s = "initial_machine (\<lambda>_. 0) []" and ?ops = "[Op_put 65, Op_put 8, Op_clear]"
  have "term_col (addch 65 ?s) = 1"
    by (simp add: addch_def addch_char_def addch_settle_def word_sle_eq Let_def)
  then have "stays_inside ?ops ?s" by simp
  with console_session_safe [of ?s ?ops] show ?thesis by (simp only: initial_machine_ok initial_machine_simps)
qed

text \<open>\<open>terminal_writestring\<close> returns for every terminated string without a backspace that
  lies outside the VGA window, and has put its characters in order on the terminal.\<close>

theorem terminal_writestring_shows:
  assumes "term_ok s" "cstr (ram s) p bs" "8 \<notin> set bs" "length bs < 2 ^ 32"
    and "span p (length bs) \<inter> vga_window = {}"
  shows "\<exists>s'. terminal_writestring p s = Some s' \<and> view s' = fold char_put bs (view s)
    \<and> term_ok s' \<and> same_outside vga_window (ram s) (ram s')"
  unfolding same_outside_def using assms by (rule terminal_writestring_view)

theorem terminal_writestring_shows_witness:
  "\<exists>s'. terminal_writestring 0 (initial_machine ((\<lambda>_. 0)(0 := 72, 1 := 105)) []) = Some s'
    \<and> view s' = fold char_put [72, 105] (view (initial_machine ((\<lambda>_. 0)(0 := 72, 1 := 105)) []))
    \<and> term_ok s' \<and> same_outside vga_window (ram (initial_machine ((\<lambda>_. 0)(0 := 72, 1 := 105)) [])) (ram s')"
  by (rule terminal_writestring_shows) (auto simp: in_span_iff span_Suc)

text \<open>\<open>clrtobot\<close> blanks the cells from the cursor to the end of the screen in the current
  attribute, keeps those before it, the cursor, and all memory outside the VGA window.\<close>

theorem clrtobot_blanks:
  assumes "term_ok s"
  shows "view (clrtobot s) = (view s)\<lparr>cells :=
      (let i = 80 * crow (view s) + ccol (view s)
       in take i (cells (view s)) @ replicate (2000 - i) (blank (term_color s)))\<rparr>
    \<and> same_outside vga_window (ram s) (ram (clrtobot s))"
  using clrtobot_view [OF assms] clrtobot_frame [OF assms] unfolding same_outside_def by blast

theorem clrtobot_blanks_witness:
  "view (clrtobot (initial_machine (\<lambda>_. 7) [])) = (view (initial_machine (\<lambda>_. 7) []))\<lparr>cells :=
      (let i = 80 * crow (view (initial_machine (\<lambda>_. 7) [])) + ccol (view (initial_machine (\<lambda>_. 7) []))
       in take i (cells (view (initial_machine (\<lambda>_. 7) []))) @ replicate (2000 - i)
            (blank (term_color (initial_machine (\<lambda>_. 7) []))))\<rparr>
    \<and> same_outside vga_window (ram (initial_machine (\<lambda>_. 7) [])) (ram (clrtobot (initial_machine (\<lambda>_. 7) [])))"
  by (rule clrtobot_blanks) simp

text \<open>\<open>puts\<close> walks backwards from its argument: of a string that is preceded by a zero byte it
  shows the first character and nothing else.\<close>

theorem puts_shows_first_only:
  assumes "term_ok s" "ram s p \<noteq> 0" "ram s p \<noteq> 8" "ram s (p - 1) = 0" "p - 1 \<notin> vga_window"
  shows "puts p s = Some (0, putchar_c (ram s p) s)"
proof -
  have "char_to_int (ram s p) = 8 \<longrightarrow> term_col s \<noteq> 0" using assms(3) by simp
  then have "ram (putchar_c (ram s p) s) (p - 1) = ram s (p - 1)"
    unfolding putchar_c_def by (rule addch_view(3) [OF assms(1) _ assms(5)])
  with assms(2,4) show ?thesis
    by (simp add: puts_def puts_loop.simps [of p s] puts_loop.simps [of "p - 1"] putchar_def)
qed

theorem puts_shows_first_only_witness:
  "puts 1 (initial_machine ((\<lambda>_. 0)(1 := 72, 2 := 105)) [])
     = Some (0, putchar_c 72 (initial_machine ((\<lambda>_. 0)(1 := 72, 2 := 105)) []))"
  using puts_shows_first_only [of "initial_machine ((\<lambda>_. 0)(1 := 72, 2 := 105)) []" 1]
  by (simp add: in_span_iff)

text \<open>A backspace in the first column moves the cursor off the screen, to column \<open>-1\<close>, from
  where the next character is written to the last cell of the row above.\<close>

theorem backspace_leaves_screen:
  assumes "term_ok s" "term_col s = 0"
  shows "term_col (addch 8 s) = - 1 \<and> term_row (addch 8 s) = term_row s \<and> \<not> term_ok (addch 8 s)"
  using backspace_off [OF assms] by blast

theorem backspace_leaves_screen_witness:
  "term_col (addch 8 (initial_machine (\<lambda>_. 0) [])) = - 1
    \<and> term_row (addch 8 (initial_machine (\<lambda>_. 0) [])) = term_row (initial_machine (\<lambda>_. 0) [])
    \<and> \<not> term_ok (addch 8 (initial_machine (\<lambda>_. 0) []))"
  by (rule backspace_leaves_screen) simp_all

end
