(* ===== verification/Digits.thy ===== *)
theory Digits
  imports C_Prelude
begin

text \<open>
  Positional notation, the specification shared by \<open>itoa\<close>, \<open>atoi\<close> and the integer
  conversions of \<open>printf\<close>: the digits of a number, least significant first as the code
  produces them, and the value of a list of digits, most significant first as it is read.
\<close>

fun rdigits :: "nat \<Rightarrow> nat \<Rightarrow> nat list" where
  "rdigits base n = (if base < 2 \<or> n = 0 then [] else n mod base # rdigits base (n div base))"

declare rdigits.simps [simp del]

lemma rdigits_0 [simp]: "rdigits base 0 = []"
  by (simp add: rdigits.simps)

lemma rdigits_pos: "2 \<le> base \<Longrightarrow> 0 < n \<Longrightarrow> rdigits base n = n mod base # rdigits base (n div base)"
  by (simp add: rdigits.simps [of base n])

definition digits :: "nat \<Rightarrow> nat \<Rightarrow> nat list" where
  "digits base n = (if n = 0 then [0] else rev (rdigits base n))"

definition radix_val :: "nat \<Rightarrow> nat list \<Rightarrow> nat" where
  "radix_val base ds = foldl (\<lambda>a d. a * base + d) 0 ds"

lemma radix_val_snoc: "radix_val base (ds @ [d]) = radix_val base ds * base + d"
  by (simp add: radix_val_def)

lemma radix_val_rdigits: "2 \<le> base \<Longrightarrow> radix_val base (rev (rdigits base n)) = n"
proof (induction base n rule: rdigits.induct)
  case (1 base n)
  show ?case
  proof (cases "n = 0")
    case True
    then show ?thesis by (simp add: radix_val_def)
  next
    case False
    with 1 show ?thesis by (simp add: rdigits_pos radix_val_snoc)
  qed
qed

lemma radix_val_digits: "2 \<le> base \<Longrightarrow> radix_val base (digits base n) = n"
  by (simp add: digits_def radix_val_rdigits) (simp add: radix_val_def)

lemma rdigits_less: "d \<in> set (rdigits base n) \<Longrightarrow> d < base"
  by (induction base n rule: rdigits.induct) (subst (asm) rdigits.simps, auto split: if_splits)

lemma digits_less: "0 < base \<Longrightarrow> d \<in> set (digits base n) \<Longrightarrow> d < base"
  by (auto simp: digits_def dest: rdigits_less split: if_splits)

lemma length_rdigits: "n < base ^ k \<Longrightarrow> length (rdigits base n) \<le> k"
proof (induction base n arbitrary: k rule: rdigits.induct)
  case (1 base n)
  show ?case
  proof (cases "base < 2 \<or> n = 0")
    case False
    with 1(2) obtain j where k: "k = Suc j" by (cases k) auto
    with False 1(2) have "n div base < base ^ j" by (simp add: less_mult_imp_div_less mult.commute)
    with 1(1) False have "length (rdigits base (n div base)) \<le> j" by blast
    with False k show ?thesis by (subst rdigits.simps) simp
  qed (subst rdigits.simps, simp)
qed

lemma length_rdigits_le: "2 \<le> base \<Longrightarrow> base ^ k \<le> n \<Longrightarrow> k < length (rdigits base n)"
proof (induction base n arbitrary: k rule: rdigits.induct)
  case (1 base n)
  from 1(2,3) have n: "0 < n" by (cases n) auto
  show ?case
  proof (cases k)
    case 0
    with 1(2) n show ?thesis by (simp add: rdigits_pos)
  next
    case (Suc j)
    with 1(2,3) have "base ^ j \<le> n div base"
      by (simp add: less_eq_div_iff_mult_less_eq mult.commute)
    with 1(1,2) n Suc show ?thesis by (simp add: rdigits_pos)
  qed
qed

lemma rdigits_Nil_iff: "2 \<le> base \<Longrightarrow> rdigits base n = [] \<longleftrightarrow> n = 0"
  by (subst rdigits.simps) simp

lemma digits_nonempty [simp]: "2 \<le> base \<Longrightarrow> digits base n \<noteq> []"
  by (simp add: digits_def rdigits_Nil_iff)

lemma length_digits: "n < base ^ k \<Longrightarrow> 0 < k \<Longrightarrow> length (digits base n) \<le> k"
  by (auto simp: digits_def length_rdigits)

text \<open>A text of digits evaluated with wrap-around is the value modulo the word size.\<close>

lemma foldl_radix_word:
  "foldl (\<lambda>a d. a * of_nat base + of_nat d) (of_nat a :: 'a :: len word) ds
     = of_nat (foldl (\<lambda>a d. a * base + d) a ds)"
proof (induction ds arbitrary: a)
  case (Cons d ds)
  from Cons.IH [of "a * base + d"] show ?case by simp
qed simp

end
