(* ===== verification/Numbers.thy ===== *)
theory Numbers
  imports Machine Digits
begin

text \<open>
  Numbers and text in \<open>libc/lib.c\<close>: \<open>itoa\<close>, \<open>sitoa\<close>, \<open>internal_atoi\<close> and \<open>atoi\<close>.  The local
  array of \<open>itoa\<close> has 32 bytes; storing past it, dividing by a zero base and looping for
  ever (base one) are \<open>None\<close>.
\<close>

subsection \<open>The functions\<close>

definition itoa_char :: "u32 \<Rightarrow> u8" where
  "itoa_char rem = ucast (if 9 < rem then rem - 10 + 65 else rem + 48)"

partial_function (option) itoa_loop ::
    "u32 \<Rightarrow> u64 \<Rightarrow> u64 \<Rightarrow> u32 \<Rightarrow> mem \<Rightarrow> (u32 \<times> mem) option" where
  "itoa_loop str val base i m =
     (if val = 0 then Some (i, m)
      else if base = 0 then None
      else itoa_loop str (val div base) base (i + 1)
             (m(str + i := itoa_char (ucast (val mod base)))))"

text \<open>\<open>for (i = 0; i < k; i++) { buffer[i] = str[j - 1]; j--; }\<close>\<close>

fun itoa_reverse :: "nat \<Rightarrow> u32 \<Rightarrow> mem \<Rightarrow> u8 list \<Rightarrow> u8 list" where
  "itoa_reverse 0 str m buffer = buffer"
| "itoa_reverse (Suc j) str m buffer = itoa_reverse j str m (buffer @ [m (str + of_nat j)])"

definition itoa :: "u32 \<Rightarrow> u64 \<Rightarrow> u8 \<Rightarrow> mem \<Rightarrow> (u32 \<times> mem) option" where
  "itoa str val base m =
     (if val = 0 then Some (str, m(str := chr CHR ''0'', str + 1 := 0))
      else do {
        (k, m1) \<leftarrow> itoa_loop str val (ucast base) 0 m;
        if 32 < k then None
        else let buffer = itoa_reverse (unat k) str m1 []
             in Some (str, (wr m1 str buffer)(str + k := 0)) })"

definition sitoa :: "u32 \<Rightarrow> u64 \<Rightarrow> u8 \<Rightarrow> mem \<Rightarrow> (u32 \<times> mem) option" where
  "sitoa str val base m = do {
     let (str1, m1) = (if val <s 0 then (str + 1, m(str := chr CHR ''-'')) else (str, m));
     (_, m2) \<leftarrow> itoa str1 (signed_drop_bit 1 (push_bit 1 val)) base m1;
     Some (str1, m2) }"

text \<open>The guard of either loop of \<open>internal_atoi\<close>, and the value it adds.\<close>

definition atoi_accepts :: "u8 \<Rightarrow> u8 \<Rightarrow> bool" where
  "atoi_accepts base c \<longleftrightarrow>
     (let x = char_to_int c
      in 48 <=s x \<and> x <=s 57
         \<or> 10 < base \<and> 65 <=s x \<and> x <=s 65 + (ucast base - 10))"

definition atoi_digit :: "u8 \<Rightarrow> u8 \<Rightarrow> u32" where
  "atoi_digit base c =
     (let x = char_to_int c in if 10 < base \<and> 65 <=s x then x - 65 + 10 else x - 48)"

partial_function (option) atoi_loop ::
    "u32 \<Rightarrow> u8 \<Rightarrow> u32 \<Rightarrow> u32 \<Rightarrow> u32 \<Rightarrow> mem \<Rightarrow> u32 option" where
  "atoi_loop str base limit i num m =
     (if atoi_accepts base (m (str + i))
      then let num' = num * ucast base + atoi_digit base (m (str + i))
           in if limit \<noteq> 0 \<and> limit \<le> i + 1 then Some num'
              else atoi_loop str base limit (i + 1) num' m
      else Some num)"

definition internal_atoi :: "u32 \<Rightarrow> u8 \<Rightarrow> u32 \<Rightarrow> mem \<Rightarrow> u32 option" where
  "internal_atoi str base limit m = atoi_loop str base limit 0 0 m"

definition atoi :: "u32 \<Rightarrow> mem \<Rightarrow> u32 option" where
  "atoi str m = internal_atoi str 10 0 m"

subsection \<open>Digits as characters\<close>

definition digit_byte :: "nat \<Rightarrow> u8" where
  "digit_byte d = (if 9 < d then of_nat (d - 10) + 65 else of_nat d + 48)"

lemma all_less_36: "(\<forall>d<36. P d) \<longleftrightarrow> (\<forall>d\<in>set [0..<36]. P (d :: nat))"
  by auto

lemma digit_byte_nonzero: "d < 36 \<Longrightarrow> digit_byte d \<noteq> 0"
proof -
  have "\<forall>d<36. digit_byte d \<noteq> 0"
    unfolding all_less_36 digit_byte_def by (simp add: upt_rec)
  then show "d < 36 \<Longrightarrow> digit_byte d \<noteq> 0" by blast
qed

lemma itoa_char_digit: "d < 36 \<Longrightarrow> itoa_char (of_nat d) = digit_byte d"
proof -
  have "\<forall>d<36. itoa_char (of_nat d) = digit_byte d"
    unfolding all_less_36 digit_byte_def itoa_char_def by (simp add: upt_rec)
  then show "d < 36 \<Longrightarrow> itoa_char (of_nat d) = digit_byte d" by blast
qed

subsection \<open>\<open>itoa\<close> writes the digits\<close>

lemma cstr_wr: "0 \<notin> set bs \<Longrightarrow> length bs < 2 ^ 32 \<Longrightarrow>
    cstr ((wr m p bs)(p + of_nat (length bs) := 0)) p bs"
proof -
  assume bs: "0 \<notin> set bs" "length bs < 2 ^ 32"
  have eq: "(wr m p bs)(p + of_nat (length bs) := 0) = wr m p (bs @ [0])" by (simp add: wr_append)
  from bs(2) have "rd (wr m p (bs @ [0])) p (length bs + 1) = bs @ [0]"
    using rd_wr_same [of "bs @ [0]" m p] by simp
  with bs(1) show ?thesis
    unfolding eq cstr_iff by (simp add: rd_add rd_Suc del: One_nat_def)
qed

lemma rd_snoc: "rd m p (Suc n) = rd m p n @ [m (p + of_nat n)]"
  by (simp add: rd_def)

lemma itoa_reverse_eq: "itoa_reverse n str m buf = buf @ rev (rd m str n)"
  by (induction n arbitrary: buf) (simp_all add: rd_snoc)

lemma ucast_is_of_nat: "unat x = n \<Longrightarrow> ucast x = of_nat n"
  by (drule sym) simp

lemma unat_nonzero: "unat x \<noteq> 0 \<Longrightarrow> x \<noteq> 0"
  by auto

lemma itoa_loop_eq:
  assumes "2 \<le> b" "b \<le> 36"
  shows "itoa_loop str val (of_nat b) i m
    = Some (i + of_nat (length (rdigits b (unat val))),
            wr m (str + i) (map digit_byte (rdigits b (unat val))))"
proof (induction "unat val" arbitrary: val i m rule: less_induct)
  case less
  have b: "unat (of_nat b :: u64) = b" using assms(2) by (simp add: unat_of_nat)
  with assms(1) have b0: "(of_nat b :: u64) \<noteq> 0" by (intro unat_nonzero) simp
  show ?case
  proof (cases "val = 0")
    case True
    then show ?thesis by (simp add: itoa_loop.simps)
  next
    case False
    then have pos: "0 < unat val" by (simp add: unat_gt_0)
    have vd: "unat (val div of_nat b) = unat val div b" by (simp add: unat_div b)
    have vm: "(ucast (val mod of_nat b) :: u32) = of_nat (unat val mod b)"
      by (rule ucast_is_of_nat) (simp add: unat_mod b)
    have "unat (val div of_nat b) < unat val" using pos assms(1) by (simp add: vd)
    from less.hyps [OF this] vd have IH: "itoa_loop str (val div of_nat b) (of_nat b) (i + 1) m'
      = Some (i + 1 + of_nat (length (rdigits b (unat val div b))),
              wr m' (str + (i + 1)) (map digit_byte (rdigits b (unat val div b))))" for m'
      by simp
    have "unat val mod b < b" using assms(1) by simp
    with assms(2) have "unat val mod b < 36" by linarith
    then have c: "itoa_char (of_nat (unat val mod b)) = digit_byte (unat val mod b)"
      by (rule itoa_char_digit)
    show ?thesis
      using False b0 pos assms(1)
      by (subst itoa_loop.simps)
        (simp add: IH vm c rdigits_pos add.assoc del: fun_upd_apply)
  qed
qed

definition number_text :: "nat \<Rightarrow> nat \<Rightarrow> u8 list" where
  "number_text base n = map digit_byte (digits base n)"

lemma number_text_0 [simp]: "number_text b 0 = [chr CHR ''0'']"
  by (simp add: number_text_def digits_def digit_byte_def)

lemma length_number_text [simp]: "length (number_text b n) = length (digits b n)"
  by (simp add: number_text_def)

lemma number_text_nonzero: "0 < b \<Longrightarrow> b \<le> 36 \<Longrightarrow> 0 \<notin> set (number_text b n)"
  using digits_less [of b _ n] digit_byte_nonzero
  by (fastforce simp: number_text_def)

lemma itoa_text:
  assumes b: "2 \<le> b" "b \<le> 36" and fit: "unat val < b ^ 32"
  shows "\<exists>m'. itoa str val (of_nat b) m = Some (str, m')
    \<and> cstr m' str (number_text b (unat val))
    \<and> (\<forall>q. q \<notin> span str (Suc (length (number_text b (unat val)))) \<longrightarrow> m' q = m q)"
proof (cases "val = 0")
  case True
  then show ?thesis by (simp add: itoa_def digits_def span_Suc)
next
  case False
  let ?ds = "rdigits b (unat val)"
  let ?t = "number_text b (unat val)"
  have t: "?t = rev (map digit_byte ?ds)" using False
    by (simp add: number_text_def digits_def rev_map unat_eq_zero)
  have len: "length ?ds \<le> 32" using fit by (rule length_rdigits)
  then have k: "unat (of_nat (length ?ds) :: u32) = length ?ds"
    by (intro unat_of_nat_u32) simp
  have "unat (of_nat b :: u8) = b" using b by (simp add: unat_of_nat)
  then have bb: "(ucast (of_nat b :: u8) :: u64) = of_nat b"
    by (rule ucast_is_of_nat)
  let ?m1 = "wr m str (map digit_byte ?ds)"
  let ?m2 = "(wr ?m1 str ?t)(str + of_nat (length ?t) := 0)"
  have rd: "rd ?m1 str (length ?ds) = map digit_byte ?ds"
    using rd_wr_same [of "map digit_byte ?ds" m str] len by simp
  have "\<not> 32 < (of_nat (length ?ds) :: u32)" using len k by (simp add: word_less_nat_alt)
  then have "itoa str val (of_nat b) m = Some (str, ?m2)"
    using False b by (simp add: itoa_def bb itoa_loop_eq itoa_reverse_eq k rd t)
  moreover have "cstr ?m2 str ?t"
    using len number_text_nonzero [of b "unat val"] b by (intro cstr_wr) (simp_all add: t)
  moreover have "?m2 q = m q" if "q \<notin> span str (Suc (length ?t))" for q
  proof -
    from that have "q \<notin> span str (length ?t)" "q \<noteq> str + of_nat (length ?t)"
      using span_mono [of "length ?t" "Suc (length ?t)" str] in_spanI [of "length ?t" "Suc (length ?t)" str]
      by auto
    then show ?thesis by (simp add: wr_other t)
  qed
  ultimately show ?thesis by blast
qed

subsection \<open>\<open>internal_atoi\<close> reads them\<close>

definition digit_code :: "nat \<Rightarrow> nat" where
  "digit_code d = (if 9 < d then d + 55 else d + 48)"

lemma char_to_int_digit: "d < 36 \<Longrightarrow> char_to_int (digit_byte d) = of_nat (digit_code d)"
proof -
  have "\<forall>d<36. char_to_int (digit_byte d) = of_nat (digit_code d)"
    unfolding all_less_36 digit_byte_def digit_code_def char_to_int_def by (simp add: upt_rec)
  then show "d < 36 \<Longrightarrow> char_to_int (digit_byte d) = of_nat (digit_code d)" by blast
qed

lemma sle_of_nat:
  "j < 1000 \<Longrightarrow> k < 1000 \<Longrightarrow> (of_nat j :: u32) <=s of_nat k \<longleftrightarrow> j \<le> k"
proof -
  have small: "sint (of_nat j :: u32) = int j" if "j < 1000" for j
    using that by (subst sint_u32_small) (simp_all add: word_less_nat_alt unat_of_nat_u32)
  assume "j < 1000" "k < 1000"
  then show ?thesis by (simp add: word_sle_eq small)
qed

lemma base_bound:
  assumes "10 < b" "b \<le> 36"
  shows "65 + (ucast (of_nat b :: u8) - 10) = (of_nat (b + 55) :: u32)"
proof -
  have "unat (of_nat b :: u8) = b" using assms by (simp add: unat_of_nat)
  then have "(ucast (of_nat b :: u8) :: u32) = of_nat b" by (rule ucast_is_of_nat)
  then show ?thesis by simp
qed

lemma atoi_accepts_digit:
  assumes "2 \<le> b" "b \<le> 36" "d < b"
  shows "atoi_accepts (of_nat b) (digit_byte d)"
    and "atoi_digit (of_nat b) (digit_byte d) = of_nat d"
proof -
  have c: "char_to_int (digit_byte d) = of_nat (digit_code d)"
    using assms by (intro char_to_int_digit) simp
  have b: "10 < (of_nat b :: u8) \<longleftrightarrow> 10 < b"
    using assms by (simp add: word_less_nat_alt unat_of_nat)
  have small: "digit_code d < 1000" using assms by (simp add: digit_code_def)
  have n: "(48 :: u32) = of_nat 48" "(57 :: u32) = of_nat 57" "(65 :: u32) = of_nat 65" by simp_all
  note cmp = sle_of_nat [OF _ small] sle_of_nat [OF small]
  show "atoi_accepts (of_nat b) (digit_byte d)"
  proof (cases "d < 10")
    case True
    then show ?thesis
      unfolding atoi_accepts_def Let_def c n by (subst cmp, simp)+ (simp add: digit_code_def)
  next
    case False
    with assms have "10 < b" by simp
    have "(65 :: u32) <=s of_nat (digit_code d)"
      using False cmp(1) [of 65] by (simp add: digit_code_def)
    moreover have "(of_nat (digit_code d) :: u32) <=s of_nat (b + 55)"
      using False assms by (subst cmp(2)) (simp_all add: digit_code_def)
    ultimately show ?thesis
      unfolding atoi_accepts_def Let_def c b base_bound [OF \<open>10 < b\<close> assms(2)]
      using \<open>10 < b\<close> by blast
  qed
  show "atoi_digit (of_nat b) (digit_byte d) = of_nat d"
  proof (cases "d < 10")
    case True
    then have "\<not> 65 \<le> digit_code d" by (simp add: digit_code_def)
    then have "\<not> (65 :: u32) <=s of_nat (digit_code d)" using cmp(1) [of 65] by simp
    with True show ?thesis by (simp add: atoi_digit_def c) (simp add: digit_code_def)
  next
    case False
    with assms have "10 < b" by simp
    from False have "65 \<le> digit_code d" by (simp add: digit_code_def)
    then have "(65 :: u32) <=s of_nat (digit_code d)" using cmp(1) [of 65] by simp
    with False \<open>10 < b\<close> show ?thesis by (simp add: atoi_digit_def c b) (simp add: digit_code_def)
  qed
qed

lemma atoi_rejects_0 [simp]: "\<not> atoi_accepts base 0"
proof -
  have "\<not> (48 :: u32) <=s 0" "\<not> (65 :: u32) <=s 0" by (simp_all add: word_sle_eq)
  then show ?thesis by (simp add: atoi_accepts_def char_to_int_def Let_def)
qed

lemma atoi_loop_digits:
  assumes "2 \<le> b" "b \<le> 36"
  shows "cstr m (str + i) (map digit_byte ds) \<Longrightarrow> \<forall>d\<in>set ds. d < b \<Longrightarrow>
    atoi_loop str (of_nat b) 0 i num m = Some (foldl (\<lambda>a d. a * of_nat b + of_nat d) num ds)"
proof (induction ds arbitrary: i num)
  case Nil
  then show ?case by (simp add: atoi_loop.simps)
next
  case (Cons d ds)
  have "unat (of_nat b :: u8) = b" using assms by (simp add: unat_of_nat)
  then have bb: "(ucast (of_nat b :: u8) :: u32) = of_nat b" by (rule ucast_is_of_nat)
  from Cons.prems have d: "m (str + i) = digit_byte d" "d < b"
    and rest: "cstr m (str + (i + 1)) (map digit_byte ds)" by (simp_all add: add.assoc)
  show ?case
    using Cons.IH [OF rest] Cons.prems(2) d
    by (subst atoi_loop.simps) (simp add: atoi_accepts_digit [OF assms] bb)
qed

lemma atoi_number_text:
  assumes "2 \<le> b" "b \<le> 36" "cstr m str (number_text b n)"
  shows "internal_atoi str (of_nat b) 0 m = Some (of_nat n)"
proof -
  have "\<forall>d\<in>set (digits b n). d < b" using assms(1) by (auto intro: digits_less)
  with assms have "internal_atoi str (of_nat b) 0 m
      = Some (foldl (\<lambda>a d. a * of_nat b + of_nat d) 0 (digits b n))"
    by (simp add: internal_atoi_def atoi_loop_digits number_text_def)
  also have "foldl (\<lambda>a d. a * of_nat b + of_nat d) 0 (digits b n) = (of_nat (radix_val b (digits b n)) :: u32)"
    using foldl_radix_word [of b 0 "digits b n"] by (simp add: radix_val_def)
  finally show ?thesis using assms(1) by (simp add: radix_val_digits)
qed

subsection \<open>Where the functions fail\<close>

lemma itoa_overflows:
  assumes b: "2 \<le> b" "b \<le> 36" and big: "b ^ 32 \<le> unat val" and "unat val < b ^ 64"
  shows "itoa str val (of_nat b) m = None"
proof -
  let ?ds = "rdigits b (unat val)"
  have "val \<noteq> 0" using big b(1) by auto
  have len: "32 < length ?ds" "length ?ds \<le> 64"
    using length_rdigits_le [OF b(1) big] length_rdigits [OF assms(4)] by simp_all
  have "unat (of_nat b :: u8) = b" using b by (simp add: unat_of_nat)
  then have bb: "(ucast (of_nat b :: u8) :: u64) = of_nat b" by (rule ucast_is_of_nat)
  have "32 < (of_nat (length ?ds) :: u32)"
    using len by (simp add: word_less_nat_alt unat_of_nat_u32)
  then show ?thesis using \<open>val \<noteq> 0\<close> b by (simp add: itoa_def bb itoa_loop_eq)
qed

lemma atoi_accepts_base:
  assumes "10 < b" "b < 36"
  shows "atoi_accepts (of_nat b) (digit_byte b)" "atoi_digit (of_nat b) (digit_byte b) = of_nat b"
proof -
  have c: "char_to_int (digit_byte b) = of_nat (digit_code b)"
    using assms by (intro char_to_int_digit) simp
  have b: "10 < (of_nat b :: u8)"
    using assms by (simp add: word_less_nat_alt unat_of_nat)
  have "(65 :: u32) <=s of_nat (digit_code b)"
    using sle_of_nat [of 65 "digit_code b"] assms by (simp add: digit_code_def)
  moreover have "(of_nat (digit_code b) :: u32) <=s of_nat (b + 55)"
    using assms by (subst sle_of_nat) (simp_all add: digit_code_def)
  moreover have "65 + (ucast (of_nat b :: u8) - 10) = (of_nat (b + 55) :: u32)"
    using assms by (intro base_bound) simp_all
  ultimately show "atoi_accepts (of_nat b) (digit_byte b)"
    using b unfolding atoi_accepts_def Let_def c by metis
  show "atoi_digit (of_nat b) (digit_byte b) = of_nat b"
    using b assms \<open>(65 :: u32) <=s of_nat (digit_code b)\<close>
    unfolding atoi_digit_def Let_def c by (simp add: digit_code_def)
qed

lemma shift_sign:
  assumes "bit (val :: u64) 62 \<longleftrightarrow> bit val 63"
  shows "signed_drop_bit 1 (push_bit 1 val) = val"
proof (rule bit_word_eqI)
  fix n assume n: "n < LENGTH(64)"
  have p: "bit (push_bit 1 val) k \<longleftrightarrow> 1 \<le> k \<and> k < 64 \<and> bit val (k - 1)" for k
    by (subst bit_push_bit_iff) auto
  show "bit (signed_drop_bit 1 (push_bit 1 val)) n \<longleftrightarrow> bit val n"
  proof (cases "n = 63")
    case True
    with assms show ?thesis unfolding bit_signed_drop_bit_iff p by simp
  next
    case False
    with n show ?thesis unfolding bit_signed_drop_bit_iff p by simp
  qed
qed

lemma sless_0_bit: "(val :: u64) <s 0 \<longleftrightarrow> bit val 63"
  using bit_last_iff [of val] by (simp add: word_sless_alt)

subsection \<open>When \<open>itoa\<close> returns\<close>

text \<open>In any base from 2 on, the loop stores as many characters as the number has digits.\<close>

lemma itoa_loop_count:
  assumes "2 \<le> b" "b < 256"
  shows "\<exists>m'. itoa_loop str val (of_nat b) i m = Some (i + of_nat (length (rdigits b (unat val))), m')"
proof (induction "unat val" arbitrary: val i m rule: less_induct)
  case less
  have b: "unat (of_nat b :: u64) = b" using assms(2) by (simp add: unat_of_nat)
  with assms(1) have b0: "(of_nat b :: u64) \<noteq> 0" by (intro unat_nonzero) simp
  show ?case
  proof (cases "val = 0")
    case True
    then show ?thesis by (simp add: itoa_loop.simps)
  next
    case False
    then have pos: "0 < unat val" by (simp add: unat_gt_0)
    have vd: "unat (val div of_nat b) = unat val div b" by (simp add: unat_div b)
    have lt: "unat (val div of_nat b) < unat val" using pos assms(1) by (simp add: vd)
    let ?m = "m(str + i := itoa_char (ucast (val mod of_nat b)))"
    from less.hyps [OF lt, of "i + 1" ?m] obtain m' where
      "itoa_loop str (val div of_nat b) (of_nat b) (i + 1) ?m
        = Some (i + 1 + of_nat (length (rdigits b (unat val div b))), m')"
      by (auto simp only: vd)
    then show ?thesis
      using False b0 pos assms(1) by (subst itoa_loop.simps) (simp add: rdigits_pos add.assoc)
  qed
qed

text \<open>In base 1 the quotient is the number again.\<close>

lemma itoa_loop_unary: "itoa_loop str val 1 i m = Some r \<Longrightarrow> val = 0"
proof -
  assume ret: "itoa_loop str val 1 i m = Some r"
  have "base = 1 \<longrightarrow> val = 0" if "itoa_loop str val base i m = Some r" for base
    by (rule itoa_loop.raw_induct [where P = "\<lambda>_ val base _ _ _. base = 1 \<longrightarrow> val = 0", OF _ that])
      (auto split: if_splits)
  from this [OF ret] show "val = 0" by simp
qed

lemma small_base:
  assumes "\<not> 2 \<le> (base :: u8)" shows "base = 0 \<or> base = 1"
proof -
  have "unat base < 2" using assms by (simp add: not_le word_less_nat_alt)
  then have "unat base = 0 \<or> unat base = 1" by auto
  then show ?thesis by (metis unat_eq_zero unat_1 word_unat_eq_iff)
qed

subsection \<open>Properties\<close>

text \<open>C26: In every base from 2 to 36, \<open>itoa\<close> writes the digits of a number that has at most
  32 of them, most significant first and in upper case, and a terminator at \<open>str\<close>, returns
  \<open>str\<close>, and writes nothing else.\<close>

theorem itoa_writes_number:
  assumes "2 \<le> b" "b \<le> 36" "unat val < b ^ 32"
  shows "\<exists>m'. itoa str val (of_nat b) m = Some (str, m')
    \<and> cstr m' str (number_text b (unat val))
    \<and> same_outside (span str (Suc (length (number_text b (unat val))))) m m'"
  unfolding same_outside_def using assms by (rule itoa_text)

theorem itoa_writes_number_witness:
  "\<exists>m'. itoa 0x2000 255 (of_nat 16) (\<lambda>_. 0xCC) = Some (0x2000, m')
    \<and> cstr m' 0x2000 (number_text 16 (unat (255 :: u64)))
    \<and> same_outside (span 0x2000 (Suc (length (number_text 16 (unat (255 :: u64)))))) (\<lambda>_. 0xCC) m'"
  by (rule itoa_writes_number) simp_all

text \<open>C14: A number written by \<open>itoa\<close> and read back by \<open>internal_atoi\<close> in the same base is the
  number modulo \<open>2 ^ 32\<close>, the width of the \<open>int\<close> that is returned.\<close>

theorem itoa_atoi_roundtrip:
  assumes "2 \<le> b" "b \<le> 36" "unat val < b ^ 32"
  shows "\<exists>m'. itoa str val (of_nat b) m = Some (str, m')
    \<and> internal_atoi str (of_nat b) 0 m' = Some (ucast val)"
proof -
  have "(ucast val :: u32) = of_nat (unat val)" by (rule ucast_is_of_nat) simp
  with itoa_text [OF assms] atoi_number_text [OF assms(1,2)] show ?thesis by metis
qed

theorem itoa_atoi_roundtrip_witness:
  "\<exists>m'. itoa 0x2000 1234567890123 (of_nat 10) (\<lambda>_. 0) = Some (0x2000, m')
    \<and> internal_atoi 0x2000 (of_nat 10) 0 m' = Some (ucast (1234567890123 :: u64))"
  by (rule itoa_atoi_roundtrip) simp_all

text \<open>C27: \<open>itoa\<close> returns exactly for zero, and in the bases from 2 on for the numbers of at most 32
  digits: base 0 divides by zero, base 1 is a loop that is never left, and longer numbers
  overrun the local array.\<close>

theorem itoa_returns_iff:
  "itoa str val base m \<noteq> None \<longleftrightarrow> val = 0 \<or> 2 \<le> base \<and> unat val < unat base ^ 32"
proof (cases "val = 0")
  case True
  then show ?thesis by (simp add: itoa_def)
next
  case False
  let ?b = "unat base"
  have bb: "(ucast base :: u64) = of_nat ?b" by (rule ucast_is_of_nat) simp
  show ?thesis
  proof (cases "2 \<le> base")
    case True
    then have b: "2 \<le> ?b" "?b < 256"
      using unsigned_less [of base, where ?'a = nat] by (simp_all add: word_le_nat_alt)
    obtain m' where
      m': "itoa_loop str val (ucast base) 0 m = Some (of_nat (length (rdigits ?b (unat val))), m')"
      using itoa_loop_count [OF b, of str val 0 m] unfolding bb by auto
    have "unat val < 2 ^ 64" using unsigned_less [of val, where ?'a = nat] by simp
    also have "(2 :: nat) ^ 64 \<le> ?b ^ 64" using b(1) by (rule power_mono) simp
    finally have "length (rdigits ?b (unat val)) \<le> 64" by (rule length_rdigits)
    then have "32 < (of_nat (length (rdigits ?b (unat val))) :: u32) \<longleftrightarrow> 32 < length (rdigits ?b (unat val))"
      by (simp add: word_less_nat_alt unat_of_nat_u32)
    also have "\<dots> \<longleftrightarrow> ?b ^ 32 \<le> unat val"
      using length_rdigits [of "unat val" ?b 32] length_rdigits_le [OF b(1), of 32 "unat val"]
      by (meson not_le)
    finally show ?thesis using m' False True by (simp add: itoa_def not_le)
  next
    case False
    then consider "base = 0" | "base = 1" using small_base by blast
    then have "itoa_loop str val (ucast base) 0 m = None"
    proof cases
      case 1
      then show ?thesis using \<open>val \<noteq> 0\<close> by (simp add: itoa_loop.simps)
    next
      case 2
      then show ?thesis using \<open>val \<noteq> 0\<close> itoa_loop_unary [of str val 0 m] by (cases "itoa_loop str val 1 0 m") auto
    qed
    then show ?thesis using False \<open>val \<noteq> 0\<close> by (simp add: itoa_def)
  qed
qed

text \<open>A number with more than 32 digits (which only the bases 2 and 3 have) overruns the
  32-byte local array of \<open>itoa\<close>.\<close>

theorem itoa_overruns_buffer:
  assumes "2 \<le> b" "b \<le> 36" "b ^ 32 \<le> unat val"
  shows "itoa str val (of_nat b) m = None"
proof -
  have "unat val < 2 ^ 64" using unsigned_less [of val, where ?'a = nat] by simp
  also have "(2 :: nat) ^ 64 \<le> b ^ 64" using assms(1) by (rule power_mono) simp
  finally show ?thesis using assms by (intro itoa_overflows)
qed

theorem itoa_overruns_buffer_witness: "itoa 0x2000 (2 ^ 32) (of_nat 2) (\<lambda>_. 0) = None"
  by (rule itoa_overruns_buffer) simp_all

text \<open>Above base ten \<open>internal_atoi\<close> takes one letter too many: the character that follows
  the largest digit is read as a digit whose value is the base.\<close>

theorem internal_atoi_extra_letter:
  assumes "10 < b" "b < 36" "m str = digit_byte b" "m (str + 1) = 0"
  shows "internal_atoi str (of_nat b) 0 m = Some (of_nat b)"
  using assms
  by (simp add: internal_atoi_def atoi_loop.simps [of str "of_nat b" 0 0]
      atoi_loop.simps [of str "of_nat b" 0 1] atoi_accepts_base)

theorem internal_atoi_extra_letter_witness:
  "internal_atoi 0 (of_nat 16) 0 ((\<lambda>_. 0)(0 := digit_byte 16)) = Some (of_nat 16)
    \<and> digit_byte 16 = chr CHR ''G''"
  by (intro conjI internal_atoi_extra_letter) (simp_all add: digit_byte_def)

text \<open>For a negative number that is not below \<open>-2 ^ 62\<close>, \<open>sitoa\<close> writes a minus sign and
  then the decimal digits of \<open>2 ^ 64\<close> plus the number, and returns the address after the sign.\<close>

theorem sitoa_negative:
  assumes "val <s 0" "bit val 62"
  shows "\<exists>m'. sitoa str val 10 m = Some (str + 1, m') \<and> m' str = chr CHR ''-''
    \<and> cstr m' (str + 1) (number_text 10 (unat val))"
proof -
  have "unat val < 2 ^ 64" using unsigned_less [of val, where ?'a = nat] by simp
  then have fit: "unat val < 10 ^ 32" by simp
  from itoa_text [OF _ _ fit, of "str + 1" "m(str := chr CHR ''-'')"]
  obtain m' where m': "itoa (str + 1) val 10 (m(str := chr CHR ''-'')) = Some (str + 1, m')"
    "cstr m' (str + 1) (number_text 10 (unat val))"
    "\<And>q. q \<notin> span (str + 1) (Suc (length (number_text 10 (unat val))))
       \<Longrightarrow> m' q = (m(str := chr CHR ''-'')) q" by auto
  have "length (number_text 10 (unat val)) \<le> 32" using fit by (simp add: length_digits)
  then have "m' str = chr CHR ''-''"
    by (subst m'(3)) (simp_all add: notin_span_Suc)
  moreover have "signed_drop_bit 1 (push_bit 1 val) = val"
    using assms by (intro shift_sign) (simp add: sless_0_bit)
  ultimately show ?thesis using assms(1) m' by (simp add: sitoa_def)
qed

theorem sitoa_negative_witness:
  "\<exists>m'. sitoa 0x2000 (- 5) 10 (\<lambda>_. 0) = Some (0x2000 + 1, m') \<and> m' 0x2000 = chr CHR ''-''
    \<and> cstr m' (0x2000 + 1) (number_text 10 (unat (- 5 :: u64)))"
  by (rule sitoa_negative) (simp_all add: word_sless_alt)

end
