(* ===== verification/Printf_Spec.thy ===== *)
theory Printf_Spec
  imports Printf Console_Spec Numbers
begin

text \<open>
  What formatted output produces.  Every conversion is shown to emit a list of bytes that
  depends on its arguments only (\<open>emits\<close>); the bounded output function never writes
  outside its buffer, whatever the format and the arguments; and the digits of an integer
  conversion are the number's.
\<close>

subsection \<open>Emitting a list of bytes\<close>

fun emits :: "out_fct \<Rightarrow> u32 \<Rightarrow> u32 \<Rightarrow> u8 list \<Rightarrow> pos \<Rightarrow> pos" where
  "emits out buffer maxlen [] p = p"
| "emits out buffer maxlen (c # cs) p = emits out buffer maxlen cs (put1 out buffer maxlen c p)"

lemma emits_append: "emits out b ml (xs @ ys) p = emits out b ml ys (emits out b ml xs p)"
  by (induction xs arbitrary: p) auto

lemma fst_emits: "fst (emits out b ml cs p) = fst p + of_nat (length cs)"
  by (induction cs arbitrary: p) (auto simp: put1_def)

lemma pad_loop_emits:
  "pad_loop out b ml i w p = emits out b ml (replicate (unat w - unat i) 32) p"
proof (induction out b ml i w p rule: pad_loop.induct)
  case (1 out b ml i w p)
  show ?case
  proof (cases "i < w")
    case True
    then have "unat w - unat i = Suc (unat w - unat (i + 1))"
      by (simp add: unat_Suc_less) (simp add: word_less_nat_alt Suc_diff_Suc)
    with 1 True show ?thesis by (simp add: pad_loop.simps [of out b ml i w p])
  next
    case False
    then have "unat w - unat i = 0" by (simp add: word_less_nat_alt)
    with False show ?thesis by (simp add: pad_loop.simps [of out b ml i w p])
  qed
qed

lemma left_loop_emits:
  "left_loop out b ml st w p = emits out b ml (replicate (unat w - unat (fst p - st)) 32) p"
proof (induction out b ml st w p rule: left_loop.induct)
  case (1 out b ml st w p)
  show ?case
  proof (cases "fst p - st < w")
    case True
    then have "unat w - unat (fst p - st) = Suc (unat w - unat (fst p - st + 1))"
      by (simp only: unat_Suc_less) (simp add: word_less_nat_alt Suc_diff_Suc)
    then have "unat w - unat (fst p - st) = Suc (unat w - unat (fst (put1 out b ml 32 p) - st))"
      by (simp add: put1_def algebra_simps)
    with 1 True show ?thesis by (simp add: left_loop.simps [of out b ml st w p])
  next
    case False
    then have "unat w - unat (fst p - st) = 0" by (simp add: word_less_nat_alt)
    with False show ?thesis by (simp add: left_loop.simps [of out b ml st w p])
  qed
qed

lemma rev_loop_emits:
  "n \<le> length buf \<Longrightarrow> rev_loop out b ml buf n p = emits out b ml (rev (take n buf)) p"
  by (induction n arbitrary: p) (simp_all add: take_Suc_conv_app_nth)

text \<open>The bytes of \<open>_out_rev\<close>: the buffer reversed, padded to the width.\<close>

definition rev_text :: "u8 list \<Rightarrow> u32 \<Rightarrow> u32 \<Rightarrow> u8 list" where
  "rev_text buf width flags =
     (if has flags FLAGS_LEFT then rev buf @ replicate (unat width - length buf) 32
      else if has flags FLAGS_ZEROPAD then rev buf
      else replicate (unat width - length buf) 32 @ rev buf)"

lemma out_rev_emits:
  "length buf < 2 ^ 32 \<Longrightarrow>
   out_rev out b ml buf w flags p = emits out b ml (rev_text buf w flags) p"
  by (simp add: out_rev_def rev_text_def Let_def pad_loop_emits left_loop_emits
      rev_loop_emits fst_emits emits_append unat_of_nat_u32)

subsection \<open>Integer conversions as text\<close>

definition ntoa_text :: "u8 list \<Rightarrow> bool \<Rightarrow> u32 \<Rightarrow> u32 \<Rightarrow> u32 \<Rightarrow> u32 \<Rightarrow> u8 list" where
  "ntoa_text buf negative base prec width flags =
     (let (buf1, width1) = ntoa_zeros negative prec width flags buf
      in rev_text (ntoa_sign negative flags (ntoa_hash base prec width1 flags buf1)) width1 flags)"

lemma length_zero_fill: "length buf \<le> 32 \<Longrightarrow> length (zero_fill limit buf) \<le> 32"
proof (induction limit buf rule: zero_fill.induct)
  case (1 limit buf)
  then show ?case by (subst zero_fill.simps) auto
qed

lemma length_ntoa_zeros:
  "length buf \<le> 32 \<Longrightarrow> length (fst (ntoa_zeros neg prec w flags buf)) \<le> 32"
  by (simp add: ntoa_zeros_def Let_def length_zero_fill)

lemma length_ntoa_hash: "length buf \<le> 32 \<Longrightarrow> length (ntoa_hash base prec w flags buf) \<le> 32"
  by (auto simp: ntoa_hash_def Let_def)

lemma length_ntoa_sign: "length buf \<le> 32 \<Longrightarrow> length (ntoa_sign neg flags buf) \<le> 32"
  by (auto simp: ntoa_sign_def)

lemma length_ntoa_loop: "length buf < 32 \<Longrightarrow> length (ntoa_loop v base flags buf) \<le> 32"
proof (induction v base flags buf rule: ntoa_loop.induct)
  case (1 v base flags buf)
  then show ?case by (subst ntoa_loop.simps) (auto simp: Let_def)
qed

lemma ntoa_format_emits:
  assumes "length buf \<le> 32"
  shows "ntoa_format out b ml buf neg base prec w flags p
    = emits out b ml (ntoa_text buf neg base prec w flags) p"
proof -
  let ?z = "ntoa_zeros neg prec w flags buf"
  have "length (ntoa_sign neg flags (ntoa_hash base prec (snd ?z) flags (fst ?z))) < 2 ^ 32"
    using length_ntoa_sign [OF length_ntoa_hash [OF length_ntoa_zeros [OF assms]]]
    by (rule le_less_trans) simp
  then show ?thesis
    by (simp add: ntoa_format_def ntoa_text_def case_prod_beta out_rev_emits)
qed

text \<open>The text of an integer conversion, for either width of the value.\<close>

definition int_text :: "'a :: len word \<Rightarrow> bool \<Rightarrow> 'a word \<Rightarrow> u32 \<Rightarrow> u32 \<Rightarrow> u32 \<Rightarrow> u32 \<Rightarrow> u8 list" where
  "int_text value negative base base32 prec width flags =
     (let flags1 = (if value = 0 then flags AND NOT FLAGS_HASH else flags);
          buf = (if \<not> has flags1 FLAGS_PRECISION \<or> value \<noteq> 0
                 then ntoa_loop value base flags1 [] else [])
      in ntoa_text buf negative base32 prec width flags1)"

lemma ntoa_long_emits:
  "ntoa_long out b ml v neg base prec w flags p
     = emits out b ml (int_text v neg base base prec w flags) p"
  by (simp add: ntoa_long_def int_text_def Let_def ntoa_format_emits length_ntoa_loop)

lemma ntoa_long_long_emits:
  "ntoa_long_long out b ml v neg base prec w flags p
     = emits out b ml (int_text v neg base (ucast base) prec w flags) p"
  by (simp add: ntoa_long_long_def int_text_def Let_def ntoa_format_emits length_ntoa_loop)

subsection \<open>Everything that is output is a list of bytes\<close>

definition emitting :: "out_fct \<Rightarrow> u32 \<Rightarrow> u32 \<Rightarrow> pos \<Rightarrow> pos \<Rightarrow> bool" where
  "emitting out b ml p p' \<longleftrightarrow> (\<exists>cs. p' = emits out b ml cs p)"

named_theorems emitting_intros \<open>conversions that emit a list of bytes\<close>

lemma emitting_refl [simp, intro]: "emitting out b ml p p"
  unfolding emitting_def by (metis emits.simps(1))

lemma emitting_trans [trans]:
  "emitting out b ml p p' \<Longrightarrow> emitting out b ml p' p'' \<Longrightarrow> emitting out b ml p p''"
  unfolding emitting_def by (metis emits_append)

lemma emitting_emits [emitting_intros]: "emitting out b ml p (emits out b ml cs p)"
  by (auto simp: emitting_def)

lemma emitting_put1 [emitting_intros]: "emitting out b ml p (put1 out b ml c p)"
  using emitting_emits [of out b ml p "[c]"] by simp

lemma emitting_pad [emitting_intros]: "emitting out b ml p (pad_loop out b ml i w p)"
  by (simp add: pad_loop_emits emitting_emits)

lemma emitting_left [emitting_intros]: "emitting out b ml p (left_loop out b ml st w p)"
  by (simp add: left_loop_emits emitting_emits)

lemma emitting_rev: "emitting out b ml p (rev_loop out b ml buf (length buf) p)"
  by (simp add: rev_loop_emits emitting_emits)

lemma emitting_if [emitting_intros]:
  "emitting out b ml p x \<Longrightarrow> emitting out b ml p y \<Longrightarrow> emitting out b ml p (if c then x else y)"
  by simp

lemma emitting_out_rev [emitting_intros]: "emitting out b ml p (out_rev out b ml buf w fl p)"
  unfolding out_rev_def Let_def
  by (intro emitting_if emitting_trans [OF _ emitting_left] emitting_trans [OF _ emitting_rev]
      emitting_pad emitting_refl)

lemma emitting_ntoa_long [emitting_intros]:
  "emitting out b ml p (ntoa_long out b ml v neg base pr w fl p)"
  by (simp add: ntoa_long_emits emitting_emits)

lemma emitting_ntoa_long_long [emitting_intros]:
  "emitting out b ml p (ntoa_long_long out b ml v neg base pr w fl p)"
  by (simp add: ntoa_long_long_emits emitting_emits)

lemma emitting_ftoa_fixed:
  "ftoa_fixed fp out b ml v pr w fl p = Some p' \<Longrightarrow> emitting out b ml p p'"
  by (auto simp: ftoa_fixed_def Let_def emitting_out_rev split: option.splits prod.splits if_splits)

lemma emitting_exponent:
  "emitting out b ml p (etoa_exponent out b ml e mw st w fl p)"
  unfolding etoa_exponent_def Let_def
  by (intro emitting_if emitting_trans [OF _ emitting_left] emitting_trans [OF _ emitting_ntoa_long]
      emitting_put1 emitting_refl)

lemma emitting_float_conv:
  assumes ret: "float_conv fp ex out b ml v pr w fl p = Some p'"
  shows "emitting out b ml p p'"
proof (rule float_conv.raw_induct
    [where P = "\<lambda>fp ex out b ml v pr w fl p p'. emitting out b ml p p'", OF _ ret], goal_cases)
  case (1 f fp ex out b ml v pr w fl p p')
  show ?case
  proof (cases ex)
    case False
    with 1 show ?thesis
      by (auto simp: emitting_out_rev emitting_ftoa_fixed split: if_splits)
  next
    case True
    with 1(2) consider "f fp False out b ml v pr w fl p = Some p'"
      | p1 v' pr' w' fl' e mw fl1 where "f fp False out b ml v' pr' w' fl' p = Some p1"
        "p' = etoa_exponent out b ml e mw (fst p) w fl1 p1"
      by (auto simp: Let_def bind_eq_Some_conv split: if_splits prod.splits)
    then show ?thesis
      by cases (auto intro: 1(1) emitting_trans [OF _ emitting_exponent])
  qed
qed

lemma emitting_str_loop:
  assumes ret: "str_loop out b ml lim pr q p = Some p'"
  shows "emitting out b ml p p'"
proof (rule str_loop.raw_induct
    [where P = "\<lambda>out b ml lim pr q p p'. emitting out b ml p p'", OF _ ret], goal_cases)
  case (1 f out b ml lim pr q p p')
  show ?case
  proof (cases "ram (snd p) q \<noteq> 0 \<and> (\<not> lim \<or> pr \<noteq> 0)")
    case True
    from 1(2) have "f out b ml lim (if lim then pr - 1 else pr) (q + 1)
        (put1 out b ml (ram (snd p) q) p) = Some p'"
      unfolding if_P [OF True] .
    then have "emitting out b ml (put1 out b ml (ram (snd p) q) p) p'" by (rule 1(1))
    with emitting_put1 show ?thesis by (rule emitting_trans)
  next
    case False
    with 1(2) show ?thesis by (simp split: if_splits)
  qed
qed

lemma emitting_conv_int:
  "conv_int out b ml spec fl w pr va p = Some (va', p') \<Longrightarrow> emitting out b ml p p'"
  by (auto simp: conv_int_def Let_def bind_eq_Some_conv emitting_intros split: if_splits prod.splits)

lemma emitting_conv_char:
  assumes "conv_char out b ml fl w va p = Some (va', p')" shows "emitting out b ml p p'"
proof -
  let ?p1 = "if \<not> has fl FLAGS_LEFT then pad_loop out b ml 1 w p else p"
  from assms obtain c where p': "p' = (if has fl FLAGS_LEFT
      then pad_loop out b ml 1 w (put1 out b ml c ?p1) else put1 out b ml c ?p1)"
    by (auto simp: conv_char_def Let_def bind_eq_Some_conv)
  show ?thesis unfolding p'
    by (intro emitting_if emitting_trans [OF _ emitting_pad] emitting_trans [OF _ emitting_put1]
        emitting_pad emitting_refl)
qed

lemma emitting_conv_str:
  assumes "conv_str out b ml fl w pr va p = Some (va', p')" shows "emitting out b ml p p'"
proof -
  from assms obtain q l p2 where
    2: "str_loop out b ml (has fl FLAGS_PRECISION) pr q
         (if \<not> has fl FLAGS_LEFT then pad_loop out b ml l w p else p) = Some p2"
    and p': "p' = (if has fl FLAGS_LEFT then pad_loop out b ml l w p2 else p2)"
    unfolding conv_str_def Let_def by (auto simp: bind_eq_Some_conv simp del: if_split)
  have "emitting out b ml p (if \<not> has fl FLAGS_LEFT then pad_loop out b ml l w p else p)"
    by (intro emitting_if emitting_pad emitting_refl)
  also note emitting_str_loop [OF 2]
  also have "emitting out b ml p2 p'"
    unfolding p' by (intro emitting_if emitting_pad emitting_refl)
  finally show ?thesis .
qed

lemma emitting_convert:
  "convert fp out b ml spec fl w pr va p = Some (va', p') \<Longrightarrow> emitting out b ml p p'"
  unfolding convert_def
  by (auto split: if_splits intro: emitting_conv_int emitting_conv_char emitting_conv_str
      simp: conv_ptr_def conv_float_def bind_eq_Some_conv emitting_intros
      dest: emitting_float_conv)

lemma vsn_loop_directive:
  assumes "vsn_loop fp out b ml (chr CHR ''%'' # fmt) va p = Some p'"
  obtains fl w pr fmt1 va1 va2 p2 where
    "parse_directive fmt va = Some (fl, w, pr, fmt1, va1)" "fmt1 \<noteq> []"
    "convert fp out b ml (fhead fmt1) fl w pr va1 p = Some (va2, p2)"
    "vsn_loop fp out b ml (tl fmt1) va2 p2 = Some p'"
  using assms by (auto simp: bind_eq_Some_conv split: if_splits)

lemma emitting_vsn_loop:
  "vsn_loop fp out b ml fmt va p = Some p' \<Longrightarrow> emitting out b ml p p'"
proof (induction "length fmt" arbitrary: fmt va p rule: less_induct)
  case less
  show ?case
  proof (cases fmt)
    case Nil
    with less.prems show ?thesis by simp
  next
    case (Cons c cs)
    show ?thesis
    proof (cases "c = chr CHR ''%''")
      case False
      with Cons less.prems have "vsn_loop fp out b ml cs va (put1 out b ml c p) = Some p'" by simp
      then have "emitting out b ml (put1 out b ml c p) p'"
        using Cons by (intro less.hyps) auto
      with emitting_put1 show ?thesis by (rule emitting_trans)
    next
      case True
      with less.prems Cons have "vsn_loop fp out b ml (chr CHR ''%'' # cs) va p = Some p'" by simp
      then show ?thesis
      proof (rule vsn_loop_directive)
        fix fl w pr fmt1 va1 va2 p2
        assume d: "parse_directive cs va = Some (fl, w, pr, fmt1, va1)" "fmt1 \<noteq> []"
          "convert fp out b ml (fhead fmt1) fl w pr va1 p = Some (va2, p2)"
          "vsn_loop fp out b ml (tl fmt1) va2 p2 = Some p'"
        have "length (tl fmt1) < length fmt"
          using length_parse_directive [OF d(1)] Cons by simp
        then have "emitting out b ml p2 p'" using d(4) by (rule less.hyps)
        with emitting_convert [OF d(3)] show ?thesis by (rule emitting_trans)
      qed
    qed
  qed
qed

subsection \<open>Where the output goes\<close>

text \<open>Only the \<open>n\<close> bytes at \<open>b\<close> differ.\<close>

definition within :: "u32 \<Rightarrow> nat \<Rightarrow> machine \<Rightarrow> machine \<Rightarrow> bool" where
  "within b n s s' \<longleftrightarrow> s' = s\<lparr>ram := ram s'\<rparr> \<and> (\<forall>q. q \<notin> span b n \<longrightarrow> ram s' q = ram s q)"

lemma within_refl [simp]: "within b n s s"
  by (simp add: within_def)

lemma within_trans: "within b n s s' \<Longrightarrow> within b n s' s'' \<Longrightarrow> within b n s s''"
  unfolding within_def by (metis machine.surjective machine.update_convs(1))

lemma within_put: "within b (unat ml) s (out_call Out_buffer c b idx ml s)"
  using in_spanI [of "unat idx" "unat ml" b] by (auto simp: within_def word_less_nat_alt)

lemma within_emits: "within b (unat ml) (snd p) (snd (emits Out_buffer b ml cs p))"
proof (induction cs arbitrary: p)
  case (Cons c cs)
  have "within b (unat ml) (snd p) (snd (put1 Out_buffer b ml c p))"
    unfolding put1_def snd_conv by (rule within_put)
  from within_trans [OF this Cons.IH] show ?case by simp
qed simp

lemma emits_null [simp]: "snd (emits Out_null b ml cs p) = snd p"
  by (induction cs arbitrary: p) (auto simp: put1_def)

lemma vsn_loop_emits:
  assumes "vsn_loop fp out b ml fmt va p = Some p'"
  obtains cs where "p' = emits out b ml cs p"
  using emitting_vsn_loop [OF assms] by (auto simp: emitting_def)

text \<open>The bytes a buffered call leaves: those that fit, and a terminator.\<close>

lemma emits_buffer:
  "unat i + length cs < 2 ^ 32 \<Longrightarrow> emits Out_buffer b ml cs (i, s)
     = (i + of_nat (length cs), s\<lparr>ram := wr (ram s) (b + i) (take (unat ml - unat i) cs)\<rparr>)"
proof (induction cs arbitrary: i s)
  case (Cons c cs)
  then have i: "unat (i + 1) = Suc (unat i)" by (simp add: unat_add_no_wrap)
  show ?case
  proof (cases "i < ml")
    case True
    then have "unat ml - unat i = Suc (unat ml - Suc (unat i))"
      by (simp add: word_less_nat_alt Suc_diff_Suc)
    with True Cons i show ?thesis
      by (simp add: put1_def add.assoc add.left_commute del: fun_upd_apply)
  next
    case False
    then have "unat ml \<le> unat i" by (simp add: word_less_nat_alt)
    with False Cons i show ?thesis by (simp add: put1_def algebra_simps)
  qed
qed simp

subsection \<open>Console output\<close>

lemma emits_char:
  "0 \<notin> set cs \<Longrightarrow> emits Out_char b ml cs (i, s) = (i + of_nat (length cs), fold putchar_c cs s)"
  by (induction cs arbitrary: i s) (auto simp: put1_def)

lemma vsn_loop_literal:
  "chr CHR ''%'' \<notin> set fmt \<Longrightarrow> vsn_loop fp out b ml fmt va p = Some (emits out b ml fmt p)"
  by (induction fmt arbitrary: p) auto

text \<open>\<open>printf\<close> of a string with no directive, as the allocator and \<open>main\<close> call it.\<close>

definition print_text :: "string \<Rightarrow> machine \<Rightarrow> machine" where
  "print_text t s = fold putchar_c (bytes t) s"

lemma print_view:
  assumes "term_ok s" "8 \<notin> set cs"
  shows "view (fold putchar_c cs s) = fold char_put cs (view s) \<and> term_ok (fold putchar_c cs s)
    \<and> same_outside vga_window (ram s) (ram (fold putchar_c cs s))"
  using assms
  by (induction cs arbitrary: s) (simp_all add: putchar_c_def addch_view same_outside_def)

lemma addch_only:
  "addch c s = s\<lparr>ram := ram (addch c s), term_row := term_row (addch c s), term_col := term_col (addch c s),
     io_log := io_log (addch c s)\<rparr>"
  by (rule machine.equality) simp_all

text \<open>Printing changes memory, the cursor and the log of the ports only.\<close>

lemma print_only:
  "fold putchar_c cs s = s\<lparr>ram := ram (fold putchar_c cs s), term_row := term_row (fold putchar_c cs s),
     term_col := term_col (fold putchar_c cs s), io_log := io_log (fold putchar_c cs s)\<rparr>"
proof (induction cs arbitrary: s)
  case (Cons c cs)
  let ?t = "putchar_c c s"
  have t: "term_color ?t = term_color s" "term_lies ?t = term_lies s" "last_saved_ch ?t = last_saved_ch s"
    "kb_shift ?t = kb_shift s" "is_press ?t = is_press s" "tok_g ?t = tok_g s" "heap_master ?t = heap_master s"
    "io_in ?t = io_in s" by (simp_all add: putchar_c_def)
  note f = Cons.IH [of ?t, THEN arg_cong]
  show ?case
    using f [of term_color] f [of term_lies] f [of last_saved_ch] f [of kb_shift] f [of is_press] f [of tok_g]
      f [of heap_master] f [of io_in] t by (intro machine.equality) simp_all
qed simp

lemma print_log: "io_log (fold putchar_c cs s) = io_log s @ concat (map (serial_echo \<circ> char_to_int) cs)"
  by (induction cs arbitrary: s) (simp_all add: putchar_c_def addch_log)

lemma print_rest:
  "heap_master (fold putchar_c cs s) = heap_master s" "io_in (fold putchar_c cs s) = io_in s"
  "last_saved_ch (fold putchar_c cs s) = last_saved_ch s" "kb_shift (fold putchar_c cs s) = kb_shift s"
  "is_press (fold putchar_c cs s) = is_press s"
  by (induction cs arbitrary: s) (simp_all add: putchar_c_def)

lemma printf_literal:
  "chr CHR ''%'' \<notin> set fmt \<Longrightarrow> 0 \<notin> set fmt \<Longrightarrow>
   printf fp fmt va s = Some (of_nat (length fmt), fold putchar_c fmt s)"
  by (simp add: printf_def vsnprintf_core_def local_buffer_def vsn_loop_literal emits_char)

subsection \<open>The digits of an integer\<close>

lemma ntoa_loop_eq:
  assumes b: "2 \<le> b" "unat (of_nat b :: 'a :: len word) = b"
  shows "length buf + length (rdigits b (unat v)) \<le> 32 \<Longrightarrow> length buf < 32 \<Longrightarrow>
    ntoa_loop v (of_nat b :: 'a word) flags buf
      = buf @ map (\<lambda>d. digit_char (of_nat d) flags) (rev (digits b (unat v)))"
proof (induction v "of_nat b :: 'a word" flags buf rule: ntoa_loop.induct)
  case (1 v flags buf)
  let ?c = "digit_char (of_nat (unat v mod b)) flags"
  have c: "(ucast (v mod of_nat b) :: u8) = of_nat (unat v mod b)"
    by (rule ucast_is_of_nat) (simp add: unat_mod b(2))
  have d: "unat (v div of_nat b) = unat v div b" by (simp add: unat_div b(2))
  show ?case
  proof (cases "unat v div b = 0")
    case True
    then have "v div of_nat b = 0" using d by (metis unat_eq_zero)
    moreover have "rev (digits b (unat v)) = [unat v mod b]"
      using True b(1) by (cases "unat v = 0") (simp_all add: digits_def rdigits_pos)
    ultimately show ?thesis by (subst ntoa_loop.simps) (simp add: c)
  next
    case False
    then have pos: "0 < unat v" by (cases "unat v") auto
    from False have nz: "v div of_nat b \<noteq> 0" using d by auto
    have rd: "rdigits b (unat v) = unat v mod b # rdigits b (unat v div b)"
      using b(1) pos by (rule rdigits_pos)
    moreover have "rdigits b (unat v div b) \<noteq> []" using False b(1) by (simp add: rdigits_Nil_iff)
    ultimately have room: "length (buf @ [?c]) + length (rdigits b (unat (v div of_nat b))) \<le> 32"
      "length (buf @ [?c]) < 32"
      using "1.prems" d by (cases "rdigits b (unat v div b)"; simp)+
    have "ntoa_loop (v div of_nat b) (of_nat b) flags (buf @ [?c])
      = (buf @ [?c]) @ map (\<lambda>d. digit_char (of_nat d) flags) (rev (digits b (unat (v div of_nat b))))"
      using "1.hyps" [OF refl refl] nz room unfolding c by blast
    then show ?thesis
      using False pos rd nz room by (subst ntoa_loop.simps) (simp add: c d digits_def)
  qed
qed

lemma all_less_10: "(\<forall>d<10. P d) \<longleftrightarrow> (\<forall>d\<in>set [0..<10]. P (d :: nat))"
  by auto

lemma digit_char_decimal: "d < 10 \<Longrightarrow> digit_char (of_nat d) flags = digit_byte d"
proof -
  have "\<forall>d<10. digit_char (of_nat d) flags = digit_byte d"
    unfolding all_less_10 digit_char_def digit_byte_def by (simp add: upt_rec word_sless_alt)
  then show "d < 10 \<Longrightarrow> digit_char (of_nat d) flags = digit_byte d" by blast
qed

lemma ntoa_loop_decimal:
  "ntoa_loop (v :: u32) 10 flags [] = rev (number_text 10 (unat v))"
proof -
  have "unat v < 10 ^ 10" using unat_u32_less [of v] by (rule less_trans) simp
  then have "length (rdigits 10 (unat v)) \<le> 10" by (rule length_rdigits)
  then have "ntoa_loop v (of_nat 10) flags []
      = map (\<lambda>d. digit_char (of_nat d) flags) (rev (digits 10 (unat v)))"
    by (subst ntoa_loop_eq) simp_all
  also have "\<dots> = rev (number_text 10 (unat v))"
    using digits_less [of 10 _ "unat v"] by (simp add: number_text_def rev_map digit_char_decimal)
  finally show ?thesis by simp
qed

text \<open>The text of a signed number.\<close>

definition decimal_text :: "u32 \<Rightarrow> u8 list" where
  "decimal_text v = (if v <s 0 then [chr CHR ''-''] else []) @ number_text 10 (nat \<bar>sint v\<bar>)"

subsection \<open>What \<open>snprintf\<close> leaves in its buffer\<close>

lemma take_terminated:
  assumes "0 < count" "length cs < 2 ^ 32"
  shows "out_call Out_buffer 0 b
      (if of_nat (length cs) < count then of_nat (length cs) else count - 1) count
      (s\<lparr>ram := wr (ram s) b (take (unat count) cs)\<rparr>)
    = s\<lparr>ram := (wr (ram s) b (take (unat count - 1) cs))
        (b + of_nat (length (take (unat count - 1) cs)) := 0)\<rparr>"
proof (cases "length cs < unat count")
  case True
  then have "of_nat (length cs) < count" using assms(2) by (simp add: word_less_nat_alt unat_of_nat_u32)
  with True show ?thesis by simp
next
  case False
  then have ge: "\<not> of_nat (length cs) < count"
    using assms(2) by (simp add: word_less_nat_alt unat_of_nat_u32)
  have c: "0 < unat count" using assms(1) by (simp add: word_less_nat_alt)
  have c1: "count - 1 < count" "count - 1 = of_nat (unat count - 1)"
    using assms(1) c by (auto simp: of_nat_diff) (metis measure_unat word_less_nat_alt word_neq_0_conv)
  let ?t = "take (unat count - 1) cs"
  have "take (unat count) cs = ?t @ [cs ! (unat count - 1)]"
    using False c take_Suc_conv_app_nth [of "unat count - 1" cs] by simp
  moreover have "length ?t = unat count - 1" using False by simp
  ultimately show ?thesis using ge c1 by (simp add: wr_append)
qed

lemma snprintf_result:
  assumes "vsn_loop fp Out_buffer b count fmt va (0, s) = Some (emits Out_buffer b count t (0, s))"
    and "length t < 2 ^ 32" "b \<noteq> 0" "0 < count"
  shows "snprintf fp b count fmt va s
    = Some (of_nat (length t), s\<lparr>ram := wr (ram s) b (take (unat count - 1) t @ [0])\<rparr>)"
  using take_terminated [OF assms(4,2), of b s] assms
  by (simp add: snprintf_def vsnprintf_core_def emits_buffer wr_append del: out_call.simps split del: if_split cong: if_cong)

lemma snprintf_text:
  assumes loop: "vsn_loop fp Out_buffer b count fmt va (0, s) = Some (emits Out_buffer b count t (0, s))"
    and t: "0 \<notin> set t" "length t < 2 ^ 32" and b: "b \<noteq> 0" "0 < count"
  shows "\<exists>s'. snprintf fp b count fmt va s = Some (of_nat (length t), s')
    \<and> cstr (ram s') b (take (unat count - 1) t)
    \<and> s' = s\<lparr>ram := ram s'\<rparr> \<and> (\<forall>q. q \<notin> span b (unat count) \<longrightarrow> ram s' q = ram s q)"
proof -
  let ?t = "take (unat count - 1) t"
  let ?m = "wr (ram s) b (?t @ [0])"
  have "cstr ?m b ?t"
  proof -
    have "0 \<notin> set ?t" "length ?t < 2 ^ 32" using t set_take_subset [of "unat count - 1" t] by auto
    from cstr_wr [OF this, of "ram s" b] show ?thesis by (simp add: wr_append)
  qed
  moreover have "?m q = ram s q" if "q \<notin> span b (unat count)" for q
  proof (rule wr_other)
    have "0 < unat count" using b(2) by (simp add: word_less_nat_alt)
    then have "length (?t @ [0]) \<le> unat count" by simp
    with that show "q \<notin> span b (length (?t @ [0]))" using span_mono by blast
  qed
  ultimately show ?thesis using snprintf_result [OF loop t(2) b] by auto
qed

lemma length_number_text_u32: "n < 2 ^ 32 \<Longrightarrow> length (number_text 10 n) \<le> 10"
  by (simp add: length_digits)

lemma int_text_plain:
  "int_text (v :: u32) neg 10 10 0 0 0
     = (if neg then [chr CHR ''-''] else []) @ number_text 10 (unat v)"
proof -
  have "length (number_text 10 (unat v)) \<le> 10" by (intro length_number_text_u32) simp
  then show ?thesis
    by (simp add: int_text_def ntoa_text_def ntoa_zeros_def ntoa_hash_def ntoa_sign_def
        rev_text_def has_def zero_fill.simps [of 0] ntoa_loop_decimal)
qed

lemma unat_magnitude: "unat (magnitude (v :: 'a :: len word)) = nat \<bar>sint v\<bar>"
proof (cases "0 <s v")
  case True
  then have s: "0 < sint v" by (simp add: word_sless_alt)
  have "sint v < 2 ^ LENGTH('a)"
    using sint_lt [of v] by (rule less_le_trans) (intro power_increasing, simp_all)
  then have "uint v = sint v" using s unfolding uint_sint by (intro take_bit_int_eq_self) simp_all
  then have "unat v = nat \<bar>sint v\<bar>" using s by (metis abs_of_pos unat_eq_nat_uint)
  with True show ?thesis by (simp add: magnitude_def)
next
  case False
  then have neg: "sint v \<le> 0" by (simp add: word_sless_alt)
  have "(0 :: 'a word) - v = word_of_int (- sint v)" by simp
  moreover have "- sint v < 2 ^ LENGTH('a)"
  proof -
    have "- sint v \<le> 2 ^ (LENGTH('a) - 1)" using sint_ge [of v] by simp
    also have "\<dots> < 2 ^ LENGTH('a)" by (intro power_strict_increasing) simp_all
    finally show ?thesis .
  qed
  ultimately have "unat (0 - v) = nat (- sint v)"
    using neg by (simp only: unat_eq_nat_uint uint_word_of_int_eq) (simp add: take_bit_int_eq_self)
  with False neg show ?thesis by (simp add: magnitude_def)
qed

lemma conv_int_decimal:
  "conv_int out b ml (chr CHR ''d'') 0 0 0 (v # va) p = Some (va, emits out b ml (decimal_text v) p)"
  by (simp add: conv_int_def int_flags_def int_base_def has_def Let_def ntoa_long_emits
      int_text_plain unat_magnitude decimal_text_def)

lemma conv_int_unsigned:
  "conv_int out b ml (chr CHR ''u'') 0 0 0 (v # va) p
     = Some (va, emits out b ml (number_text 10 (unat v)) p)"
  by (simp add: conv_int_def int_flags_def int_base_def has_def Let_def ntoa_long_emits int_text_plain)

lemma vsn_loop_one:
  assumes "c \<in> set (bytes ''du'')" "conv_int out b ml c 0 0 0 va p = Some (va', p')"
  shows "vsn_loop fp out b ml [chr CHR ''%'', c] va p = Some p'"
  using assms
  by (auto simp: parse_directive_def parse_width_def parse_precision_def parse_length_def
      is_digit_def word_sle_eq convert_def)

lemma vsn_loop_trailing:
  "chr CHR ''%'' \<notin> set fmt \<Longrightarrow> vsn_loop fp out b ml (fmt @ [chr CHR ''%'']) va p = None"
  by (induction fmt arbitrary: p)
    (simp_all add: parse_directive_def parse_width_def parse_precision_def parse_length_def
      is_digit_def word_sle_eq)

subsection \<open>Precision beyond the power table\<close>

lemma limit_prec_eq:
  "length buf \<le> 32 \<Longrightarrow> unat (fst (limit_prec prec buf))
     = unat prec - min (32 - length buf) (unat prec - 9)"
proof (induction prec buf rule: limit_prec.induct)
  case (1 prec buf)
  show ?case
  proof (cases "room buf \<and> 9 < prec")
    case True
    then have "prec \<noteq> 0" by auto
    then have "unat (prec - 1) = unat prec - 1" by (rule unat_dec)
    moreover have "9 < unat prec" using True by (simp add: word_less_nat_alt)
    ultimately show ?thesis using 1 True by (subst limit_prec.simps) (auto simp: min_def)
  next
    case False
    then show ?thesis
      by (subst limit_prec.simps) (auto simp: word_less_nat_alt not_less)
  qed
qed

lemma float_conv_far_precision:
  assumes "fp_eq fp v v" "\<not> fp_lt fp v (fp_neg fp (fp_dbl_max fp))" "\<not> fp_lt fp (fp_dbl_max fp) v"
    and "\<not> fp_lt fp (fp_dec fp 1 9) v" "\<not> fp_lt fp v (fp_neg fp (fp_dec fp 1 9))"
    and "has flags FLAGS_PRECISION" "41 < prec"
  shows "float_conv fp False out b ml v prec w flags p = None"
proof -
  have "9 < unat (fst (limit_prec prec []))"
    using assms(7) limit_prec_eq [of "[]" prec] by (simp add: word_less_nat_alt)
  then have "pow10 fp (fst (limit_prec prec [])) = None"
    by (simp add: pow10_def word_le_nat_alt)
  then show ?thesis
    using assms(1-6) by (simp add: float_conv.simps [of fp False] ftoa_fixed_def case_prod_beta)
qed

subsection \<open>Properties\<close>

text \<open>C3: Whatever the format, the arguments and the floating-point unit, a call of \<open>snprintf\<close> that
  returns a result in the model has written only to the \<open>count\<close> bytes of its buffer and has changed no
  other part of the state; with a null buffer it has changed nothing at all.  Calls without a result are
  those that read an argument that is not there, a string without end, the table of \<open>_ftoa\<close> behind
  its end (\<open>float_precision_overruns_table\<close>) or the format behind its terminator
  (\<open>trailing_percent_undefined\<close>); nothing is said of them.\<close>

theorem snprintf_stays_in_buffer:
  assumes "snprintf fp buffer count fmt va s = Some (n, s')"
  shows "if buffer = 0 then s' = s
    else s' = s\<lparr>ram := ram s'\<rparr> \<and> same_outside (span buffer (unat count)) (ram s) (ram s')"
proof (cases "buffer = 0")
  case True
  with assms obtain s1 where s1: "vsn_loop fp Out_null buffer count fmt va (0, s) = Some (n, s1)"
    "s' = s1" by (auto simp: snprintf_def vsnprintf_core_def bind_eq_Some_conv)
  from vsn_loop_emits [OF s1(1)] obtain cs where "(n, s1) = emits Out_null buffer count cs (0, s)" .
  then have "s1 = s" by (metis emits_null snd_conv)
  with s1 True show ?thesis by simp
next
  case False
  with assms obtain s1 i where s1: "vsn_loop fp Out_buffer buffer count fmt va (0, s) = Some (n, s1)"
    "s' = out_call Out_buffer 0 buffer i count s1"
    by (auto simp: snprintf_def vsnprintf_core_def bind_eq_Some_conv simp del: out_call.simps)
  from vsn_loop_emits [OF s1(1)] obtain cs where "(n, s1) = emits Out_buffer buffer count cs (0, s)" .
  then have "within buffer (unat count) s s1" by (metis within_emits snd_conv)
  then have "within buffer (unat count) s s'"
    unfolding s1(2) by (rule within_trans) (rule within_put)
  with False show ?thesis by (simp add: within_def same_outside_def)
qed

definition int_fpu :: "int fpu" where
  "int_fpu = \<lparr>fp_arg = (\<lambda>w. sint (fst w)), fp_dec = (\<lambda>m e. m * 10 ^ nat e), fp_dbl_max = 10 ^ 300,
     fp_eq = (=), fp_lt = (<), fp_le = (\<le>), fp_add = (+), fp_sub = (-), fp_mul = (*),
     fp_div = (div), fp_neg = uminus, fp_of_int = sint, fp_of_ulong = uint,
     fp_to_int = word_of_int, fp_to_ulong = word_of_int, fp_bits = word_of_int, fp_of_bits = uint\<rparr>"

text \<open>Three characters into a buffer of two: the call returns 3 and only the buffer has changed.\<close>

theorem snprintf_stays_in_buffer_witness:
  "\<exists>s'. snprintf int_fpu 16 2 [65, 66, 67] [] (initial_machine (\<lambda>_. 1) []) = Some (3, s')
    \<and> s' = (initial_machine (\<lambda>_. 1) [])\<lparr>ram := ram s'\<rparr> \<and> same_outside (span 16 2) (\<lambda>_. 1) (ram s')
    \<and> ram s' 16 = 65 \<and> ram s' 17 = 0 \<and> ram s' 18 = 1"
proof -
  let ?s = "initial_machine (\<lambda>_. 1) []" and ?m = "(\<lambda>_. 1)(16 := 65, 17 := 66, 17 := 0) :: mem"
  have r: "snprintf int_fpu 16 2 [65, 66, 67] [] ?s = Some (3, ?s\<lparr>ram := ?m\<rparr>)"
    by (simp add: snprintf_def vsnprintf_core_def put1_def)
  from snprintf_stays_in_buffer [OF r] r show ?thesis by simp
qed

text \<open>\<open>snprintf\<close> with the format \<open>%d\<close> returns for every argument; its result is the length of
  the decimal text of the number, of which the buffer holds, terminated, as much as fits in
  \<open>count\<close> bytes; nothing outside the buffer changes.\<close>

theorem snprintf_decimal:
  assumes "buffer \<noteq> 0" "0 < count"
  shows "\<exists>s'. snprintf fp buffer count (bytes ''%d'') [v] s
        = Some (of_nat (length (decimal_text v)), s')
    \<and> cstr (ram s') buffer (take (unat count - 1) (decimal_text v))
    \<and> s' = s\<lparr>ram := ram s'\<rparr> \<and> same_outside (span buffer (unat count)) (ram s) (ram s')"
  unfolding same_outside_def
proof (rule snprintf_text)
  show "vsn_loop fp Out_buffer buffer count (bytes ''%d'') [v] (0, s)
      = Some (emits Out_buffer buffer count (decimal_text v) (0, s))"
    using vsn_loop_one [OF _ conv_int_decimal] by simp
  show "0 \<notin> set (decimal_text v)"
    using number_text_nonzero [of 10] by (simp add: decimal_text_def)
  have "unat (magnitude v) < 2 ^ 32" by simp
  then have "length (number_text 10 (nat \<bar>sint v\<bar>)) \<le> 10"
    unfolding unat_magnitude by (rule length_number_text_u32)
  then show "length (decimal_text v) < 2 ^ 32" by (simp add: decimal_text_def)
qed (rule assms)+

theorem snprintf_decimal_witness:
  "\<exists>s'. snprintf int_fpu 0x100 8 (bytes ''%d'') [- 42] (initial_machine (\<lambda>_. 0) [])
        = Some (of_nat (length (decimal_text (- 42))), s')
    \<and> cstr (ram s') 0x100 (take (unat (8 :: u32) - 1) (decimal_text (- 42)))
    \<and> s' = (initial_machine (\<lambda>_. 0) [])\<lparr>ram := ram s'\<rparr>
    \<and> same_outside (span 0x100 (unat (8 :: u32))) (ram (initial_machine (\<lambda>_. 0) [])) (ram s')"
  by (rule snprintf_decimal) simp_all

text \<open>C8: Every 32-bit number printed with \<open>%u\<close> into a buffer with room for its digits is read back
  by \<open>atoi\<close> from that buffer.\<close>

theorem snprintf_atoi_roundtrip:
  assumes "buffer \<noteq> 0" "10 < count"
  shows "\<exists>n s'. snprintf fp buffer count (bytes ''%u'') [v] s = Some (n, s')
    \<and> atoi buffer (ram s') = Some v"
proof -
  have len: "length (number_text 10 (unat v)) \<le> 10" by (intro length_number_text_u32) simp
  have "vsn_loop fp Out_buffer buffer count (bytes ''%u'') [v] (0, s)
      = Some (emits Out_buffer buffer count (number_text 10 (unat v)) (0, s))"
    using vsn_loop_one [OF _ conv_int_unsigned] by simp
  moreover have "0 < count" using assms(2) by (rule le_less_trans [rotated]) simp
  ultimately have "\<exists>s'. snprintf fp buffer count (bytes ''%u'') [v] s
        = Some (of_nat (length (number_text 10 (unat v))), s')
    \<and> cstr (ram s') buffer (take (unat count - 1) (number_text 10 (unat v)))
    \<and> s' = s\<lparr>ram := ram s'\<rparr> \<and> same_outside (span buffer (unat count)) (ram s) (ram s')"
    using number_text_nonzero [of 10] len assms(1)
    unfolding same_outside_def by (intro snprintf_text) simp_all
  moreover have "take (unat count - 1) (number_text 10 (unat v)) = number_text 10 (unat v)"
    using len assms(2) by (simp add: word_less_nat_alt)
  ultimately obtain s' where s': "snprintf fp buffer count (bytes ''%u'') [v] s
        = Some (of_nat (length (number_text 10 (unat v))), s')"
    "cstr (ram s') buffer (number_text 10 (unat v))" by auto
  have "atoi buffer (ram s') = Some (of_nat (unat v))"
    using atoi_number_text [OF _ _ s'(2)] by (simp add: atoi_def)
  with s'(1) show ?thesis by simp
qed

theorem snprintf_atoi_roundtrip_witness:
  "\<exists>n s'. snprintf int_fpu 0x100 16 (bytes ''%u'') [4000000000] (initial_machine (\<lambda>_. 0) []) = Some (n, s')
    \<and> atoi 0x100 (ram s') = Some 4000000000"
  by (rule snprintf_atoi_roundtrip) simp_all

text \<open>\<open>printf\<close> of a text without directives puts its characters in order on the console and
  returns their number.\<close>

theorem printf_literal_shows:
  assumes "chr CHR ''%'' \<notin> set fmt" "0 \<notin> set fmt" "8 \<notin> set fmt" "term_ok s"
  shows "\<exists>s'. printf fp fmt va s = Some (of_nat (length fmt), s')
    \<and> view s' = fold char_put fmt (view s) \<and> term_ok s'
    \<and> same_outside vga_window (ram s) (ram s')"
  using assms print_view [of s fmt] by (simp add: printf_literal)

theorem printf_literal_shows_witness:
  "\<exists>s'. printf int_fpu (bytes ''Hello from C'') [] (initial_machine (\<lambda>_. 0) [])
        = Some (of_nat (length (bytes ''Hello from C'')), s')
    \<and> view s' = fold char_put (bytes ''Hello from C'') (view (initial_machine (\<lambda>_. 0) []))
    \<and> term_ok s' \<and> same_outside vga_window (ram (initial_machine (\<lambda>_. 0) [])) (ram s')"
  by (rule printf_literal_shows) simp_all

text \<open>A format that ends in a lone percent sign makes every function of the \<open>printf\<close> family step
  over the terminator: no call with such a format has a defined result.\<close>

theorem trailing_percent_undefined:
  assumes "chr CHR ''%'' \<notin> set fmt"
  shows "vsnprintf_core fp out b ml (fmt @ [chr CHR ''%'']) va s = None"
  unfolding vsnprintf_core_def Let_def vsn_loop_trailing [OF assms] by simp

theorem trailing_percent_undefined_witness:
  "vsnprintf_core int_fpu Out_char 1 (- 1) (bytes ''100'' @ [chr CHR ''%'']) [] (initial_machine (\<lambda>_. 0) []) = None"
  by (rule trailing_percent_undefined) simp

text \<open>\<open>_ftoa\<close> limits an explicit precision to 9 only as long as its 32-byte buffer has room for
  the zeros: with a precision of 42 or more it indexes its table of powers of ten past the
  end, for every finite value in its range.\<close>

theorem float_precision_overruns_table:
  assumes "fp_eq fp v v" "\<not> fp_lt fp v (fp_neg fp (fp_dbl_max fp))" "\<not> fp_lt fp (fp_dbl_max fp) v"
    and "\<not> fp_lt fp (fp_dec fp 1 9) v" "\<not> fp_lt fp v (fp_neg fp (fp_dec fp 1 9))"
    and "has flags FLAGS_PRECISION" "41 < prec"
  shows "float_conv fp False out b ml v prec w flags p = None"
  using assms by (rule float_conv_far_precision)

theorem float_precision_overruns_table_witness:
  "float_conv int_fpu False Out_null 0 0 3 50 0 FLAGS_PRECISION (0, initial_machine (\<lambda>_. 0) []) = None"
  by (rule float_precision_overruns_table) (simp_all add: int_fpu_def has_def)

end
