(* ===== verification/Printf_Sink.thy ===== *)
theory Printf_Sink
  imports Printf_Spec
begin

text \<open>
  Where formatted output goes: the interface \<open>text_sink\<close> of an output function, its invariant
  and the memory it leaves alone, with the lemmas on string conversions that rest on it
  alone.  The string a conversion reads is in the memory that the output may change, so
  they need that law.  The bounded buffer and the console are the two sinks of the program.
\<close>

subsection \<open>The interface\<close>

locale text_sink =
  fixes out :: out_fct and b :: u32 and ml :: u32 and inv :: "machine \<Rightarrow> bool"
    and safe :: "u8 \<Rightarrow> bool" and kept :: "u32 set"
  assumes put_inv: "inv s \<Longrightarrow> safe c \<Longrightarrow> inv (out_call out c b i ml s)"
    and put_kept: "inv s \<Longrightarrow> safe c \<Longrightarrow> q \<in> kept \<Longrightarrow> ram (out_call out c b i ml s) q = ram s q"
    and safe_space: "safe (chr CHR '' '')"
begin

lemma put1_inv: "inv (snd p) \<Longrightarrow> safe c \<Longrightarrow> inv (snd (put1 out b ml c p))"
  by (simp add: put1_def put_inv)

lemma emits_inv: "inv (snd p) \<Longrightarrow> \<forall>c \<in> set cs. safe c \<Longrightarrow> inv (snd (emits out b ml cs p))"
  by (induction cs arbitrary: p) (simp_all add: put1_inv)

lemma emits_kept:
  "inv (snd p) \<Longrightarrow> \<forall>c \<in> set cs. safe c \<Longrightarrow> q \<in> kept \<Longrightarrow> ram (snd (emits out b ml cs p)) q = ram (snd p) q"
  by (induction cs arbitrary: p) (simp_all add: put1_inv put1_def put_kept put_inv)

lemma emits_cstr:
  assumes "inv (snd p)" "\<forall>c \<in> set cs. safe c" "span q (Suc (length t)) \<subseteq> kept"
  shows "cstr (ram (snd (emits out b ml cs p))) q t \<longleftrightarrow> cstr (ram (snd p)) q t"
  using emits_kept [OF assms(1,2)] assms(3) by (intro cstr_cong) blast

end

subsection \<open>The text of a string conversion\<close>

text \<open>At most \<open>prec\<close> characters, padded with spaces.\<close>

definition c_string :: "bool \<Rightarrow> nat \<Rightarrow> nat option \<Rightarrow> u8 list \<Rightarrow> u8 list" where
  "c_string left width prec t =
     (let t' = (case prec of None \<Rightarrow> t | Some k \<Rightarrow> take k t);
          pad = replicate (width - length t') (chr CHR '' '')
      in if left then t' @ pad else pad @ t')"

lemma strnlen_loop_eq:
  "cstr m q t \<Longrightarrow> strnlen_loop n m q = q + of_nat (min n (length t))"
proof (induction t arbitrary: q n)
  case Nil
  then show ?case by (cases n) simp_all
next
  case (Cons x t)
  then show ?case by (cases n) (simp_all add: add.assoc)
qed

lemma strnlen_s_eq: "cstr m q t \<Longrightarrow> strnlen_s m q n = of_nat (min (unat n) (length t))"
  by (simp add: strnlen_s_def strnlen_loop_eq)

lemma unat_dec_nat: "unat (w - 1 :: u32) = (if w = 0 then 4294967295 else unat w - 1)"
  using unat_dec [of w] by auto

text \<open>The loop over the string, and the conversion.\<close>

context text_sink
begin

lemma str_loop_text:
  "inv (snd p) \<Longrightarrow> \<forall>c \<in> set (if lim then take (unat pr) t else t). safe c \<Longrightarrow> cstr (ram (snd p)) q t
     \<Longrightarrow> span q (Suc (length t)) \<subseteq> kept \<Longrightarrow> str_loop out b ml lim pr q p = Some (emits out b ml (if lim then take (unat pr) t else t) p)"
proof (induction t arbitrary: q p pr)
  case Nil
  then show ?case by (simp add: str_loop.simps [of out b ml lim pr q p])
next
  case (Cons x t)
  let ?p = "put1 out b ml x p"
  have sub: "span (q + 1) (Suc (length t)) \<subseteq> kept" using Cons.prems(4) by (simp add: span_Suc [of q])
  have x: "ram (snd p) q = x" "x \<noteq> 0" using Cons.prems(3) by simp_all
  show ?case
  proof (cases "lim \<and> pr = 0")
    case True
    then show ?thesis by (subst str_loop.simps) simp
  next
    case False
    then have safe: "safe x" "\<forall>c \<in> set (if lim then take (unat (if lim then pr - 1 else pr)) t else t). safe c"
      using Cons.prems(2) by (auto simp: unat_dec_nat take_Cons' unat_eq_zero split: if_splits)
    have str: "cstr (ram (snd ?p)) (q + 1) t"
      using emits_cstr [of p "[x]" "q + 1" t] Cons.prems(1,3) safe(1) sub by simp
    from False have "str_loop out b ml lim pr q p
        = str_loop out b ml lim (if lim then pr - 1 else pr) (q + 1) ?p"
      using x by (subst str_loop.simps) simp
    also have "\<dots> = Some (emits out b ml (if lim then take (unat (if lim then pr - 1 else pr)) t else t) ?p)"
      using put1_inv [OF Cons.prems(1) safe(1)] safe(2) str sub by (intro Cons.IH)
    also have "\<dots> = Some (emits out b ml (if lim then take (unat pr) (x # t) else x # t) p)"
      using False by (auto simp: unat_dec_nat take_Cons' unat_eq_zero)
    finally show ?thesis .
  qed
qed

lemma conv_str_text:
  assumes i: "inv (snd p)" "\<forall>c \<in> set (if has fl FLAGS_PRECISION then take (unat pr) t else t). safe c" and t: "cstr (ram (snd p)) q t"
    and k: "span q (Suc (length t)) \<subseteq> kept"
    and len: "length t < 2 ^ 32 - 1" and pr: "\<not> has fl FLAGS_PRECISION \<Longrightarrow> pr = 0"
  shows "conv_str out b ml fl w pr (q # va) p = Some (va, emits out b ml
    (c_string (has fl FLAGS_LEFT) (unat w) (if has fl FLAGS_PRECISION then Some (unat pr) else None) t) p)"
proof -
  let ?lim = "has fl FLAGS_PRECISION"
  let ?t = "if ?lim then take (unat pr) t else t"
  let ?len = "strnlen_s (ram (snd p)) q (if pr \<noteq> 0 then pr else - 1)"
  let ?l = "if ?lim then (if ?len < pr then ?len else pr) else ?len"
  have l0: "unat ?len = (if pr \<noteq> 0 then min (unat pr) (length t) else length t)"
    using len by (simp add: strnlen_s_eq [OF t] unat_of_nat_u32)
  have "unat (if ?lim then (if l < pr then l else pr) else l) = length ?t"
    if "unat l = (if pr \<noteq> 0 then min (unat pr) (length t) else length t)" for l
    using that pr by (cases "pr = 0") (auto simp: word_less_nat_alt min_def)
  from this [OF l0] have l: "unat ?l = length ?t" .
  have pad: "pad_loop out b ml ?l w p' = emits out b ml (replicate (unat w - length ?t) 32) p'" for p'
    unfolding pad_loop_emits l ..
  let ?p1 = "if \<not> has fl FLAGS_LEFT then emits out b ml (replicate (unat w - length ?t) 32) p else p"
  have sp: "\<forall>c \<in> set (replicate n 32). safe c" for n using safe_space by simp
  have "cstr (ram (snd ?p1)) q t" "inv (snd ?p1)"
    using t emits_cstr [OF i(1) sp k] emits_inv [OF i(1) sp] i(1) by auto
  then have "str_loop out b ml ?lim pr q ?p1 = Some (emits out b ml ?t ?p1)"
    using i(2) k by (intro str_loop_text)
  then show ?thesis
    unfolding conv_str_def va_arg.simps bind.bind_lunit case_prod_conv Let_def pad
    by (simp add: c_string_def emits_append split del: if_split) (simp add: emits_append)
qed

end

subsection \<open>The sinks of the program\<close>

text \<open>\<open>snprintf\<close> writes within its buffer.\<close>

interpretation buffer_sink: text_sink Out_buffer b ml "\<lambda>_. True" "\<lambda>_. True" "- span b (unat ml)" for b ml
proof (unfold_locales, goal_cases)
  case (2 s c q i)
  have "i < ml \<Longrightarrow> b + i \<in> span b (unat ml)"
    using in_spanI [of "unat i" "unat ml" b] by (simp add: word_less_nat_alt)
  with 2 show ?case by auto
qed simp_all

text \<open>\<open>printf\<close> writes the VGA window, while the cursor stays on the screen.\<close>

interpretation console_sink: text_sink Out_char b ml term_ok "\<lambda>c. c \<noteq> 8" "- vga_window" for b ml
proof (unfold_locales, goal_cases)
  case (1 s c i)
  then show ?case using print_view [of s "[c]"] by simp
next
  case (2 s c q i)
  then show ?case using print_view [of s "[c]"] by (simp add: same_outside_def)
qed simp

end
