(* ===== verification/Printf_Layout.thy ===== *)
theory Printf_Layout
  imports Printf_Sink
begin

text \<open>
  The layout of a number by \<open>_ntoa_format\<close> of \<open>printf.c\<close>, sign, base prefix, digits, zeros and
  field width, and its digits by \<open>_ntoa_long\<close>: what they should be, and when they are.
\<close>

subsection \<open>Flags as sets of bits\<close>

lemma has_bit:
  "has f 1 = bit f 0" "has f 2 = bit f 1" "has f 4 = bit f 2" "has f 8 = bit f 3"
  "has f 16 = bit f 4" "has f 32 = bit f 5" "has f 64 = bit f 6" "has f 128 = bit f 7"
  "has f 256 = bit f 8" "has f 512 = bit f 9" "has f 1024 = bit f 10" "has f 2048 = bit f 11"
proof -
  have mask: "has f (push_bit n 1) \<longleftrightarrow> bit f n" if "n < 32" for n
  proof
    assume "has f (push_bit n 1)"
    then obtain k where "bit (f AND push_bit n 1) k" unfolding has_def by (auto simp: bit_eq_iff)
    then show "bit f n" by (auto simp: bit_simps)
  next
    assume "bit f n"
    with that have "bit (f AND push_bit n 1) n" by (simp add: bit_simps)
    then show "has f (push_bit n 1)" unfolding has_def by force
  qed
  show "has f 1 = bit f 0" "has f 2 = bit f 1" "has f 4 = bit f 2" "has f 8 = bit f 3"
    "has f 16 = bit f 4" "has f 32 = bit f 5" "has f 64 = bit f 6" "has f 128 = bit f 7"
    "has f 256 = bit f 8" "has f 512 = bit f 9" "has f 1024 = bit f 10" "has f 2048 = bit f 11"
    using mask [of 0] mask [of 1] mask [of 2] mask [of 3] mask [of 4] mask [of 5] mask [of 6]
      mask [of 7] mask [of 8] mask [of 9] mask [of 10] mask [of 11]
    by (simp_all add: push_bit_eq_mult)
qed

lemma has_or: "has f (a OR b) \<longleftrightarrow> has f a \<or> has f b"
  unfolding has_def by (simp add: bit_eq_iff) (auto simp: bit_simps)

subsection \<open>The layout of a number\<close>

text \<open>Sign, digits, minimum number of digits, field width: left-justified, padded with zeros, or
  right-justified.\<close>

definition c_layout :: "bool \<Rightarrow> bool \<Rightarrow> nat \<Rightarrow> nat \<Rightarrow> u8 list \<Rightarrow> u8 list \<Rightarrow> u8 list" where
  "c_layout left zero width prec sign ds =
     (let body = replicate (prec - length ds) (chr CHR ''0'') @ ds;
          pad = width - (length sign + length body)
      in if left then sign @ body @ replicate pad (chr CHR '' '')
         else if zero then sign @ replicate pad (chr CHR ''0'') @ body
         else replicate pad (chr CHR '' '') @ sign @ body)"

definition sign_chars :: "bool \<Rightarrow> bool \<Rightarrow> bool \<Rightarrow> u8 list" where
  "sign_chars negative pl sp =
     (if negative then [chr CHR ''-''] else if pl then [chr CHR ''+'']
      else if sp then [chr CHR '' ''] else [])"

lemma zero_fill_eq:
  "length buf \<le> 32 \<Longrightarrow>
   zero_fill limit buf = buf @ replicate (min (unat limit) 32 - length buf) (chr CHR ''0'')"
proof (induction limit buf rule: zero_fill.induct)
  case (1 limit buf)
  show ?case
  proof (cases "length buf < unat limit \<and> length buf < 32")
    case True
    then have "min (unat limit) 32 - length buf
        = Suc (min (unat limit) 32 - length (buf @ [chr CHR ''0'']))" by auto
    with 1 True show ?thesis by (subst zero_fill.simps) simp
  next
    case False
    with 1 show ?thesis by (subst zero_fill.simps) auto
  qed
qed


text \<open>\<open>_ntoa_format\<close> without the base prefix lays a number out as it should be, when the sign
  and the zeros fit in its 32-byte buffer; a left-justified number has lost its precision.\<close>

lemma length_sign_chars: "length (sign_chars n p q) \<le> 1"
  by (simp add: sign_chars_def)

lemma ntoa_sign_eq:
  "length buf + length (sign_chars neg (has fl FLAGS_PLUS) (has fl FLAGS_SPACE)) \<le> 32 \<Longrightarrow>
   ntoa_sign neg fl buf = buf @ sign_chars neg (has fl FLAGS_PLUS) (has fl FLAGS_SPACE)"
  by (auto simp: ntoa_sign_def sign_chars_def split: if_splits)

lemma ntoa_text_layout:
  fixes fl :: u32 and neg :: bool
  defines "sign \<equiv> sign_chars neg (has fl FLAGS_PLUS) (has fl FLAGS_SPACE)"
  assumes hash: "\<not> has fl FLAGS_HASH" and buf: "length buf + length sign \<le> 32"
    and left: "has fl FLAGS_LEFT \<Longrightarrow> prec = 0"
    and right: "\<not> has fl FLAGS_LEFT \<Longrightarrow> unat prec + length sign \<le> 32"
    and zero: "has fl FLAGS_ZEROPAD \<Longrightarrow> \<not> has fl FLAGS_LEFT \<Longrightarrow> unat width \<le> 32"
  shows "ntoa_text buf neg base prec width fl
    = c_layout (has fl FLAGS_LEFT) (has fl FLAGS_ZEROPAD) (unat width) (unat prec) sign (rev buf)"
proof (cases "has fl FLAGS_LEFT")
  case True
  then show ?thesis
    using left buf hash unfolding sign_def
    by (simp add: ntoa_text_def ntoa_zeros_def ntoa_hash_def ntoa_sign_eq rev_text_def c_layout_def
        Let_def add.commute) (simp add: sign_chars_def)
next
  case False
  let ?z = "chr CHR ''0''"
  have s1: "length sign \<le> 1" unfolding sign_def by (rule length_sign_chars)
  have rs: "rev sign = sign" unfolding sign_def by (simp add: sign_chars_def)
  have prec: "unat prec + length sign \<le> 32" using right False by blast
  let ?b1 = "buf @ replicate (unat prec - length buf) ?z"
  have b1: "zero_fill prec buf = ?b1" using buf prec by (simp add: zero_fill_eq min_def)
  have l1: "length ?b1 + length sign \<le> 32" using buf prec by simp
  show ?thesis
  proof (cases "has fl FLAGS_ZEROPAD")
    case False
    then show ?thesis
      using \<open>\<not> has fl FLAGS_LEFT\<close> hash l1 rs ntoa_sign_eq [of ?b1 neg fl]
      by (simp add: ntoa_text_def ntoa_zeros_def ntoa_hash_def rev_text_def c_layout_def b1
          sign_def [symmetric] add.commute)
  next
    case True
    define w1 where "w1 = (if width \<noteq> 0 \<and> (neg \<or> has fl (FLAGS_PLUS OR FLAGS_SPACE)) then width - 1 else width)"
    have ls: "length sign = (if neg \<or> has fl (FLAGS_PLUS OR FLAGS_SPACE) then 1 else 0)"
      using has_or [of fl FLAGS_PLUS FLAGS_SPACE] by (simp add: sign_def sign_chars_def)
    then have w1: "unat w1 = unat width - length sign" by (auto simp: w1_def unat_dec_nat)
    have wz: "unat width \<le> 32" using zero True \<open>\<not> has fl FLAGS_LEFT\<close> by blast
    let ?b2 = "?b1 @ replicate (unat w1 - length ?b1) ?z"
    have b2: "zero_fill w1 ?b1 = ?b2"
      using l1 wz by (subst zero_fill_eq) (simp_all add: w1 min_def)
    have l2: "length ?b2 + length sign \<le> 32" using l1 wz w1 s1 by (auto simp: max_def)
    have z: "ntoa_zeros neg prec width fl buf = (?b2, w1)"
      using True \<open>\<not> has fl FLAGS_LEFT\<close> b1 b2 by (simp add: ntoa_zeros_def w1_def Let_def)
    have "ntoa_text buf neg base prec width fl = rev (?b2 @ sign)"
      using \<open>\<not> has fl FLAGS_LEFT\<close> True hash l2 ntoa_sign_eq [of ?b2 neg fl]
      by (simp add: ntoa_text_def z ntoa_hash_def rev_text_def sign_def [symmetric])
    also have "\<dots> = c_layout False True (unat width) (unat prec) sign (rev buf)"
      using rs w1 by (simp add: c_layout_def)
    finally show ?thesis using True \<open>\<not> has fl FLAGS_LEFT\<close> by simp
  qed
qed

subsection \<open>The base prefix\<close>

text \<open>The prefixes of the bases 16 and 8.\<close>

definition base_prefix :: "nat \<Rightarrow> bool \<Rightarrow> u8 list" where
  "base_prefix base upper =
     (if base = 16 then [chr CHR ''0'', if upper then chr CHR ''X'' else chr CHR ''x''] else [chr CHR ''0''])"

lemma length_base_prefix: "0 < length (base_prefix b u)" "length (base_prefix b u) \<le> 2"
  by (simp_all add: base_prefix_def)

text \<open>The code appends the prefix, when no digits are dropped before.\<close>

lemma ntoa_hash_append:
  assumes "has fl FLAGS_HASH" "b \<in> {8, 16}" "length buf + length (base_prefix b (has fl FLAGS_UPPERCASE)) \<le> 32"
    and "has fl FLAGS_PRECISION \<or> buf = [] \<or> length buf \<notin> {unat prec, unat w}"
  shows "ntoa_hash (of_nat b) prec w fl buf = buf @ rev (base_prefix b (has fl FLAGS_UPPERCASE))"
  using assms by (auto simp: ntoa_hash_def base_prefix_def Let_def split: if_splits)

text \<open>Digits are dropped for it where the number fills the field: the first two of base 16, and the
  first one of base 8.\<close>

lemma ntoa_hash_drop:
  assumes "has fl FLAGS_HASH" "b \<in> {8, 16}" "length (ds @ r) \<le> 32" "ds \<noteq> []"
    and "\<not> has fl FLAGS_PRECISION" "length (ds @ r) = unat w"
    and "length r = length (base_prefix b (has fl FLAGS_UPPERCASE))"
  shows "ntoa_hash (of_nat b) prec w fl (ds @ r) = ds @ rev (base_prefix b (has fl FLAGS_UPPERCASE))"
proof (cases "b = 16")
  case True
  with assms(7) obtain x y where r: "r = [x, y]" by (auto simp: base_prefix_def length_Suc_conv numeral_2_eq_2)
  have "butlast (ds @ [x, y]) = ds @ [x]" by (simp add: butlast_append)
  with r True assms(1-6) show ?thesis by (auto simp: ntoa_hash_def base_prefix_def Let_def butlast_append)
next
  case False
  with assms(7) obtain x where r: "r = [x]" by (auto simp: base_prefix_def length_Suc_conv)
  with False assms(1-6) show ?thesis by (auto simp: ntoa_hash_def base_prefix_def Let_def)
qed

text \<open>When the prefix fits in the field beside the digits, or the number fills the field and the
  zeros make room for it, the prefix takes the place of a sign.\<close>

definition prefix_fits :: "bool \<Rightarrow> bool \<Rightarrow> nat \<Rightarrow> nat \<Rightarrow> nat \<Rightarrow> bool" where
  "prefix_fits left zero width n k \<longleftrightarrow>
     (if zero \<and> \<not> left \<and> n < width then n + k \<le> width else n \<noteq> width)"

lemma ntoa_text_prefix:
  fixes fl :: u32 and b :: nat
  defines "pre \<equiv> base_prefix b (has fl FLAGS_UPPERCASE)"
  assumes hash: "has fl FLAGS_HASH" "b \<in> {8, 16}" and buf: "buf \<noteq> []" "length buf + length pre \<le> 32"
    and sign: "\<not> has fl FLAGS_PLUS" "\<not> has fl FLAGS_SPACE"
    and left: "has fl FLAGS_LEFT \<Longrightarrow> prec = 0"
    and right: "\<not> has fl FLAGS_LEFT \<Longrightarrow> unat prec + length pre \<le> 32"
    and zero: "has fl FLAGS_ZEROPAD \<Longrightarrow> \<not> has fl FLAGS_PRECISION"
      "has fl FLAGS_ZEROPAD \<Longrightarrow> \<not> has fl FLAGS_LEFT \<Longrightarrow> unat width \<le> 32"
    and fits: "\<not> has fl FLAGS_PRECISION \<Longrightarrow>
      prec = 0 \<and> prefix_fits (has fl FLAGS_LEFT) (has fl FLAGS_ZEROPAD) (unat width) (length buf) (length pre)"
  shows "ntoa_text buf False (of_nat b) prec width fl
    = c_layout (has fl FLAGS_LEFT) (has fl FLAGS_ZEROPAD) (unat width) (unat prec) pre (rev buf)"
proof -
  have sign_id: "ntoa_sign False fl x = x" for x using sign by (simp add: ntoa_sign_def)
  have zeros: "ntoa_zeros False prec width fl buf = (if has fl FLAGS_LEFT then buf
      else if has fl FLAGS_ZEROPAD then zero_fill width (zero_fill prec buf) else zero_fill prec buf, width)"
    using has_or [of fl FLAGS_PLUS FLAGS_SPACE] sign by (simp add: ntoa_zeros_def Let_def)
  have b0: "length buf \<noteq> 0" "length buf \<le> 32" using buf by simp_all
  consider (left) "has fl FLAGS_LEFT" | (pad) "\<not> has fl FLAGS_LEFT" "\<not> has fl FLAGS_ZEROPAD"
    | (zero) "\<not> has fl FLAGS_LEFT" "has fl FLAGS_ZEROPAD" by blast
  then show ?thesis
  proof cases
    case left
    have "prec = 0" using assms(8) left by blast
    have "has fl FLAGS_PRECISION \<or> buf = [] \<or> length buf \<notin> {unat prec, unat width}"
      using fits left b0 by (auto simp: prefix_fits_def)
    note h = ntoa_hash_append [OF hash buf(2) [unfolded pre_def] this]
    show ?thesis
      using left unfolding ntoa_text_def zeros prod.case sign_id
      by (simp add: \<open>prec = 0\<close> h [unfolded \<open>prec = 0\<close>] rev_text_def c_layout_def Let_def pre_def add.commute)
  next
    case pad
    let ?b = "buf @ replicate (unat prec - length buf) (chr CHR ''0'')"
    have "zero_fill prec buf = ?b" using b0 right pad length_base_prefix(1) [of b "has fl FLAGS_UPPERCASE"]
      by (simp add: zero_fill_eq min_def)
    moreover have "length ?b + length pre \<le> 32" using buf(2) right pad by simp
    moreover have "has fl FLAGS_PRECISION \<or> ?b = [] \<or> length ?b \<notin> {unat prec, unat width}"
      using fits pad b0 by (auto simp: prefix_fits_def)
    ultimately show ?thesis
      using pad ntoa_hash_append [OF hash, of ?b prec width]
      unfolding ntoa_text_def zeros prod.case sign_id
      by (simp add: rev_text_def c_layout_def Let_def pre_def add.commute)
  next
    case zero
    note p = fits [OF \<open>has fl FLAGS_ZEROPAD \<Longrightarrow> \<not> has fl FLAGS_PRECISION\<close> [OF zero(2)]]
    have w: "unat width \<le> 32" using zero \<open>has fl FLAGS_ZEROPAD \<Longrightarrow> \<not> has fl FLAGS_LEFT \<Longrightarrow> unat width \<le> 32\<close> by blast
    have f: "zero_fill width (zero_fill prec buf) = buf @ replicate (unat width - length buf) (chr CHR ''0'')"
      using b0 w p by (simp add: zero_fill_eq min_def)
    have "ntoa_hash (of_nat b) prec width fl (buf @ replicate (unat width - length buf) (chr CHR ''0''))
        = buf @ replicate (unat width - length buf - length pre) (chr CHR ''0'') @ rev pre"
    proof (cases "length buf < unat width")
      case True
      then have l: "length buf + length pre \<le> unat width" using p zero by (simp add: prefix_fits_def)
      let ?d = "buf @ replicate (unat width - length buf - length pre) (chr CHR ''0'')"
      have s: "buf @ replicate (unat width - length buf) (chr CHR ''0'') = ?d @ replicate (length pre) (chr CHR ''0'')"
        using l by (simp add: replicate_add [symmetric])
      show ?thesis unfolding s
        using l w buf \<open>has fl FLAGS_ZEROPAD \<Longrightarrow> \<not> has fl FLAGS_PRECISION\<close> [OF zero(2)] unfolding pre_def
        by (subst ntoa_hash_drop [OF hash]) simp_all
    next
      case False
      then have "length buf \<notin> {unat prec, unat width}" using p b0 zero by (auto simp: prefix_fits_def)
      with False show ?thesis using ntoa_hash_append [OF hash buf(2) [unfolded pre_def]] by (simp add: pre_def)
    qed
    with zero p show ?thesis
      unfolding ntoa_text_def zeros prod.case sign_id
      by (simp add: f [unfolded conjunct1 [OF p]] rev_text_def c_layout_def Let_def diff_diff_left add.commute)
  qed
qed

text \<open>Where the number fills the field it is printed without its first digits.\<close>

lemma ntoa_text_drops_digits:
  fixes fl :: u32 and b :: nat
  defines "pre \<equiv> base_prefix b (has fl FLAGS_UPPERCASE)"
  assumes hash: "has fl FLAGS_HASH" "b \<in> {8, 16}"
    and flags: "\<not> has fl FLAGS_PLUS" "\<not> has fl FLAGS_SPACE" "\<not> has fl FLAGS_PRECISION" "prec = 0"
    and len: "length buf = unat width" "unat width \<le> 32" "length pre < unat width"
  shows "ntoa_text buf False (of_nat b) prec width fl = pre @ drop (length pre) (rev buf)"
proof -
  have z: "ntoa_zeros False prec width fl buf = (buf, width)"
    using has_or [of fl FLAGS_PLUS FLAGS_SPACE] flags len by (simp add: ntoa_zeros_def Let_def zero_fill_eq)
  define ds r where "ds = take (length buf - length pre) buf" and "r = drop (length buf - length pre) buf"
  have b: "buf = ds @ r" "length r = length pre" "ds \<noteq> []" using len unfolding ds_def r_def by auto
  from len(1) have "ntoa_hash (of_nat b) prec width fl buf = ds @ rev pre"
    unfolding b(1) pre_def using len b(2,3) flags(3) by (intro ntoa_hash_drop [OF hash]) (simp_all add: b(1) pre_def)
  moreover have "drop (length pre) (rev buf) = rev ds" using b by simp
  ultimately show ?thesis
    using flags len b unfolding ntoa_text_def z prod.case by (simp add: ntoa_sign_def rev_text_def)
qed

subsection \<open>The digits\<close>

definition radix_char :: "bool \<Rightarrow> nat \<Rightarrow> u8" where
  "radix_char upper d = (if d < 10 then of_nat (48 + d) else if upper then of_nat (55 + d) else of_nat (87 + d))"

definition radix_text :: "bool \<Rightarrow> nat \<Rightarrow> nat \<Rightarrow> u8 list" where
  "radix_text upper base n = map (radix_char upper) (digits base n)"

lemma all_less_16: "(\<forall>d<16. P d) \<longleftrightarrow> (\<forall>d\<in>set [0..<16]. P (d :: nat))"
  by auto

lemma digit_char_radix: "d < 16 \<Longrightarrow> digit_char (of_nat d) fl = radix_char (has fl FLAGS_UPPERCASE) d"
proof -
  have "\<forall>d<16. digit_char (of_nat d) fl = radix_char (has fl FLAGS_UPPERCASE) d"
    unfolding all_less_16 digit_char_def radix_char_def by (simp add: upt_rec word_sless_alt)
  then show "d < 16 \<Longrightarrow> digit_char (of_nat d) fl = radix_char (has fl FLAGS_UPPERCASE) d" by blast
qed

text \<open>A digit is not a control character.\<close>

lemma radix_char_printable: "d < 16 \<Longrightarrow> 32 \<le> radix_char upper d"
proof -
  have "\<forall>d<16. 32 \<le> radix_char upper d"
    unfolding all_less_16 radix_char_def by (simp add: upt_rec)
  then show "d < 16 \<Longrightarrow> 32 \<le> radix_char upper d" by blast
qed

lemma radix_text_printable:
  assumes "0 < b" "b \<le> 16" "c < 32" shows "c \<notin> set (radix_text upper b n)"
proof
  assume "c \<in> set (radix_text upper b n)"
  then obtain d where d: "d \<in> set (digits b n)" "c = radix_char upper d" by (auto simp: radix_text_def)
  have "d < 16" using digits_less [OF assms(1) d(1)] assms(2) by simp
  from radix_char_printable [OF this] d(2) assms(3) show False by (simp add: not_le [symmetric])
qed

lemma length_radix_text [simp]: "length (radix_text upper b n) = length (digits b n)"
  by (simp add: radix_text_def)

lemma u32_less_power: "2 \<le> b \<Longrightarrow> unat (v :: u32) < b ^ 32"
  using less_le_trans [OF unat_u32_less [of v], of "b ^ 32"] power_mono [of 2 b 32] by simp

lemma length_digits_u32: "2 \<le> b \<Longrightarrow> length (digits b (unat (v :: u32))) \<le> 32"
  by (intro length_digits u32_less_power) simp_all

text \<open>From words of 8 bits on the bases are numbers of the word.\<close>

lemma unat_base: "b \<le> 16 \<Longrightarrow> 8 \<le> LENGTH('a :: len) \<Longrightarrow> unat (of_nat b :: 'a word) = b"
proof -
  assume b: "b \<le> 16" "8 \<le> LENGTH('a)"
  have "(2 :: nat) ^ 8 \<le> 2 ^ LENGTH('a)" using b(2) by (intro power_increasing) simp_all
  with b(1) show ?thesis by (simp add: unat_of_nat)
qed

lemma ntoa_loop_radix:
  fixes v :: "'a :: len word"
  assumes b: "2 \<le> b" "b \<le> 16" and l: "8 \<le> LENGTH('a)" "length (digits b (unat v)) \<le> 32"
  shows "ntoa_loop v (of_nat b) fl [] = rev (radix_text (has fl FLAGS_UPPERCASE) b (unat v))"
proof -
  have "length (rdigits b (unat v)) \<le> 32" using l(2) by (auto simp: digits_def split: if_splits)
  then have "ntoa_loop v (of_nat b) fl []
      = map (\<lambda>d. digit_char (of_nat d) fl) (rev (digits b (unat v)))"
    using b unat_base [OF b(2) l(1)] by (subst ntoa_loop_eq) simp_all
  also have "\<dots> = rev (radix_text (has fl FLAGS_UPPERCASE) b (unat v))"
  proof -
    have "d < 16" if "d \<in> set (digits b (unat v))" for d
      using digits_less [of b d "unat v"] that b by simp
    then show ?thesis by (simp add: radix_text_def rev_map digit_char_radix)
  qed
  finally show ?thesis .
qed

text \<open>A zero has no prefix: the code drops the flag \<open>#\<close> and keeps the others.\<close>

lemma has_drop_hash:
  fixes fl :: u32
  defines "g \<equiv> fl AND NOT FLAGS_HASH"
  shows "\<not> has g FLAGS_HASH" "has g FLAGS_ZEROPAD = has fl FLAGS_ZEROPAD" "has g FLAGS_LEFT = has fl FLAGS_LEFT"
    "has g FLAGS_PLUS = has fl FLAGS_PLUS" "has g FLAGS_SPACE = has fl FLAGS_SPACE"
    "has g FLAGS_UPPERCASE = has fl FLAGS_UPPERCASE" "has g FLAGS_PRECISION = has fl FLAGS_PRECISION"
proof -
  have "bit g n \<longleftrightarrow> bit fl n \<and> n \<noteq> 4" for n
    using bit_push_bit_iff [of 4 "1 :: u32" n] bit_imp_le_length [of fl n]
    by (auto simp: g_def bit_simps push_bit_eq_mult bit_1_iff)
  then show "\<not> has g FLAGS_HASH" "has g FLAGS_ZEROPAD = has fl FLAGS_ZEROPAD" "has g FLAGS_LEFT = has fl FLAGS_LEFT"
    "has g FLAGS_PLUS = has fl FLAGS_PLUS" "has g FLAGS_SPACE = has fl FLAGS_SPACE"
    "has g FLAGS_UPPERCASE = has fl FLAGS_UPPERCASE" "has g FLAGS_PRECISION = has fl FLAGS_PRECISION"
    unfolding has_bit by simp_all
qed

text \<open>The text of an integer conversion without the base prefix.\<close>

lemma int_text_layout:
  fixes v :: "'a :: len word" and neg :: bool and fl :: u32 and b :: nat
  defines "sign \<equiv> sign_chars neg (has fl FLAGS_PLUS) (has fl FLAGS_SPACE)"
  defines "ds \<equiv> (if has fl FLAGS_PRECISION \<and> v = 0 then [] else radix_text (has fl FLAGS_UPPERCASE) b (unat v))"
  assumes b: "2 \<le> b" "b \<le> 16" "8 \<le> LENGTH('a)" and hash: "\<not> has fl FLAGS_HASH \<or> v = 0"
    and "length ds + length sign \<le> 32" "has fl FLAGS_LEFT \<Longrightarrow> prec = 0"
    and "\<not> has fl FLAGS_LEFT \<Longrightarrow> unat prec + length sign \<le> 32"
    and "has fl FLAGS_ZEROPAD \<Longrightarrow> \<not> has fl FLAGS_LEFT \<Longrightarrow> unat width \<le> 32"
  shows "int_text v neg (of_nat b) bw prec width fl
    = c_layout (has fl FLAGS_LEFT) (has fl FLAGS_ZEROPAD) (unat width) (unat prec) sign ds"
proof -
  define g where "g = (if v = 0 then fl AND NOT FLAGS_HASH else fl)"
  have g: "\<not> has g FLAGS_HASH" "has g FLAGS_ZEROPAD = has fl FLAGS_ZEROPAD" "has g FLAGS_LEFT = has fl FLAGS_LEFT"
    "has g FLAGS_PLUS = has fl FLAGS_PLUS" "has g FLAGS_SPACE = has fl FLAGS_SPACE"
    "has g FLAGS_UPPERCASE = has fl FLAGS_UPPERCASE" "has g FLAGS_PRECISION = has fl FLAGS_PRECISION"
    using hash has_drop_hash [of fl] unfolding g_def by (cases "v = 0"; simp)+
  have buf: "(if \<not> has g FLAGS_PRECISION \<or> v \<noteq> 0 then ntoa_loop v (of_nat b) g [] else []) = rev ds"
  proof (cases "has fl FLAGS_PRECISION \<and> v = 0")
    case False
    then have "ds = radix_text (has fl FLAGS_UPPERCASE) b (unat v)" unfolding ds_def by (rule if_not_P)
    moreover from this have "length (digits b (unat v)) \<le> 32" using assms(7) by simp
    ultimately show ?thesis using ntoa_loop_radix [OF b, of v g] False g by auto
  qed (simp add: ds_def g)
  have "ntoa_text (rev ds) neg bw prec width g
    = c_layout (has g FLAGS_LEFT) (has g FLAGS_ZEROPAD) (unat width) (unat prec) sign (rev (rev ds))"
    unfolding sign_def using assms(3-10) g by (intro trans [OF ntoa_text_layout]) (simp_all add: sign_def)
  then show ?thesis unfolding int_text_def g_def [symmetric] Let_def buf by (simp add: g)
qed

text \<open>And with it.\<close>

lemma int_text_buffer:
  fixes v :: "'a :: len word"
  assumes "2 \<le> b" "b \<le> 16" "8 \<le> LENGTH('a)" "v \<noteq> 0" "length (digits b (unat v)) \<le> 32"
  shows "int_text v neg (of_nat b) bw prec width fl
    = ntoa_text (rev (radix_text (has fl FLAGS_UPPERCASE) b (unat v))) neg bw prec width fl"
  using assms by (simp add: int_text_def ntoa_loop_radix)

lemma int_text_prefix:
  fixes v :: "'a :: len word" and fl :: u32 and b :: nat
  defines "pre \<equiv> base_prefix b (has fl FLAGS_UPPERCASE)" and "n \<equiv> length (digits b (unat v))"
  assumes l: "8 \<le> LENGTH('a)" and v: "v \<noteq> 0" and hash: "has fl FLAGS_HASH" "b \<in> {8, 16}" and buf: "n + length pre \<le> 32"
    and sign: "\<not> has fl FLAGS_PLUS" "\<not> has fl FLAGS_SPACE"
    and left: "has fl FLAGS_LEFT \<Longrightarrow> prec = 0"
    and right: "\<not> has fl FLAGS_LEFT \<Longrightarrow> unat prec + length pre \<le> 32"
    and zero: "has fl FLAGS_ZEROPAD \<Longrightarrow> \<not> has fl FLAGS_PRECISION"
      "has fl FLAGS_ZEROPAD \<Longrightarrow> \<not> has fl FLAGS_LEFT \<Longrightarrow> unat width \<le> 32"
    and fits: "\<not> has fl FLAGS_PRECISION \<Longrightarrow>
      prec = 0 \<and> prefix_fits (has fl FLAGS_LEFT) (has fl FLAGS_ZEROPAD) (unat width) n (length pre)"
  shows "int_text v False (of_nat b) (of_nat b) prec width fl
    = c_layout (has fl FLAGS_LEFT) (has fl FLAGS_ZEROPAD) (unat width) (unat prec) pre
        (radix_text (has fl FLAGS_UPPERCASE) b (unat v))"
proof -
  let ?ds = "radix_text (has fl FLAGS_UPPERCASE) b (unat v)"
  have "?ds \<noteq> []" using digits_nonempty [of b "unat v"] hash(2) by (auto simp: radix_text_def)
  then have "ntoa_text (rev ?ds) False (of_nat b) prec width fl
    = c_layout (has fl FLAGS_LEFT) (has fl FLAGS_ZEROPAD) (unat width) (unat prec) pre (rev (rev ?ds))"
    unfolding pre_def using hash buf sign left right zero fits
    by (intro ntoa_text_prefix) (simp_all add: pre_def n_def)
  then show ?thesis using int_text_buffer [of b v] hash(2) l v buf by (auto simp: n_def)
qed

text \<open>A number that fills the field loses its first digits.\<close>

lemma int_text_drops_digits:
  fixes v :: "'a :: len word" and fl :: u32 and b :: nat
  defines "pre \<equiv> base_prefix b (has fl FLAGS_UPPERCASE)"
  assumes l: "8 \<le> LENGTH('a)" and v: "v \<noteq> 0" and hash: "has fl FLAGS_HASH" "b \<in> {8, 16}"
    and flags: "\<not> has fl FLAGS_PLUS" "\<not> has fl FLAGS_SPACE" "\<not> has fl FLAGS_PRECISION"
    and len: "length (digits b (unat v)) = unat width" "unat width \<le> 32" "length pre < unat width"
  shows "int_text v False (of_nat b) (of_nat b) 0 width fl
    = pre @ drop (length pre) (radix_text (has fl FLAGS_UPPERCASE) b (unat v))"
proof -
  let ?ds = "radix_text (has fl FLAGS_UPPERCASE) b (unat v)"
  have "ntoa_text (rev ?ds) False (of_nat b) 0 width fl = pre @ drop (length pre) (rev (rev ?ds))"
    unfolding pre_def using hash flags len by (intro ntoa_text_drops_digits) (simp_all add: pre_def)
  then show ?thesis using int_text_buffer [of b v] hash(2) l v len by auto
qed

end
