(* ===== verification/Printf_Text.thy ===== *)
theory Printf_Text
  imports Printf_Layout
begin

text \<open>
  The text of the integer conversions of \<open>printf.c\<close>, for every flag, width and precision, and
  of the string conversion: what the C standard says they are, and the cases in which the code differs.
\<close>

subsection \<open>Integer conversions are the standard's\<close>

definition conv_base :: "u8 \<Rightarrow> nat" where
  "conv_base spec =
     (if spec \<in> {chr CHR ''x'', chr CHR ''X''} then 16 else if spec = chr CHR ''o'' then 8
      else if spec = chr CHR ''b'' then 2 else 10)"

text \<open>
  The text of a number \<open>v\<close>, by the flags that are given, the conversion, the field width and
  the precision, if any.  This is the standard's \<open>fprintf\<close>; the conversion \<open>b\<close> is an extension.
  The flag \<open>#\<close> gives a number other than zero the prefix of its base.
\<close>

definition hash_prefix :: "u8 list \<Rightarrow> u8 \<Rightarrow> u8 list" where
  "hash_prefix fl spec =
     (if chr CHR ''#'' \<in> set fl \<and> spec \<in> set (bytes ''xXo'') then base_prefix (conv_base spec) (spec = chr CHR ''X'') else [])"

definition c_integer :: "u8 list \<Rightarrow> u8 \<Rightarrow> nat \<Rightarrow> nat option \<Rightarrow> 'a :: len word \<Rightarrow> u8 list" where
  "c_integer fl spec width prec v =
     (let signed = (spec \<in> {chr CHR ''d'', chr CHR ''i''});
          sign = (if signed then sign_chars (v <s 0) (chr CHR ''+'' \<in> set fl) (chr CHR '' '' \<in> set fl)
            else if v = 0 then [] else hash_prefix fl spec);
          n = (if signed then nat \<bar>sint v\<bar> else unat v);
          ds = (if prec = Some 0 \<and> v = 0 then []
                else radix_text (spec = chr CHR ''X'') (conv_base spec) n)
      in c_layout (chr CHR ''-'' \<in> set fl) (chr CHR ''0'' \<in> set fl \<and> prec = None) width
           (case prec of None \<Rightarrow> 0 | Some k \<Rightarrow> k) sign ds)"

lemma c_layout_zero:
  "0 < prec \<Longrightarrow> c_layout l z w prec sign [] = c_layout l z w prec sign [chr CHR ''0'']"
  by (cases prec) (simp_all add: c_layout_def Let_def replicate_append_same [symmetric])

text \<open>The flag word of a directive, related to its flag characters.\<close>

definition flag_word :: "u8 list \<Rightarrow> bool \<Rightarrow> u32 \<Rightarrow> bool" where
  "flag_word fl precise f \<longleftrightarrow> has f FLAGS_ZEROPAD = (chr CHR ''0'' \<in> set fl)
     \<and> has f FLAGS_LEFT = (chr CHR ''-'' \<in> set fl) \<and> has f FLAGS_PLUS = (chr CHR ''+'' \<in> set fl)
     \<and> has f FLAGS_SPACE = (chr CHR '' '' \<in> set fl) \<and> has f FLAGS_PRECISION = precise
     \<and> has f FLAGS_HASH = (chr CHR ''#'' \<in> set fl) \<and> \<not> has f FLAGS_UPPERCASE \<and> \<not> has f FLAGS_CHAR \<and> \<not> has f FLAGS_SHORT
     \<and> \<not> has f FLAGS_LONG \<and> \<not> has f FLAGS_LONG_LONG"

lemma bit_flag:
  "bit (1 :: u32) n \<longleftrightarrow> n = 0" "bit (2 :: u32) n \<longleftrightarrow> n = 1" "bit (4 :: u32) n \<longleftrightarrow> n = 2"
  "bit (8 :: u32) n \<longleftrightarrow> n = 3" "bit (16 :: u32) n \<longleftrightarrow> n = 4" "bit (32 :: u32) n \<longleftrightarrow> n = 5"
  "bit (256 :: u32) n \<longleftrightarrow> n = 8" "bit (512 :: u32) n \<longleftrightarrow> n = 9" "bit (1024 :: u32) n \<longleftrightarrow> n = 10"
proof -
  have "bit (2 ^ k :: u32) n \<longleftrightarrow> n = k" if "k < 32" for k
    using that by (auto simp: bit_exp_iff)
  from this [of 0] this [of 1] this [of 2] this [of 3] this [of 4] this [of 5] this [of 8]
    this [of 9] this [of 10]
  show "bit (1 :: u32) n \<longleftrightarrow> n = 0" "bit (2 :: u32) n \<longleftrightarrow> n = 1" "bit (4 :: u32) n \<longleftrightarrow> n = 2"
    "bit (8 :: u32) n \<longleftrightarrow> n = 3" "bit (16 :: u32) n \<longleftrightarrow> n = 4" "bit (32 :: u32) n \<longleftrightarrow> n = 5"
    "bit (256 :: u32) n \<longleftrightarrow> n = 8" "bit (512 :: u32) n \<longleftrightarrow> n = 9" "bit (1024 :: u32) n \<longleftrightarrow> n = 10"
    by simp_all
qed

text \<open>The part of it that the layout depends on; the rest is the length modifier.\<close>

definition flag_layout :: "u8 list \<Rightarrow> bool \<Rightarrow> u32 \<Rightarrow> bool" where
  "flag_layout fl precise f \<longleftrightarrow> has f FLAGS_ZEROPAD = (chr CHR ''0'' \<in> set fl)
     \<and> has f FLAGS_LEFT = (chr CHR ''-'' \<in> set fl) \<and> has f FLAGS_PLUS = (chr CHR ''+'' \<in> set fl)
     \<and> has f FLAGS_SPACE = (chr CHR '' '' \<in> set fl) \<and> has f FLAGS_PRECISION = precise
     \<and> has f FLAGS_HASH = (chr CHR ''#'' \<in> set fl) \<and> \<not> has f FLAGS_UPPERCASE"

lemma flag_word_layout: "flag_word fl precise f \<Longrightarrow> flag_layout fl precise f"
  by (simp add: flag_word_def flag_layout_def)

text \<open>What \<open>int_flags\<close> makes of it.\<close>

lemma int_base_10: "spec \<in> set (bytes ''diuxXob'') \<Longrightarrow> int_base spec \<noteq> 10 \<longleftrightarrow> spec \<notin> set (bytes ''diu'')"
  by (auto simp: int_base_def)

lemma int_flags_layout:
  assumes "flag_layout fl precise f" "spec \<in> set (bytes ''diuxXob'')"
  defines "g \<equiv> int_flags spec f"
  shows "has g FLAGS_ZEROPAD \<longleftrightarrow> chr CHR ''0'' \<in> set fl \<and> \<not> precise"
    "has g FLAGS_LEFT \<longleftrightarrow> chr CHR ''-'' \<in> set fl" "has g FLAGS_PRECISION \<longleftrightarrow> precise"
    "has g FLAGS_PLUS \<longleftrightarrow> chr CHR ''+'' \<in> set fl \<and> spec \<in> {chr CHR ''d'', chr CHR ''i''}"
    "has g FLAGS_SPACE \<longleftrightarrow> chr CHR '' '' \<in> set fl \<and> spec \<in> {chr CHR ''d'', chr CHR ''i''}"
    "has g FLAGS_UPPERCASE \<longleftrightarrow> spec = chr CHR ''X''"
    "has g FLAGS_HASH \<longleftrightarrow> chr CHR ''#'' \<in> set fl \<and> int_base spec \<noteq> 10"
    "has g FLAGS_CHAR = has f FLAGS_CHAR" "has g FLAGS_SHORT = has f FLAGS_SHORT"
    "has g FLAGS_LONG = has f FLAGS_LONG" "has g FLAGS_LONG_LONG = has f FLAGS_LONG_LONG"
  using assms(1,2) unfolding g_def flag_layout_def int_flags_def Let_def has_bit
  by (auto simp: bit_and_iff bit_or_iff bit_not_iff bit_flag)

lemma int_flags_word:
  assumes "flag_word fl precise f" "spec \<in> set (bytes ''diuxXob'')"
  defines "g \<equiv> int_flags spec f"
  shows "has g FLAGS_ZEROPAD \<longleftrightarrow> chr CHR ''0'' \<in> set fl \<and> \<not> precise"
    "has g FLAGS_LEFT \<longleftrightarrow> chr CHR ''-'' \<in> set fl" "has g FLAGS_PRECISION \<longleftrightarrow> precise"
    "has g FLAGS_PLUS \<longleftrightarrow> chr CHR ''+'' \<in> set fl \<and> spec \<in> {chr CHR ''d'', chr CHR ''i''}"
    "has g FLAGS_SPACE \<longleftrightarrow> chr CHR '' '' \<in> set fl \<and> spec \<in> {chr CHR ''d'', chr CHR ''i''}"
    "has g FLAGS_UPPERCASE \<longleftrightarrow> spec = chr CHR ''X''"
    "has g FLAGS_HASH \<longleftrightarrow> chr CHR ''#'' \<in> set fl \<and> int_base spec \<noteq> 10"
    "\<not> has g FLAGS_CHAR" "\<not> has g FLAGS_SHORT" "\<not> has g FLAGS_LONG" "\<not> has g FLAGS_LONG_LONG"
  using int_flags_layout [OF flag_word_layout [OF assms(1)] assms(2)] assms(1)
  unfolding g_def by (simp_all add: flag_word_def)

lemma conv_base_range: "2 \<le> conv_base spec" "conv_base spec \<le> 16"
  by (simp_all add: conv_base_def)

lemma int_base_conv: "spec \<in> set (bytes ''diuxXob'') \<Longrightarrow> int_base spec = of_nat (conv_base spec)"
  by (auto simp: int_base_def conv_base_def)

lemma length_digits_10: "length (digits 10 (unat (v :: u32))) \<le> 10"
  using length_number_text_u32 [of "unat v"] by simp

text \<open>The magnitude that the code converts, and the number of the standard.\<close>

lemma magnitude_zero: "magnitude v = 0 \<longleftrightarrow> v = 0"
  by (simp add: magnitude_def)

lemma conv_int_value:
  assumes "flag_word fl precise f" "spec \<in> set (bytes ''diuxXob'')"
  shows "conv_int out b ml spec f w pw (v # va) p
    = Some (va, emits out b ml
        (int_text (if spec \<in> {chr CHR ''d'', chr CHR ''i''} then magnitude v else v)
           (spec \<in> {chr CHR ''d'', chr CHR ''i''} \<and> v <s 0) (of_nat (conv_base spec))
           (of_nat (conv_base spec)) pw w (int_flags spec f)) p)"
  using int_flags_word [OF assms] int_base_conv [OF assms(2)]
  by (simp add: conv_int_def Let_def ntoa_long_emits)

lemma conv_sign:
  assumes "flag_layout fl precise f" "spec \<in> set (bytes ''diuxXob'')"
  shows "sign_chars (spec \<in> {chr CHR ''d'', chr CHR ''i''} \<and> neg)
      (has (int_flags spec f) FLAGS_PLUS) (has (int_flags spec f) FLAGS_SPACE)
    = (if spec \<in> {chr CHR ''d'', chr CHR ''i''}
       then sign_chars neg (chr CHR ''+'' \<in> set fl) (chr CHR '' '' \<in> set fl) else [])"
  using int_flags_layout [OF assms] by (simp add: sign_chars_def)

text \<open>The number that is converted, and its text, at any width of the argument.\<close>

definition conv_value :: "u8 \<Rightarrow> 'a :: len word \<Rightarrow> 'a word" where
  "conv_value spec v = (if spec \<in> {chr CHR ''d'', chr CHR ''i''} then magnitude v else v)"

lemma unat_conv_value:
  "unat (conv_value spec v) = (if spec \<in> {chr CHR ''d'', chr CHR ''i''} then nat \<bar>sint v\<bar> else unat v)"
  by (simp add: conv_value_def unat_magnitude)

lemma conv_value_zero [simp]: "conv_value spec v = 0 \<longleftrightarrow> v = 0"
  by (simp add: conv_value_def magnitude_zero)

text \<open>Sign or prefix and digits fit in the 32-byte buffer: always for 32 bits, and for 64 but in binary.\<close>

definition conv_fits :: "u8 \<Rightarrow> 'a :: len word \<Rightarrow> bool" where
  "conv_fits spec v \<longleftrightarrow> length (digits (conv_base spec) (unat (conv_value spec v)))
     + (if spec = chr CHR ''b'' then 0 else 2) \<le> 32"

lemma conv_fits_32: "conv_fits spec (v :: u32)"
proof (cases "spec = chr CHR ''b''")
  case True
  then show ?thesis using length_digits_u32 [OF conv_base_range(1)] by (simp add: conv_fits_def)
next
  case False
  have "(2 :: nat) ^ 32 < conv_base spec ^ 11" using False by (auto simp: conv_base_def)
  moreover have "unat (conv_value spec v) < 2 ^ 32" using unat_u32_less [of "conv_value spec v"] by simp
  ultimately have "unat (conv_value spec v) < conv_base spec ^ 11" by linarith
  then have "length (digits (conv_base spec) (unat (conv_value spec v))) \<le> 11" by (rule length_digits) simp
  with False show ?thesis by (simp add: conv_fits_def)
qed

lemma conv_fits_64:
  assumes "spec \<in> set (bytes ''diuxXo'')" shows "conv_fits spec (v :: u64)"
proof -
  have u: "unat (conv_value spec v) < 2 ^ 64" using unsigned_less [of "conv_value spec v", where ?'a = nat] by simp
  have "(2 :: nat) ^ 64 < conv_base spec ^ 22" using assms by (auto simp: conv_base_def)
  with u have "unat (conv_value spec v) < conv_base spec ^ 22" by (rule less_trans)
  then have "length (digits (conv_base spec) (unat (conv_value spec v))) \<le> 22" by (rule length_digits) simp
  moreover have "spec \<noteq> chr CHR ''b''" using assms by auto
  ultimately show ?thesis by (simp add: conv_fits_def)
qed

text \<open>With \<open>#\<close>: the prefix has its room, and octal numbers have no precision.\<close>

definition hash_ok :: "u8 list \<Rightarrow> u8 \<Rightarrow> nat \<Rightarrow> nat option \<Rightarrow> 'a :: len word \<Rightarrow> bool" where
  "hash_ok fl spec width prec v \<longleftrightarrow>
     chr CHR ''#'' \<in> set fl \<and> v \<noteq> 0 \<and> spec \<notin> set (bytes ''diu'') \<longrightarrow> spec \<noteq> chr CHR ''b''
       \<and> (case prec of None \<Rightarrow> prefix_fits (chr CHR ''-'' \<in> set fl) (chr CHR ''0'' \<in> set fl) width
              (length (digits (conv_base spec) (unat v))) (length (hash_prefix fl spec))
          | Some k \<Rightarrow> spec \<noteq> chr CHR ''o'' \<and> k \<le> 30)"

lemma int_text_plain_standard:
  fixes v :: "'a :: len word"
  assumes fw: "flag_layout fl (prec \<noteq> None) f" and spec: "spec \<in> set (bytes ''diuxXob'')"
    and len: "8 \<le> LENGTH('a)" "conv_fits spec v"
    and pw: "unat pw = (case prec of None \<Rightarrow> 0 | Some k \<Rightarrow> k)" "unat pw < 32"
    and left: "chr CHR ''-'' \<in> set fl \<Longrightarrow> prec = None"
    and zero: "chr CHR ''0'' \<in> set fl \<Longrightarrow> unat w \<le> 32"
    and hash: "chr CHR ''#'' \<notin> set fl \<or> v = 0 \<or> spec \<in> set (bytes ''diu'')"
  shows "int_text (conv_value spec v) (spec \<in> {chr CHR ''d'', chr CHR ''i''} \<and> v <s 0) (of_nat (conv_base spec)) bw pw w
      (int_flags spec f) = c_integer fl spec (unat w) prec v"
proof -
  let ?signed = "spec \<in> {chr CHR ''d'', chr CHR ''i''}"
  let ?n = "conv_value spec v" and ?g = "int_flags spec f"
  let ?sign = "sign_chars (?signed \<and> v <s 0) (has ?g FLAGS_PLUS) (has ?g FLAGS_SPACE)"
  let ?ds = "if has ?g FLAGS_PRECISION \<and> ?n = 0 then []
    else radix_text (has ?g FLAGS_UPPERCASE) (conv_base spec) (unat ?n)"
  note g = int_flags_layout [OF fw spec]
  note sign = conv_sign [OF fw spec, of "v <s 0"]
  have h: "\<not> has ?g FLAGS_HASH \<or> ?n = 0" using hash g(7) int_base_10 [OF spec] by auto
  have p: "v = 0 \<or> hash_prefix fl spec = []" if "\<not> ?signed"
    using hash that by (auto simp: hash_prefix_def)
  have ls: "length ?sign \<le> (if ?signed then 1 else 0)"
    unfolding sign using length_sign_chars by simp
  have "length ?ds \<le> length (digits (conv_base spec) (unat ?n))" by simp
  from add_mono [OF this ls] have room: "length ?ds + length ?sign \<le> 32"
  proof (rule order.trans)
    have "(if ?signed then 1 else 0) \<le> (if spec = chr CHR ''b'' then 0 else 2 :: nat)" by auto
    then show "length (digits (conv_base spec) (unat ?n)) + (if ?signed then 1 else 0) \<le> 32"
      using len(2) unfolding conv_fits_def by linarith
  qed
  have "int_text ?n (?signed \<and> v <s 0) (of_nat (conv_base spec)) bw pw w ?g
    = c_layout (has ?g FLAGS_LEFT) (has ?g FLAGS_ZEROPAD) (unat w) (unat pw) ?sign ?ds"
  proof (rule int_text_layout [OF conv_base_range len(1) h room])
    show "pw = 0" if "has ?g FLAGS_LEFT"
      using that left pw(1) g(2) by (simp add: unat_eq_zero)
    show "unat pw + length ?sign \<le> 32" if "\<not> has ?g FLAGS_LEFT"
      using pw(2) length_sign_chars [of "?signed \<and> v <s 0" "has ?g FLAGS_PLUS" "has ?g FLAGS_SPACE"]
      by linarith
    show "unat w \<le> 32" if "has ?g FLAGS_ZEROPAD" using that zero g(1) by simp
  qed
  also have "\<dots> = c_integer fl spec (unat w) prec v"
  proof -
    have "radix_text u b 0 = [chr CHR ''0'']" for u b
      by (simp add: radix_text_def digits_def radix_char_def)
    then show ?thesis
      using pw(1) g(1-3,6) c_layout_zero [of "unat pw" _ _ _ ?sign] p
      unfolding c_integer_def Let_def sign unat_conv_value conv_value_zero by (cases prec) (auto simp: sign)
  qed
  finally show ?thesis .
qed

lemma int_text_hash_standard:
  fixes v :: "'a :: len word"
  assumes fw: "flag_layout fl (prec \<noteq> None) f" and spec: "spec \<in> set (bytes ''xXo'')"
    and len: "8 \<le> LENGTH('a)" "conv_fits spec v"
    and pw: "unat pw = (case prec of None \<Rightarrow> 0 | Some k \<Rightarrow> k)"
    and left: "chr CHR ''-'' \<in> set fl \<Longrightarrow> prec = None"
    and zero: "chr CHR ''0'' \<in> set fl \<Longrightarrow> unat w \<le> 32"
    and hash: "chr CHR ''#'' \<in> set fl" "v \<noteq> 0" "hash_ok fl spec (unat w) prec v"
  shows "int_text v False (of_nat (conv_base spec)) (of_nat (conv_base spec)) pw w (int_flags spec f)
    = c_integer fl spec (unat w) prec v"
proof -
  let ?g = "int_flags spec f" and ?pre = "hash_prefix fl spec"
  have s: "spec \<in> set (bytes ''diuxXob'')" "conv_base spec \<in> {8, 16}" "spec \<noteq> chr CHR ''b''"
    "spec \<notin> set (bytes ''diu'')" using spec by (auto simp: conv_base_def)
  note g = int_flags_layout [OF fw s(1)]
  have pre: "?pre = base_prefix (conv_base spec) (has ?g FLAGS_UPPERCASE)"
    using hash(1) spec g(6) by (simp add: hash_prefix_def)
  have l2: "length ?pre \<le> 2" unfolding pre by (rule length_base_prefix)
  have u: "conv_value spec v = v" using s(4) by (auto simp: conv_value_def)
  have "int_text v False (of_nat (conv_base spec)) (of_nat (conv_base spec)) pw w ?g
    = c_layout (has ?g FLAGS_LEFT) (has ?g FLAGS_ZEROPAD) (unat w) (unat pw) ?pre
        (radix_text (has ?g FLAGS_UPPERCASE) (conv_base spec) (unat v))"
    unfolding pre
  proof (rule int_text_prefix [OF len(1) hash(2) _ s(2)])
    show "length (digits (conv_base spec) (unat v)) + length (base_prefix (conv_base spec) (has ?g FLAGS_UPPERCASE)) \<le> 32"
      using len(2) s(3) l2 unfolding pre [symmetric] conv_fits_def u by simp
    show "unat pw + length (base_prefix (conv_base spec) (has ?g FLAGS_UPPERCASE)) \<le> 32"
      using hash s(3,4) l2 pw unfolding pre [symmetric] hash_ok_def by (cases prec) auto
    show "pw = 0 \<and> prefix_fits (has ?g FLAGS_LEFT) (has ?g FLAGS_ZEROPAD) (unat w)
        (length (digits (conv_base spec) (unat v))) (length (base_prefix (conv_base spec) (has ?g FLAGS_UPPERCASE)))"
      if "\<not> has ?g FLAGS_PRECISION"
      using that hash s(3,4) pw g(1-3) unfolding pre [symmetric] hash_ok_def
      by (cases prec) (auto simp: unat_eq_zero)
    show "has ?g FLAGS_HASH" using g(7) hash(1) s(4) int_base_10 [OF s(1)] by simp
    show "\<not> has ?g FLAGS_PLUS" "\<not> has ?g FLAGS_SPACE" using g(4,5) s(4) by auto
    show "pw = 0" if "has ?g FLAGS_LEFT" using that left pw(1) g(2) by (simp add: unat_eq_zero)
    show "\<not> has ?g FLAGS_PRECISION" "unat w \<le> 32" if "has ?g FLAGS_ZEROPAD" using that zero g(1,3) by simp_all
  qed
  also have "\<dots> = c_integer fl spec (unat w) prec v"
  proof -
    have "spec \<notin> {chr CHR ''d'', chr CHR ''i''}" using s(4) by auto
    moreover have "prec = Some 0 \<and> v = 0 \<longleftrightarrow> False" using hash(2) by blast
    moreover have "chr CHR ''0'' \<in> set fl \<and> \<not> prec \<noteq> None \<longleftrightarrow> chr CHR ''0'' \<in> set fl \<and> prec = None" by blast
    ultimately show ?thesis using hash(2) unfolding c_integer_def Let_def g(1-3,6) pw(1) by (simp only: if_False)
  qed
  finally show ?thesis .
qed

lemma int_text_standard:
  fixes v :: "'a :: len word"
  assumes fw: "flag_layout fl (prec \<noteq> None) f" and spec: "spec \<in> set (bytes ''diuxXob'')"
    and len: "8 \<le> LENGTH('a)" "conv_fits spec v"
    and pw: "unat pw = (case prec of None \<Rightarrow> 0 | Some k \<Rightarrow> k)" "unat pw < 32"
    and left: "chr CHR ''-'' \<in> set fl \<Longrightarrow> prec = None"
    and zero: "chr CHR ''0'' \<in> set fl \<Longrightarrow> unat w \<le> 32"
    and hash: "hash_ok fl spec (unat w) prec v"
  shows "int_text (conv_value spec v) (spec \<in> {chr CHR ''d'', chr CHR ''i''} \<and> v <s 0) (of_nat (conv_base spec))
      (of_nat (conv_base spec)) pw w (int_flags spec f) = c_integer fl spec (unat w) prec v"
proof (cases "chr CHR ''#'' \<notin> set fl \<or> v = 0 \<or> spec \<in> set (bytes ''diu'')")
  case True
  with int_text_plain_standard [OF fw spec len pw left zero] show ?thesis by blast
next
  case False
  then have s: "spec \<in> set (bytes ''xXo'')" "spec \<notin> {chr CHR ''d'', chr CHR ''i''}" "chr CHR ''#'' \<in> set fl" "v \<noteq> 0"
    using spec hash by (auto simp: hash_ok_def)
  with int_text_hash_standard [OF fw s(1) len pw(1) left zero s(3,4) hash] show ?thesis by (simp add: conv_value_def)
qed

lemma conv_int_standard:
  assumes fw: "flag_word fl (prec \<noteq> None) f" and spec: "spec \<in> set (bytes ''diuxXob'')"
    and pw: "unat pw = (case prec of None \<Rightarrow> 0 | Some k \<Rightarrow> k)" "unat pw < 32"
    and left: "chr CHR ''-'' \<in> set fl \<Longrightarrow> prec = None"
    and zero: "chr CHR ''0'' \<in> set fl \<Longrightarrow> unat w \<le> 32" and hash: "hash_ok fl spec (unat w) prec v"
  shows "conv_int out b ml spec f w pw (v # va) p
    = Some (va, emits out b ml (c_integer fl spec (unat w) prec v) p)"
proof -
  have "int_text (conv_value spec v) (spec \<in> {chr CHR ''d'', chr CHR ''i''} \<and> v <s 0) (of_nat (conv_base spec))
      (of_nat (conv_base spec)) pw w (int_flags spec f) = c_integer fl spec (unat w) prec v"
    by (rule int_text_standard [OF flag_word_layout [OF fw] spec _ conv_fits_32 pw left zero hash]) simp_all
  then show ?thesis unfolding conv_int_value [OF fw spec] conv_value_def by simp
qed

subsection \<open>Directives\<close>

abbreviation flag_chars :: "u8 set" where
  "flag_chars \<equiv> set (bytes ''0-+ '')"

abbreviation hash_flag_chars :: "u8 set" where
  "hash_flag_chars \<equiv> set (bytes ''0-+ #'')"

lemma bit_or_flag:
  "bit ((f :: u32) OR 1) n \<longleftrightarrow> bit f n \<or> n = 0" "bit (f OR 2) n \<longleftrightarrow> bit f n \<or> n = 1"
  "bit (f OR 4) n \<longleftrightarrow> bit f n \<or> n = 2" "bit (f OR 8) n \<longleftrightarrow> bit f n \<or> n = 3"
  "bit (f OR 16) n \<longleftrightarrow> bit f n \<or> n = 4"
  "bit (f OR 1024) n \<longleftrightarrow> bit f n \<or> n = 10"
  by (simp_all only: bit_or_iff bit_flag)

lemma parse_flags_chars:
  assumes "c \<notin> hash_flag_chars"
  shows "set fl \<subseteq> hash_flag_chars \<Longrightarrow> \<exists>g. parse_flags (fl @ c # r) f = (g, c # r)
    \<and> (\<forall>n. bit g n \<longleftrightarrow> bit f n \<or> n = 0 \<and> chr CHR ''0'' \<in> set fl \<or> n = 1 \<and> chr CHR ''-'' \<in> set fl
        \<or> n = 2 \<and> chr CHR ''+'' \<in> set fl \<or> n = 3 \<and> chr CHR '' '' \<in> set fl
        \<or> n = 4 \<and> chr CHR ''#'' \<in> set fl)"
proof (induction fl arbitrary: f)
  case Nil
  with assms show ?case by simp
next
  case (Cons a fl)
  then have IH: "\<exists>g. parse_flags (fl @ c # r) f = (g, c # r)
    \<and> (\<forall>n. bit g n \<longleftrightarrow> bit f n \<or> n = 0 \<and> chr CHR ''0'' \<in> set fl \<or> n = 1 \<and> chr CHR ''-'' \<in> set fl
        \<or> n = 2 \<and> chr CHR ''+'' \<in> set fl \<or> n = 3 \<and> chr CHR '' '' \<in> set fl
        \<or> n = 4 \<and> chr CHR ''#'' \<in> set fl)" for f by simp
  from Cons.prems consider "a = chr CHR ''0''" | "a = chr CHR ''-''" | "a = chr CHR ''+''"
    | "a = chr CHR '' ''" | "a = chr CHR ''#''" by auto
  then show ?case
  proof cases
    case 1 then show ?thesis using IH [of "f OR FLAGS_ZEROPAD"] by (auto simp: bit_or_flag)
  next
    case 2 then show ?thesis using IH [of "f OR FLAGS_LEFT"] by (auto simp: bit_or_flag)
  next
    case 3 then show ?thesis using IH [of "f OR FLAGS_PLUS"] by (auto simp: bit_or_flag)
  next
    case 4 then show ?thesis using IH [of "f OR FLAGS_SPACE"] by (auto simp: bit_or_flag)
  next
    case 5 then show ?thesis using IH [of "f OR FLAGS_HASH"] by (auto simp: bit_or_flag)
  qed
qed

lemma parse_flags_word:
  assumes "set fl \<subseteq> hash_flag_chars"
  obtains f where "parse_flags (fl @ chr CHR ''*'' # r) 0 = (f, chr CHR ''*'' # r)"
    "flag_word fl False f" "flag_word fl True (f OR FLAGS_PRECISION)"
  using parse_flags_chars [OF _ assms, of "chr CHR ''*''" r 0] that
  by (auto simp: flag_word_def has_bit bit_or_flag)

lemma star_not_digit [simp]: "\<not> is_digit 42" "\<not> is_digit 46"
  by (simp_all add: is_digit_def word_sle_eq)

lemma int_spec_plain:
  "spec \<in> set (bytes ''diuxXobs'') \<Longrightarrow> parse_length [spec] f = (f, [spec])
     \<and> parse_precision [spec] f va = Some (f, 0, [spec], va)"
  by (auto simp: parse_length_def parse_precision_def)

lemma flag_chars_hash: "set fl \<subseteq> flag_chars \<Longrightarrow> set fl \<subseteq> hash_flag_chars"
  by auto

lemma directive_precision:
  assumes "set fl \<subseteq> flag_chars" "spec \<in> set (bytes ''diuxXobs'')" "\<not> w <s 0"
  obtains f where "flag_word fl True f"
    "parse_directive (fl @ [chr CHR ''*'', chr CHR ''.'', chr CHR ''*'', spec]) (w # pr # va)
      = Some (f, w, if 0 <s pr then pr else 0, [spec], va)"
proof (rule parse_flags_word [OF flag_chars_hash [OF assms(1)], of "[chr CHR ''.'', chr CHR ''*'', spec]"])
  fix f assume "parse_flags (fl @ chr CHR ''*'' # [chr CHR ''.'', chr CHR ''*'', spec]) 0
      = (f, chr CHR ''*'' # [chr CHR ''.'', chr CHR ''*'', spec])"
    "flag_word fl True (f OR FLAGS_PRECISION)"
  then show thesis
    using that [of "f OR FLAGS_PRECISION"] assms(3)
      int_spec_plain [OF assms(2), of "f OR FLAGS_PRECISION", THEN conjunct1]
    by (simp add: parse_directive_def parse_width_def parse_precision_def)
qed

lemma vsn_loop_directive_int:
  assumes "parse_directive (d @ [spec]) va = Some (f, w, pr, [spec], va1)"
    "spec \<in> set (bytes ''diuxXob'')"
    "conv_int out b ml spec f w pr va1 p = Some (va2, p2)"
  shows "vsn_loop fp out b ml (chr CHR ''%'' # d @ [spec]) va p = Some p2"
  using assms by (simp add: convert_def)

lemma length_c_layout:
  "length (c_layout left zero width prec sign ds) = max width (length sign + max prec (length ds))"
  by (auto simp: c_layout_def Let_def max_def)

lemma set_c_layout:
  "c \<notin> {32, 48} \<Longrightarrow> c \<notin> set sign \<Longrightarrow> c \<notin> set ds \<Longrightarrow> c \<notin> set (c_layout left zero width prec sign ds)"
  by (auto simp: c_layout_def Let_def)

lemma length_c_integer_bits:
  fixes v :: "'a :: len word"
  shows "length (c_integer fl spec width prec v)
    \<le> max width (2 + max (case prec of None \<Rightarrow> 0 | Some k \<Rightarrow> k) LENGTH('a))"
proof -
  have "unat (conv_value spec v) < 2 ^ LENGTH('a)"
    using unsigned_less [of "conv_value spec v", where ?'a = nat] by simp
  also have "(2 :: nat) ^ LENGTH('a) \<le> conv_base spec ^ LENGTH('a)" using conv_base_range(1) by (rule power_mono) simp
  finally have "length (digits (conv_base spec) (unat (conv_value spec v))) \<le> LENGTH('a)" by (rule length_digits) simp
  then have "length (digits (conv_base spec)
      (if spec \<in> {chr CHR ''d'', chr CHR ''i''} then nat \<bar>sint v\<bar> else unat v)) \<le> LENGTH('a)"
    unfolding unat_conv_value .
  moreover have "length (sign_chars a b c) \<le> 2" for a b c
    by (rule order.trans [OF length_sign_chars]) simp
  moreover have "length (hash_prefix fl spec) \<le> 2"
    using length_base_prefix(2) by (simp add: hash_prefix_def)
  ultimately show ?thesis
    unfolding c_integer_def Let_def length_c_layout
    by (intro max.mono add_mono order_refl) simp_all
qed

lemma length_c_integer_le:
  "length (c_integer fl spec width prec (v :: u32)) \<le> max width (2 + max (case prec of None \<Rightarrow> 0 | Some k \<Rightarrow> k) 32)"
  using length_c_integer_bits [of fl spec width prec v] by simp

lemma length_c_integer:
  assumes "width < 2 ^ 31" "\<And>k. prec = Some k \<Longrightarrow> k < 2 ^ 31"
  shows "length (c_integer fl spec width prec (v :: u32)) < 2 ^ 32"
  using assms by (intro le_less_trans [OF length_c_integer_le]) (cases prec, auto)

lemma c_integer_printable:
  assumes "c < 32" shows "c \<notin> set (c_integer fl spec width prec v)"
proof -
  have "c \<notin> set (sign_chars x y z)" for x y z using assms by (auto simp: sign_chars_def)
  moreover have "c \<notin> set (radix_text u (conv_base spec) n)" for u n
    using conv_base_range [of spec] assms by (intro radix_text_printable) simp_all
  moreover have "c \<notin> set (hash_prefix fl spec)"
    using assms by (auto simp: hash_prefix_def base_prefix_def)
  moreover have "c \<notin> {32, 48}" using assms by auto
  ultimately show ?thesis unfolding c_integer_def Let_def by (intro set_c_layout) simp_all
qed

lemma c_integer_nonzero: "0 \<notin> set (c_integer fl spec width prec v)"
  by (rule c_integer_printable) simp

subsection \<open>A left-justified number loses its precision\<close>

lemma conv_int_left:
  assumes fw: "flag_word fl True f" and spec: "spec \<in> set (bytes ''diuxXob'')"
    and "chr CHR ''-'' \<in> set fl" "v \<noteq> 0" "chr CHR ''#'' \<notin> set fl"
  shows "conv_int out b ml spec f w pw (v # va) p
    = Some (va, emits out b ml (c_integer fl spec (unat w) None v) p)"
proof -
  let ?signed = "spec \<in> {chr CHR ''d'', chr CHR ''i''}"
  let ?n = "if ?signed then magnitude v else v"
  let ?g = "int_flags spec f"
  let ?sign = "sign_chars (?signed \<and> v <s 0) (has ?g FLAGS_PLUS) (has ?g FLAGS_SPACE)"
  let ?ds = "radix_text (has ?g FLAGS_UPPERCASE) (conv_base spec) (unat ?n)"
  note g = int_flags_word [OF fw spec]
  have h: "\<not> has ?g FLAGS_HASH" using g(7) assms(5) by simp
  have l: "has ?g FLAGS_LEFT" using g(2) assms(3) by simp
  note sign = conv_sign [OF flag_word_layout [OF fw] spec, of "v <s 0"]
  have "length ?sign \<le> (if ?signed then 1 else 0)" unfolding sign using length_sign_chars by simp
  moreover have "length ?ds + (if ?signed then 1 else 0) \<le> 32"
    using conv_fits_32 [of spec v] by (auto simp: conv_fits_def conv_value_def split: if_splits)
  ultimately have room: "length ?ds + length ?sign \<le> 32" by linarith
  have nz: "?n \<noteq> 0" using assms(4) by (simp add: magnitude_zero)
  have un: "unat ?n = (if ?signed then nat \<bar>sint v\<bar> else unat v)" by (simp add: unat_magnitude)
  have drop: "int_text n neg c c32 pw w ?g = int_text n neg c c32 0 w ?g" if "n \<noteq> 0" for n neg c c32
    using that l h by (simp add: int_text_def ntoa_text_def ntoa_zeros_def ntoa_hash_def)
  have "int_text ?n (?signed \<and> v <s 0) (of_nat (conv_base spec)) (of_nat (conv_base spec)) 0 w ?g
    = c_layout (has ?g FLAGS_LEFT) (has ?g FLAGS_ZEROPAD) (unat w) (unat (0 :: u32)) ?sign
        (if has ?g FLAGS_PRECISION \<and> ?n = 0 then [] else ?ds)"
    using room nz l h by (intro int_text_layout conv_base_range) simp_all
  also have "\<dots> = c_integer fl spec (unat w) None v"
    using nz l g(6) assms(3,5) unfolding c_integer_def Let_def sign
    by (simp add: hash_prefix_def c_layout_def unat_magnitude)
  finally show ?thesis unfolding conv_int_value [OF fw spec] drop [OF nz] by simp
qed

subsection \<open>\<open>long\<close> and \<open>long long\<close>\<close>

lemma unat_widen [simp]: "unat (ucast (v :: u32) :: u64) = unat v"
proof -
  have "unat v < 2 ^ 64" by (rule less_trans [OF unat_u32_less]) simp
  then show ?thesis by (simp add: unsigned_ucast_eq take_bit_nat_eq_self)
qed

lemma ucast_widen [simp]: "(ucast (ucast (v :: u32) :: u64) :: 'a :: len word) = ucast v"
  by (rule bit_word_eqI) (auto simp: bit_ucast_iff dest: bit_imp_le_length)

lemma ntoa_loop_widen:
  fixes v b :: u32
  shows "ntoa_loop (ucast v :: u64) (ucast b) fl buf = ntoa_loop v b fl buf"
proof (induction v b fl buf rule: ntoa_loop.induct)
  case (1 v b fl buf)
  have m: "(ucast v :: u64) mod ucast b = ucast (v mod b)" and d: "(ucast v :: u64) div ucast b = ucast (v div b)"
    by (simp_all only: word_unat_eq_iff unat_mod unat_div unat_widen)
  have u: "(ucast (ucast (v mod b) :: u64) :: u8) = ucast (v mod b)" by (rule ucast_widen)
  have z: "(ucast (v div b) :: u64) \<noteq> 0 \<longleftrightarrow> v div b \<noteq> 0" by (simp only: word_unat_eq_iff unat_widen unat_0)
  show ?case
    using 1 unfolding ntoa_loop.simps [of "ucast v :: u64"] ntoa_loop.simps [of v] Let_def m d u z
    by (cases "v div b \<noteq> 0 \<and> room (buf @ [digit_char (ucast (v mod b)) fl])") auto
qed

lemma ntoa_long_long_widen:
  fixes v b :: u32
  shows "ntoa_long_long out buffer ml (ucast v) neg (ucast b) prec w fl p
    = ntoa_long out buffer ml v neg b prec w fl p"
proof -
  have "(ucast v :: u64) = 0 \<longleftrightarrow> v = 0" by (simp only: word_unat_eq_iff unat_widen unat_0)
  then show ?thesis
    unfolding ntoa_long_long_def ntoa_long_def ntoa_loop_widen ucast_widen by simp
qed

text \<open>The flag word of \<open>ll\<close> alone: nothing that the layout looks at.\<close>

lemma int_flags_ll:
  assumes "spec \<in> set (bytes ''uxXob'')"
  defines "g \<equiv> int_flags spec (FLAGS_LONG OR FLAGS_LONG_LONG)"
  shows "has g FLAGS_LONG_LONG" "\<not> has g FLAGS_ZEROPAD" "\<not> has g FLAGS_LEFT" "\<not> has g FLAGS_PRECISION"
    "\<not> has g FLAGS_PLUS" "\<not> has g FLAGS_SPACE" "has g FLAGS_UPPERCASE \<longleftrightarrow> spec = chr CHR ''X''"
    "\<not> has g FLAGS_HASH"
proof -
  have "bit (FLAGS_LONG OR FLAGS_LONG_LONG) n \<longleftrightarrow> n = 8 \<or> n = 9" for n
    by (simp only: bit_or_iff bit_flag)
  then show "has g FLAGS_LONG_LONG" "\<not> has g FLAGS_ZEROPAD" "\<not> has g FLAGS_LEFT" "\<not> has g FLAGS_PRECISION"
    "\<not> has g FLAGS_PLUS" "\<not> has g FLAGS_SPACE" "has g FLAGS_UPPERCASE \<longleftrightarrow> spec = chr CHR ''X''"
    "\<not> has g FLAGS_HASH"
    using assms(1) unfolding g_def int_flags_def Let_def has_bit
    by (auto simp: bit_and_iff bit_or_iff bit_not_iff bit_flag)
qed

lemma long_long_low: "long_long (v, 0) = ucast v"
  by (simp add: long_long_def)

lemma conv_int_ll:
  assumes "spec \<in> set (bytes ''uxXob'')"
  shows "conv_int out b ml spec (FLAGS_LONG OR FLAGS_LONG_LONG) 0 0 (v # 0 # va) p
    = Some (va, emits out b ml (c_integer [] spec 0 None v) p)"
proof -
  let ?g = "int_flags spec (FLAGS_LONG OR FLAGS_LONG_LONG)"
  note g = int_flags_ll [OF assms]
  have spec: "spec \<in> set (bytes ''diuxXob'')" "spec \<notin> {chr CHR ''d'', chr CHR ''i''}" using assms by auto
  have "int_text v False (of_nat (conv_base spec)) (of_nat (conv_base spec)) 0 0 ?g
    = c_layout False False (unat (0 :: u32)) (unat (0 :: u32)) [] (radix_text (spec = chr CHR ''X'') (conv_base spec) (unat v))"
    using int_text_layout [OF conv_base_range _ disjI1 [OF g(8)], where v = v and neg = False and prec = 0
        and width = 0 and bw = "of_nat (conv_base spec)"] g
      length_digits_u32 [OF conv_base_range(1), of spec v]
    by (simp add: sign_chars_def)
  also have "\<dots> = c_integer [] spec 0 None v" using spec(2) by (simp add: c_integer_def hash_prefix_def)
  finally have "ntoa_long out b ml v False (of_nat (conv_base spec)) 0 0 ?g p
      = emits out b ml (c_integer [] spec 0 None v) p" by (simp add: ntoa_long_emits)
  then show ?thesis
    using spec g(1) int_base_conv [OF spec(1)]
    by (simp add: conv_int_def Let_def long_long_low ntoa_long_long_widen)
qed

subsection \<open>The length of a conversion\<close>

lemma length_rev_text: "length (rev_text buf w fl) \<le> max (length buf) (unat w)"
  by (auto simp: rev_text_def)

lemma length_int_text: "length (int_text v neg base base32 prec w fl) \<le> max 32 (unat w)"
proof -
  have z: "length (fst (ntoa_zeros neg prec w f buf)) \<le> 32 \<and> unat (snd (ntoa_zeros neg prec w f buf)) \<le> unat w"
    if "length buf \<le> 32" for f buf
    using length_ntoa_zeros [OF that, of neg prec w f] by (auto simp: ntoa_zeros_def Let_def unat_dec_nat)
  have "length (ntoa_text buf neg base32 prec w f) \<le> max 32 (unat w)" if "length buf \<le> 32" for f buf
  proof -
    obtain b1 w1 where z1: "ntoa_zeros neg prec w f buf = (b1, w1)" by fastforce
    with z [OF that, of f] have b1: "length b1 \<le> 32" "unat w1 \<le> unat w" by simp_all
    then have "length (ntoa_sign neg f (ntoa_hash base32 prec w1 f b1)) \<le> 32"
      by (intro length_ntoa_sign length_ntoa_hash)
    then show ?thesis
      using b1(2) length_rev_text [of "ntoa_sign neg f (ntoa_hash base32 prec w1 f b1)" w1 f]
      by (simp add: ntoa_text_def z1)
  qed
  moreover have "length (if c then ntoa_loop v base f [] else []) \<le> 32" for c f
    using length_ntoa_loop [of "[]" v base f] by simp
  ultimately show ?thesis by (simp only: int_text_def Let_def)
qed

definition short_output :: "out_fct \<Rightarrow> u32 \<Rightarrow> u32 \<Rightarrow> u32 \<Rightarrow> pos \<Rightarrow> pos \<Rightarrow> bool" where
  "short_output out b ml w p p' \<longleftrightarrow> (\<exists>cs. p' = emits out b ml cs p \<and> length cs \<le> max 32 (unat w))"

lemma conv_int_short:
  "conv_int out b ml spec f w pr va p = Some (va', p') \<Longrightarrow> short_output out b ml w p p'"
  unfolding short_output_def conv_int_def Let_def ntoa_long_emits ntoa_long_long_emits
  by (auto simp: bind_eq_Some_conv length_int_text split: if_splits prod.splits)

subsection \<open>Properties\<close>

text \<open>In a left-justified directive the precision has no effect: \<open>%-*.*d\<close> prints a number other than
  zero without the leading zeros it asks for.\<close>

theorem left_drops_precision:
  assumes "set fl \<subseteq> flag_chars" "chr CHR ''-'' \<in> set fl" "spec \<in> set (bytes ''diuxXob'')" "\<not> w <s 0" "v \<noteq> 0"
  shows "vsn_loop fp out b ml
      (chr CHR ''%'' # (fl @ [chr CHR ''*'', chr CHR ''.'', chr CHR ''*'']) @ [spec]) [w, pr, v] p
    = Some (emits out b ml (c_integer fl spec (unat w) None v) p)"
proof -
  have spec: "spec \<in> set (bytes ''diuxXobs'')" using assms(3) by auto
  have hash: "chr CHR ''#'' \<notin> set fl" using assms(1) by auto
  obtain f where f: "flag_word fl True f"
    "parse_directive (fl @ [chr CHR ''*'', chr CHR ''.'', chr CHR ''*'', spec]) [w, pr, v]
      = Some (f, w, if 0 <s pr then pr else 0, [spec], [v])"
    using directive_precision [OF assms(1) spec assms(4), of pr "[v]"] by metis
  then have "parse_directive ((fl @ [chr CHR ''*'', chr CHR ''.'', chr CHR ''*'']) @ [spec]) [w, pr, v]
      = Some (f, w, if 0 <s pr then pr else 0, [spec], [v])" by simp
  from vsn_loop_directive_int [OF this assms(3) conv_int_left [OF f(1) assms(3,2,5) hash]]
  show ?thesis .
qed

theorem left_drops_precision_witness:
  "vsn_loop int_fpu Out_null 0 0
      (chr CHR ''%'' # ([chr CHR ''-''] @ [chr CHR ''*'', chr CHR ''.'', chr CHR ''*'']) @ [chr CHR ''d''])
      [4, 3, 7] (0, initial_machine (\<lambda>_. 0) [])
    = Some (emits Out_null 0 0 (bytes ''7   '') (0, initial_machine (\<lambda>_. 0) []))"
proof -
  have "rdigits 10 7 = [7]" by (simp add: rdigits.simps)
  then have "c_integer [chr CHR ''-''] (chr CHR ''d'') (unat (4 :: u32)) None (7 :: u32) = bytes ''7   ''"
    by (simp add: c_integer_def c_layout_def sign_chars_def radix_text_def radix_char_def digits_def
        conv_base_def word_sless_alt numeral_3_eq_3)
  with left_drops_precision [of "[chr CHR ''-'']" "chr CHR ''d''" 4 7 int_fpu Out_null 0 0 3
      "(0, initial_machine (\<lambda>_. 0) [])"]
  show ?thesis by (simp add: word_sless_alt)
qed

text \<open>C31: A 32-bit number printed as \<open>unsigned int\<close> and the same number printed as \<open>unsigned long long\<close>
  give the same output and the same machine, for every function of the family.\<close>

theorem long_long_prints_the_same:
  assumes "spec \<in> set (bytes ''uxXob'')"
  shows "vsnprintf_core fp out b ml (chr CHR ''%'' # bytes ''ll'' @ [spec]) [v, 0] s
    = vsnprintf_core fp out b ml [chr CHR ''%'', spec] [v] s"
proof -
  have spec: "spec \<in> set (bytes ''diuxXob'')" using assms by auto
  have d1: "parse_directive (bytes ''ll'' @ [spec]) [v, 0] = Some (FLAGS_LONG OR FLAGS_LONG_LONG, 0, 0, [spec], [v, 0])"
    using assms by (auto simp: parse_directive_def parse_width_def parse_precision_def parse_length_def
        is_digit_def word_sle_eq)
  have d2: "parse_directive ([] @ [spec]) [v] = Some (0, 0, 0, [spec], [v])"
    using assms by (auto simp: parse_directive_def parse_width_def parse_precision_def parse_length_def
        is_digit_def word_sle_eq)
  have "flag_word [] False 0" by (simp add: flag_word_def has_def)
  then have "conv_int out b ml spec 0 0 0 [v] p = Some ([], emits out b ml (c_integer [] spec 0 None v) p)" for out p
    using conv_int_standard [of "[]" None 0 spec 0 0] spec by (simp add: hash_ok_def)
  note e2 = vsn_loop_directive_int [OF d2 spec this, unfolded append_Nil]
  note e1 = vsn_loop_directive_int [OF d1 spec conv_int_ll [OF assms]]
  show ?thesis unfolding vsnprintf_core_def e1 e2 ..
qed

theorem long_long_prints_the_same_witness:
  "vsnprintf_core int_fpu Out_char 1 (- 1) (chr CHR ''%'' # bytes ''ll'' @ [chr CHR ''x'']) [255, 0] (initial_machine (\<lambda>_. 0) [])
    = vsnprintf_core int_fpu Out_char 1 (- 1) [chr CHR ''%'', chr CHR ''x''] [255] (initial_machine (\<lambda>_. 0) [])"
  by (rule long_long_prints_the_same) simp

text \<open>C32: One integer conversion, whatever its flags, precision and argument, emits at most as many
  characters as its width says, or 32 if that is more.\<close>

theorem integer_conversion_bounded:
  assumes "conv_int out b ml spec f w pr va p = Some (va', p')"
  shows "unat (fst p' - fst p) \<le> max 32 (unat w)"
proof -
  from conv_int_short [OF assms] obtain cs where cs: "p' = emits out b ml cs p" "length cs \<le> max 32 (unat w)"
    by (auto simp: short_output_def)
  have "max 32 (unat w) < 2 ^ 32" using unat_u32_less [of w] by simp
  with cs(2) have "length cs < 2 ^ 32" by (rule le_less_trans)
  with cs show ?thesis by (simp add: fst_emits unat_of_nat_u32)
qed

theorem integer_conversion_bounded_witness:
  "unat (fst (snd (the (conv_int Out_null 0 0 (chr CHR ''b'') 0 40 0 [255] (0, initial_machine (\<lambda>_. 0) [])))) - 0)
    \<le> max 32 (unat (40 :: u32))"
proof -
  have "flag_word [] False 0" by (simp add: flag_word_def has_def)
  then obtain p' where p': "conv_int Out_null 0 0 (chr CHR ''b'') 0 40 0 [255] (0, initial_machine (\<lambda>_. 0) []) = Some ([], p')"
    using conv_int_standard [of "[]" None 0 "chr CHR ''b''" 0 40] by (simp add: hash_ok_def)
  from integer_conversion_bounded [OF this] show ?thesis unfolding p' by simp
qed

end
