(* ===== verification/Printf_Console.thy ===== *)
theory Printf_Console
  imports Printf_Text
begin

text \<open>
  \<open>printf\<close> on the console: the text a format with several directives shows.  Output on the
  console writes the VGA window only, so that a string argument outside the window is still
  there when it is printed.
\<close>

subsection \<open>String arguments\<close>

definition off_screen :: "mem \<Rightarrow> u32 \<Rightarrow> u8 list \<Rightarrow> bool" where
  "off_screen m q t \<longleftrightarrow> cstr m q t \<and> span q (Suc (length t)) \<inter> vga_window = {}"

lemma off_screen_frame:
  assumes "off_screen m q t" "same_outside vga_window m m'" shows "cstr m' q t"
proof -
  have "cstr m' q t \<longleftrightarrow> cstr m q t"
    using assms by (intro cstr_cong) (auto simp: off_screen_def same_outside_def)
  then show ?thesis using assms(1) by (simp add: off_screen_def)
qed

lemma emits_char_frame:
  assumes "term_ok (snd p)" "8 \<notin> set cs"
  shows "term_ok (snd (emits Out_char b ml cs p))
    \<and> same_outside vga_window (ram (snd p)) (ram (snd (emits Out_char b ml cs p)))"
proof -
  have safe: "\<forall>c \<in> set cs. c \<noteq> 8" using assms(2) by auto
  show ?thesis
    using console_sink.emits_inv [OF assms(1) safe] console_sink.emits_kept [OF assms(1) safe]
    by (simp add: same_outside_def)
qed

subsection \<open>Directives\<close>

text \<open>The formats used in the sources: \<open>%i\<close>, \<open>%s\<close> and \<open>%zu\<close>.\<close>

lemma parse_int:
  "parse_directive (chr CHR ''i'' # fmt) va = Some (0, 0, 0, chr CHR ''i'' # fmt, va)"
  by (simp add: parse_directive_def parse_width_def parse_precision_def parse_length_def is_digit_def)

lemma parse_str:
  "parse_directive (chr CHR ''s'' # fmt) va = Some (0, 0, 0, chr CHR ''s'' # fmt, va)"
  by (simp add: parse_directive_def parse_width_def parse_precision_def parse_length_def is_digit_def)

lemma parse_size:
  "parse_directive (chr CHR ''z'' # chr CHR ''u'' # fmt) va = Some (FLAGS_LONG, 0, 0, chr CHR ''u'' # fmt, va)"
  by (simp add: parse_directive_def parse_width_def parse_precision_def parse_length_def is_digit_def)

lemma has_none [simp]: "\<not> has 0 f"
  by (simp add: has_def)

lemma conv_plain:
  "conv_int out b ml (chr CHR ''i'') 0 0 0 (v # va) p
     = Some (va, emits out b ml (c_integer [] (chr CHR ''i'') 0 None v) p)"
  using conv_int_standard [of "[]" None 0 "chr CHR ''i''" 0 0 v out b ml va p] by (simp add: flag_word_def hash_ok_def)

lemma conv_size:
  "conv_int out b ml (chr CHR ''u'') FLAGS_LONG 0 0 (v # va) p
     = Some (va, emits out b ml (c_integer [] (chr CHR ''u'') 0 None v) p)"
proof -
  let ?u = "chr CHR ''u''"
  let ?g = "int_flags ?u FLAGS_LONG"
  have g: "has ?g FLAGS_LONG" "\<not> has ?g FLAGS_LONG_LONG" "\<not> has ?g FLAGS_ZEROPAD" "\<not> has ?g FLAGS_LEFT"
    "\<not> has ?g FLAGS_PRECISION" "\<not> has ?g FLAGS_PLUS" "\<not> has ?g FLAGS_SPACE" "\<not> has ?g FLAGS_UPPERCASE"
    "\<not> has ?g FLAGS_HASH"
    by (simp_all add: int_flags_def int_base_def has_def Let_def)
  have "int_text v False (of_nat 10) (of_nat 10) 0 0 ?g
    = c_layout False False (unat (0 :: u32)) (unat (0 :: u32)) [] (radix_text False 10 (unat v))"
    using int_text_layout [of 10 ?g v False 0 0 "of_nat 10"] g length_digits_10 [of v]
    by (simp add: sign_chars_def)
  also have "\<dots> = c_integer [] ?u 0 None v" by (simp add: c_integer_def conv_base_def hash_prefix_def)
  finally show ?thesis using g by (simp add: conv_int_def int_base_def Let_def ntoa_long_emits)
qed

lemma conv_off_screen:
  assumes "off_screen m q t" "same_outside vga_window m (ram (snd p))" "term_ok (snd p)" "8 \<notin> set t"
  shows "conv_str Out_char b ml 0 0 0 (q # va) p = Some (va, emits Out_char b ml t p)"
proof -
  have c: "cstr (ram (snd p)) q t" using assms(1,2) by (rule off_screen_frame)
  have k: "span q (Suc (length t)) \<subseteq> - vga_window" using assms(1) by (auto simp: off_screen_def)
  have "str_loop Out_char b ml False 0 q p = Some (emits Out_char b ml t p)"
    using console_sink.str_loop_text [OF assms(3) _ c k, where b = b and ml = ml and lim = False and pr = 0]
      assms(4) by auto
  then show ?thesis by (simp add: conv_str_def pad_loop_emits)
qed

subsection \<open>Formats\<close>

text \<open>
  \<open>prints fp fmt va m cs\<close>: with the string arguments in the memory \<open>m\<close>, the format shows the
  text \<open>cs\<close> on any console.
\<close>

definition prints :: "'d fpu \<Rightarrow> u8 list \<Rightarrow> va \<Rightarrow> mem \<Rightarrow> u8 list \<Rightarrow> bool" where
  "prints fp fmt va m cs \<longleftrightarrow> 0 \<notin> set cs \<and> 8 \<notin> set cs
     \<and> (\<forall>b ml p. term_ok (snd p) \<longrightarrow> same_outside vga_window m (ram (snd p))
         \<longrightarrow> vsn_loop fp Out_char b ml fmt va p = Some (emits Out_char b ml cs p))"

lemma prints_Nil: "prints fp [] va m []"
  by (simp add: prints_def)

lemma prints_step:
  assumes "prints fp fmt va' m cs" "0 \<notin> set ds" "8 \<notin> set ds"
    and "\<And>b ml p. term_ok (snd p) \<Longrightarrow> same_outside vga_window m (ram (snd p))
      \<Longrightarrow> vsn_loop fp Out_char b ml fmt0 va p = vsn_loop fp Out_char b ml fmt va' (emits Out_char b ml ds p)"
  shows "prints fp fmt0 va m (ds @ cs)"
  unfolding prints_def
proof (intro conjI allI impI)
  show "0 \<notin> set (ds @ cs)" "8 \<notin> set (ds @ cs)" using assms(1-3) by (simp_all add: prints_def)
  fix b ml and p :: pos assume p: "term_ok (snd p)" "same_outside vga_window m (ram (snd p))"
  have f: "term_ok (snd (emits Out_char b ml ds p))"
    "same_outside vga_window (ram (snd p)) (ram (snd (emits Out_char b ml ds p)))"
    using emits_char_frame [OF p(1) assms(3)] by blast+
  have "vsn_loop fp Out_char b ml fmt va' (emits Out_char b ml ds p)
      = Some (emits Out_char b ml cs (emits Out_char b ml ds p))"
    using assms(1) f(1) same_outside_trans [OF p(2) f(2)] unfolding prints_def by blast
  then show "vsn_loop fp Out_char b ml fmt0 va p = Some (emits Out_char b ml (ds @ cs) p)"
    using assms(4) [OF p] by (simp add: emits_append)
qed

lemma prints_char:
  assumes "prints fp fmt va m cs" "c \<notin> {chr CHR ''%'', 0, 8}"
  shows "prints fp (c # fmt) va m (c # cs)"
  using prints_step [OF assms(1), of "[c]" "c # fmt" va] assms(2) by simp

lemma prints_literal:
  assumes "prints fp fmt va m cs" "set lit \<inter> {chr CHR ''%'', 0, 8} = {}"
  shows "prints fp (lit @ fmt) va m (lit @ cs)"
  using assms(2) by (induction lit) (simp_all add: assms(1) prints_char)

lemma prints_text:
  assumes "set lit \<inter> {chr CHR ''%'', 0, 8} = {}" shows "prints fp lit va m lit"
  using prints_literal [OF prints_Nil assms, of fp va m] by simp

lemma prints_int:
  assumes "prints fp fmt va m cs"
  shows "prints fp (chr CHR ''%'' # chr CHR ''i'' # fmt) (v # va) m
    (c_integer [] (chr CHR ''i'') 0 None v @ cs)"
  by (rule prints_step [OF assms c_integer_nonzero c_integer_printable])
    (simp_all add: parse_int [simplified] convert_def conv_plain [simplified])

definition decimal :: "nat \<Rightarrow> u8 list" where
  "decimal n = radix_text False 10 n"

lemma c_integer_unsigned: "c_integer [] (chr CHR ''u'') 0 None v = decimal (unat v)"
  by (simp add: c_integer_def c_layout_def conv_base_def decimal_def hash_prefix_def)

lemma prints_size:
  assumes "prints fp fmt va m cs"
  shows "prints fp (chr CHR ''%'' # chr CHR ''z'' # chr CHR ''u'' # fmt) (v # va) m
    (decimal (unat v) @ cs)"
  unfolding c_integer_unsigned [symmetric]
  by (rule prints_step [OF assms c_integer_nonzero c_integer_printable])
    (simp_all add: parse_size [simplified] convert_def conv_size [simplified])

lemma prints_string:
  assumes "prints fp fmt va m cs" "off_screen m q t" "8 \<notin> set t"
  shows "prints fp (chr CHR ''%'' # chr CHR ''s'' # fmt) (q # va) m (t @ cs)"
proof (rule prints_step [OF assms(1) _ assms(3)])
  have "cstr m q t \<Longrightarrow> 0 \<notin> set t" by (induction t arbitrary: q) auto
  then show "0 \<notin> set t" using assms(2) by (simp add: off_screen_def)
  show "vsn_loop fp Out_char b ml (chr CHR ''%'' # chr CHR ''s'' # fmt) (q # va) p
      = vsn_loop fp Out_char b ml fmt va (emits Out_char b ml t p)"
    if "term_ok (snd p)" "same_outside vga_window m (ram (snd p))" for b ml p
    using conv_off_screen [OF assms(2) that(2,1) assms(3)] by (simp add: parse_str [simplified] convert_def)
qed

lemmas prints_rules = prints_Nil prints_char [simplified] prints_int [simplified]
  prints_size [simplified] prints_string [simplified]

subsection \<open>What has been shown\<close>

text \<open>The text \<open>cs\<close> has been put on the console, and nothing else has happened.\<close>

definition shown :: "u8 list \<Rightarrow> machine \<Rightarrow> machine \<Rightarrow> bool" where
  "shown cs s s' \<longleftrightarrow> term_ok s' \<and> heap_master s' = heap_master s \<and> io_in s' = io_in s
     \<and> same_outside vga_window (ram s) (ram s') \<and> view s' = fold char_put cs (view s)"

lemma shown_Nil: "term_ok s \<Longrightarrow> shown [] s s"
  by (simp add: shown_def same_outside_def)

lemma shown_trans: "shown cs s s1 \<Longrightarrow> shown ds s1 s2 \<Longrightarrow> shown (cs @ ds) s s2"
  by (auto simp: shown_def intro: same_outside_trans)

lemma shown_ok: "shown cs s s' \<Longrightarrow> term_ok s'"
  by (simp add: shown_def)

lemma off_screen_shown: "off_screen (ram s) q t \<Longrightarrow> shown cs s s' \<Longrightarrow> off_screen (ram s') q t"
  using off_screen_frame [of "ram s" q t "ram s'"] by (simp add: shown_def off_screen_def)

lemma printf_result:
  assumes "prints fp fmt va (ram s) cs" "term_ok s"
  shows "printf fp fmt va s = Some (of_nat (length cs), fold putchar_c cs s)"
  using assms emits_char [of cs local_buffer "- 1" 0 s]
  by (simp add: prints_def printf_def vsnprintf_core_def local_buffer_def same_outside_def)

lemma printf_shown:
  assumes "prints fp fmt va (ram s) cs" "term_ok s"
  obtains s' where "printf fp fmt va s = Some (of_nat (length cs), s')" "shown cs s s'"
proof
  show "printf fp fmt va s = Some (of_nat (length cs), fold putchar_c cs s)" using assms by (rule printf_result)
  show "shown cs s (fold putchar_c cs s)"
    using assms print_view [of s cs] by (simp add: prints_def shown_def print_rest)
qed

lemma decimal_printable: "c < 32 \<Longrightarrow> c \<notin> set (decimal n)"
  by (simp add: decimal_def radix_text_printable)

subsection \<open>A line of text\<close>

lemma char_put_plain:
  assumes "32 \<le> c" "Suc (ccol t) < 80" "crow t < 25"
  shows "char_put c t = t\<lparr>cells := (cells t)[80 * crow t + ccol t := vga_entry c (cattr t)], ccol := Suc (ccol t)\<rparr>"
proof -
  have e: "char_to_int c = x \<Longrightarrow> c = ucast x" for x using ucast_char_to_int [of c] by simp
  have "c \<notin> {8, 9, 10, 11, 13}" using assms(1) by auto
  then have "char_to_int c \<notin> {8, 9, 10, 11, 13}" using e [of 8] e [of 9] e [of 10] e [of 11] e [of 13] by auto
  then show ?thesis using assms(2,3) by (simp add: tty_put_def tty_char_def tty_settle_def Let_def)
qed

text \<open>Printable characters that do not reach the end of the line.\<close>

lemma put_line:
  "\<forall>c \<in> set cs. 32 \<le> c \<Longrightarrow> ccol t + length cs < 80 \<Longrightarrow> crow t < 25 \<Longrightarrow> length (cells t) = 2000
     \<Longrightarrow> fold char_put cs t = t\<lparr>cells := take (80 * crow t + ccol t) (cells t)
         @ map (\<lambda>c. vga_entry c (cattr t)) cs @ drop (80 * crow t + ccol t + length cs) (cells t),
         ccol := ccol t + length cs\<rparr>"
proof (induction cs arbitrary: t)
  case (Cons c cs)
  then have p: "char_put c t = t\<lparr>cells := (cells t)[80 * crow t + ccol t := vga_entry c (cattr t)],
      ccol := Suc (ccol t)\<rparr>" by (intro char_put_plain) simp_all
  have "80 * crow t + ccol t < length (cells t)" using Cons.prems by simp
  then show ?case using Cons.prems unfolding fold_Cons comp_apply p
    by (subst Cons.IH) (simp_all add: take_Suc_conv_app_nth take_update_swap list_update_append)
qed simp

end
