(* ===== verification/Alloc.thy ===== *)
theory Alloc
  imports Printf_Spec
begin

text \<open>
  The heap of \<open>libc/alloc.c\<close>, as it is in memory.  The descriptors of a region (\<open>struct
  mem_block\<close>: next at offset 0, size at 4, type at 8, 12 bytes in all) are an array at the
  start of the region; the region records are in the master record of the machine.  The
  walks over the linked descriptors are partial functions: a cyclic list is never left.
\<close>

subsection \<open>Descriptors\<close>

abbreviation sizeof_mem_block :: u32 where "sizeof_mem_block \<equiv> 12"

definition blk_next :: "mem \<Rightarrow> u32 \<Rightarrow> u32" where "blk_next m b = ld32 m b"
definition blk_size :: "mem \<Rightarrow> u32 \<Rightarrow> u32" where "blk_size m b = ld32 m (b + 4)"
definition blk_type :: "mem \<Rightarrow> u32 \<Rightarrow> u8" where "blk_type m b = m (b + 8)"

definition set_next :: "u32 \<Rightarrow> u32 \<Rightarrow> mem \<Rightarrow> mem" where "set_next b v m = st32 m b v"
definition set_size :: "u32 \<Rightarrow> u32 \<Rightarrow> mem \<Rightarrow> mem" where "set_size b v m = st32 m (b + 4) v"
definition set_type :: "u32 \<Rightarrow> u8 \<Rightarrow> mem \<Rightarrow> mem" where "set_type b v m = m(b + 8 := v)"

subsection \<open>Regions\<close>

abbreviation DEFAULT_MAX_REGIONS :: u32 where "DEFAULT_MAX_REGIONS \<equiv> 4"
abbreviation DEFAULT_DESCRIPTORS_PER_BYTES :: u32 where "DEFAULT_DESCRIPTORS_PER_BYTES \<equiv> 4096"

definition region :: "machine \<Rightarrow> nat \<Rightarrow> mem_region" where
  "region s i = ms_regions (heap_master s) i"

definition set_region :: "nat \<Rightarrow> mem_region \<Rightarrow> machine \<Rightarrow> machine" where
  "set_region i rg s = s\<lparr>heap_master := (heap_master s)
     \<lparr>ms_regions := (ms_regions (heap_master s))(i := rg)\<rparr>\<rparr>"

text \<open>\<open>region->free_size -= d\<close>; adding is subtracting the negative.\<close>

definition take_free :: "nat \<Rightarrow> u32 \<Rightarrow> machine \<Rightarrow> machine" where
  "take_free i d s = set_region i ((region s i)\<lparr>rg_free_size := rg_free_size (region s i) - d\<rparr>) s"

text \<open>The region indices in the order of the loops, bounded by \<open>max_regions\<close>.\<close>

definition region_order :: "machine \<Rightarrow> nat list" where
  "region_order s = [0..<unat (ms_max_regions (heap_master s))]"

definition mem_init_master :: "machine \<Rightarrow> u32 \<times> machine" where
  "mem_init_master s = (0, s\<lparr>heap_master := \<lparr>ms_next = 0, ms_max_regions = DEFAULT_MAX_REGIONS,
     ms_regions = (\<lambda>i. if i < unat DEFAULT_MAX_REGIONS then mem_region_0
       else ms_regions (heap_master s) i)\<rparr>\<rparr>)"

text \<open>The first region without an address; the last one examined if there is none.\<close>

fun find_region :: "(nat \<Rightarrow> mem_region) \<Rightarrow> nat list \<Rightarrow> nat option \<Rightarrow> nat option" where
  "find_region regs [] r = r"
| "find_region regs (i # is) r =
     (if rg_addr (regs i) = 0 then Some i else find_region regs is (Some i))"

fun mark_not_present :: "nat \<Rightarrow> u32 \<Rightarrow> mem \<Rightarrow> mem" where
  "mark_not_present 0 b m = m"
| "mark_not_present (Suc n) b m =
     mark_not_present n (b + sizeof_mem_block) (set_type b BLOCK_NOT_PRESENT m)"

definition max_blocks_for :: "u32 \<Rightarrow> u32" where
  "max_blocks_for sz = (let n = sz div DEFAULT_DESCRIPTORS_PER_BYTES
     in if n < 8192 then 8192 else n)"

text \<open>\<open>mem_new_region\<close> returns the index of the region it has filled in.\<close>

definition mem_new_region :: "u32 \<Rightarrow> u32 \<Rightarrow> machine \<Rightarrow> nat option \<times> machine" where
  "mem_new_region addr sz s =
     (case find_region (ms_regions (heap_master s)) (region_order s) None of
        None \<Rightarrow> (None, s)
      | Some i \<Rightarrow>
        let n = max_blocks_for sz;
            free = sz - sizeof_mem_block * n;
            rg = \<lparr>rg_addr = addr, rg_free_size = free, rg_size = sz, rg_head = addr,
                  rg_max_blocks = n, rg_blocks = addr\<rparr>;
            m1 = mark_not_present (unat n) addr (ram s);
            m2 = set_size addr free (set_type addr BLOCK_FREE (set_next addr 0 m1))
        in (Some i, set_region i rg (s\<lparr>ram := m2\<rparr>)))"

subsection \<open>Finding and merging descriptors\<close>

fun scan_not_present :: "nat \<Rightarrow> u32 \<Rightarrow> mem \<Rightarrow> u32 option" where
  "scan_not_present 0 b m = None"
| "scan_not_present (Suc n) b m =
     (if blk_type m b = BLOCK_NOT_PRESENT then Some b
      else scan_not_present n (b + sizeof_mem_block) m)"

definition mem_new_block :: "mem_region \<Rightarrow> machine \<Rightarrow> u32 \<times> machine" where
  "mem_new_block rg s =
     (case scan_not_present (unat (rg_max_blocks rg)) (rg_blocks rg) (ram s) of
        Some b \<Rightarrow> (b, s)
      | None \<Rightarrow> (0, print_text ''No free blcks found\<newline>'' s))"

definition mem_fix_block :: "u32 \<Rightarrow> mem \<Rightarrow> mem" where
  "mem_fix_block b m =
     (if blk_next m b \<noteq> 0 \<and> blk_type m b = BLOCK_FREE \<and> blk_type m (blk_next m b) = BLOCK_FREE
      then let m1 = set_size b (blk_size m b + blk_size m (blk_next m b)) m;
               m2 = set_type (blk_next m1 b) BLOCK_NOT_PRESENT m1
           in set_next b (blk_next m2 (blk_next m2 b)) m2
      else m)"

definition fix_block :: "u32 \<Rightarrow> machine \<Rightarrow> machine" where
  "fix_block b s = s\<lparr>ram := mem_fix_block b (ram s)\<rparr>"

subsection \<open>mem_alloc\<close>

text \<open>The part of the loop body after the block is found: take \<open>size\<close> bytes from its end.\<close>

definition alloc_take :: "nat \<Rightarrow> u32 \<Rightarrow> u32 \<Rightarrow> u32 \<Rightarrow> machine \<Rightarrow> u32 \<times> machine" where
  "alloc_take i sz block ptr s =
     (let (newblock, s1) = mem_new_block (region s i) s
      in if newblock = 0 then (0, s1)
         else let m1 = set_type newblock BLOCK_USED (ram s1);
                  m2 = set_next newblock (blk_next m1 block) m1;
                  m3 = set_next block newblock m2;
                  m4 = set_size newblock sz m3;
                  m5 = set_size block (blk_size m4 block - sz) m4
              in (ptr + blk_size m5 block, take_free i sz (s1\<lparr>ram := m5\<rparr>)))"

text \<open>
  The walk over the blocks of a region: \<open>Some (Some p, s)\<close> when the function returns \<open>p\<close>
  from inside the loop, \<open>Some (None, s)\<close> when the list ends.
\<close>

partial_function (option) alloc_walk ::
    "nat \<Rightarrow> u32 \<Rightarrow> u32 \<Rightarrow> u32 \<Rightarrow> machine \<Rightarrow> (u32 option \<times> machine) option" where
  "alloc_walk i sz block ptr s =
     (if block = 0 then Some (None, s)
      else let s1 = fix_block block s
        in if blk_type (ram s1) block \<noteq> BLOCK_FREE \<and> \<not> sz \<le> blk_size (ram s1) block
           then alloc_walk i sz (blk_next (ram s1) block) (ptr + blk_size (ram s1) block) s1
           else let (p, s2) = alloc_take i sz block ptr s1 in Some (Some p, s2))"

fun alloc_regions :: "nat list \<Rightarrow> u32 \<Rightarrow> machine \<Rightarrow> (u32 \<times> machine) option" where
  "alloc_regions [] sz s = Some (0, s)"
| "alloc_regions (i # is) sz s =
     (let rg = region s i
      in if rg_addr rg = 0 \<or> rg_free_size rg < sz then alloc_regions is sz s
         else case alloc_walk i sz (rg_head rg) (rg_addr rg) s of
             None \<Rightarrow> None
           | Some (Some p, s1) \<Rightarrow> Some (p, s1)
           | Some (None, s1) \<Rightarrow> alloc_regions is sz s1)"

definition mem_alloc :: "u32 \<Rightarrow> machine \<Rightarrow> (u32 \<times> machine) option" where
  "mem_alloc sz s = alloc_regions (region_order s) sz s"

subsection \<open>mem_free\<close>

definition free_found :: "u32 \<Rightarrow> u32 \<Rightarrow> mem \<Rightarrow> mem" where
  "free_found block prev m =
     (if prev \<noteq> 0 \<and> blk_type m prev = BLOCK_FREE
      then let m1 = set_next prev (blk_next m block) m;
               m2 = set_size prev (blk_size m1 prev + blk_size m1 block) m1
           in set_type block BLOCK_NOT_PRESENT m2
      else set_type block BLOCK_FREE m)"

definition is_target :: "mem \<Rightarrow> u32 \<Rightarrow> u32 \<Rightarrow> u32 \<Rightarrow> bool" where
  "is_target m block bptr ptr \<longleftrightarrow>
     blk_type m block = BLOCK_USED \<and> ptr \<le> bptr \<and> ptr \<le> bptr + blk_size m block"

text \<open>The walk says whether the function has returned from inside it.\<close>

partial_function (option) free_walk ::
    "u32 \<Rightarrow> u32 \<Rightarrow> u32 \<Rightarrow> u32 \<Rightarrow> machine \<Rightarrow> (bool \<times> machine) option" where
  "free_walk ptr block prev bptr s =
     (if block = 0 then Some (False, s)
      else let s1 = fix_block block s
        in if is_target (ram s1) block bptr ptr
           then Some (True, s1\<lparr>ram := free_found block prev (ram s1)\<rparr>)
           else free_walk ptr (blk_next (ram s1) block) block (bptr + blk_size (ram s1) block) s1)"

fun free_regions :: "nat list \<Rightarrow> u32 \<Rightarrow> machine \<Rightarrow> machine option" where
  "free_regions [] ptr s = Some s"
| "free_regions (i # is) ptr s =
     (case free_walk ptr (rg_head (region s i)) 0 (rg_addr (region s i)) s of
        None \<Rightarrow> None
      | Some (True, s1) \<Rightarrow> Some s1
      | Some (False, s1) \<Rightarrow> free_regions is ptr s1)"

definition mem_free :: "u32 \<Rightarrow> machine \<Rightarrow> machine option" where
  "mem_free ptr s = free_regions (region_order s) ptr s"

subsection \<open>mem_align_alloc\<close>

text \<open>
  What the body does with a block that is free and large enough: return from the function
  (\<open>Some\<close>), or go on with the loop.  The test for a perfect match parses as
  \<open>(!pbptr) % align\<close>.
\<close>

definition align_fits :: "u32 \<Rightarrow> u32 \<Rightarrow> u32 \<Rightarrow> u32 \<Rightarrow> mem \<Rightarrow> bool option" where
  "align_fits block bptr sz align m =
     (if blk_type m block = BLOCK_FREE
      then if align = 0 then None else Some (sz + bptr mod align \<le> blk_size m block)
      else Some False)"

definition align_perfect :: "nat \<Rightarrow> u32 \<Rightarrow> u32 \<Rightarrow> u32 \<Rightarrow> u32 \<Rightarrow> machine \<Rightarrow> (u32 option \<times> machine)" where
  "align_perfect i block bptr sz align s =
     (if align \<le> blk_size (ram s) block then
        let (newblock, s1) = mem_new_block (region s i) s
        in if newblock = 0 then (Some 0, s1)
           else let m1 = set_type block BLOCK_USED (ram s1);
                    m2 = set_next newblock (blk_next m1 block) m1;
                    m3 = set_next block newblock m2;
                    m4 = set_size newblock (blk_size m3 block - sz) m3;
                    m5 = set_size block sz m4
                in (Some bptr, s1\<lparr>ram := m5\<rparr>)
      else if blk_size (ram s) block = sz
      then (Some bptr, s\<lparr>ram := set_type block BLOCK_USED (ram s)\<rparr>)
      else (None, s))"

text \<open>The free part behind the block, made when the used part does not fit in it.\<close>

definition align_after :: "nat \<Rightarrow> u32 \<Rightarrow> u32 \<Rightarrow> u32 \<Rightarrow> machine \<Rightarrow> bool \<times> machine" where
  "align_after i block off sz s =
     (if blk_size (ram s) block < off + sz then
        let (afterblock, s1) = mem_new_block (region s i) s
        in if afterblock = 0 then (False, s1)
           else let m1 = set_size afterblock (blk_size (ram s1) block - (off + sz)) (ram s1);
                    m2 = set_type afterblock BLOCK_FREE m1;
                    m3 = set_next afterblock (blk_next m2 block) m2;
                    m4 = set_next block afterblock m3;
                    m5 = set_size block (blk_size m4 block - blk_size m4 afterblock) m4
                in (True, s1\<lparr>ram := m5\<rparr>)
      else (True, s))"

definition align_split :: "nat \<Rightarrow> u32 \<Rightarrow> u32 \<Rightarrow> u32 \<Rightarrow> u32 \<Rightarrow> machine \<Rightarrow> u32 \<times> machine" where
  "align_split i block pbptr sz align s =
     (let target0 = pbptr + blk_size (ram s) block - align;
          target = target0 - target0 mod align;
          off = target - pbptr;
          (ok, s1) = align_after i block off sz s
      in if \<not> ok then (0, s1)
         else let (usedblock, s2) = mem_new_block (region s1 i) s1
           in if usedblock = 0 then (0, s2)
              else let m1 = set_size block off (ram s2);
                       m2 = set_size usedblock sz m1;
                       m3 = set_type usedblock BLOCK_USED m2;
                       m4 = set_next usedblock (blk_next m3 block) m3;
                       m5 = set_next block usedblock m4
                   in (pbptr + blk_size m5 block, s2\<lparr>ram := m5\<rparr>))"

text \<open>The loop never moves \<open>block\<close> on: it adds the size of the same block to \<open>bptr\<close> again.\<close>

partial_function (option) align_walk ::
    "nat \<Rightarrow> u32 \<Rightarrow> u32 \<Rightarrow> u32 \<Rightarrow> u32 \<Rightarrow> machine \<Rightarrow> (u32 option \<times> machine) option" where
  "align_walk i sz align block bptr s =
     (if block = 0 then Some (None, s)
      else do {
        fits \<leftarrow> align_fits block bptr sz align (ram s);
        (if fits then
           if (if bptr = 0 then 1 else 0) mod align \<noteq> 0
           then (case align_perfect i block bptr sz align s of
               (Some p, s1) \<Rightarrow> Some (Some p, s1)
             | (None, s1) \<Rightarrow> align_walk i sz align block (bptr + blk_size (ram s1) block) s1)
           else (case align_split i block bptr sz align s of (p, s1) \<Rightarrow> Some (Some p, s1))
         else align_walk i sz align block (bptr + blk_size (ram s) block) s) })"

fun align_regions :: "nat list \<Rightarrow> u32 \<Rightarrow> u32 \<Rightarrow> machine \<Rightarrow> (u32 \<times> machine) option" where
  "align_regions [] sz align s = Some (0, s)"
| "align_regions (i # is) sz align s =
     (let rg = region s i
      in if rg_addr rg = 0 \<or> rg_free_size rg < sz then align_regions is sz align s
         else case align_walk i sz align (rg_head rg) (rg_addr rg) s of
             None \<Rightarrow> None
           | Some (Some p, s1) \<Rightarrow> Some (p, s1)
           | Some (None, s1) \<Rightarrow> align_regions is sz align s1)"

definition mem_align_alloc :: "u32 \<Rightarrow> u32 \<Rightarrow> machine \<Rightarrow> (u32 \<times> machine) option" where
  "mem_align_alloc sz align s = align_regions (region_order s) sz align s"

subsection \<open>mem_realloc\<close>

definition realloc_expand ::
    "nat \<Rightarrow> u32 \<Rightarrow> u32 \<Rightarrow> u32 \<Rightarrow> u32 \<Rightarrow> u32 \<Rightarrow> u32 \<Rightarrow> machine \<Rightarrow> (u32 \<times> machine) option" where
  "realloc_expand i ptr sz block prev bptr diff s =
     (let m = ram s; nx = blk_next m block
      in if nx \<noteq> 0 \<and> blk_type m nx = BLOCK_FREE \<and> diff \<le> blk_size m nx
         then let m1 = set_size block (blk_size m block + diff) m;
                  m2 = set_size (blk_next m1 block) (blk_size m1 (blk_next m1 block) - diff) m1
              in Some (bptr, take_free i diff (s\<lparr>ram := m2\<rparr>))
         else if prev \<noteq> 0 \<and> blk_type m prev = BLOCK_FREE \<and> diff \<le> blk_size m prev
         then let m1 = set_size block (blk_size m block + diff) m;
                  m2 = set_size prev (blk_size m1 prev - diff) m1
              in Some (bptr - diff, take_free i diff (s\<lparr>ram := m2\<rparr>))
         else do {
           (new_ptr, s1) \<leftarrow> mem_alloc sz s;
           (if new_ptr = 0 then Some (0, s1)
            else do {
              let s2 = s1\<lparr>ram := snd (memcpy new_ptr ptr (blk_size (ram s1) block) (ram s1))\<rparr>;
              s3 \<leftarrow> mem_free ptr s2;
              Some (new_ptr, s3) }) })"

definition realloc_shrink ::
    "nat \<Rightarrow> u32 \<Rightarrow> u32 \<Rightarrow> u32 \<Rightarrow> u32 \<Rightarrow> machine \<Rightarrow> u32 \<times> machine" where
  "realloc_shrink i block prev bptr diff s =
     (let m = ram s; nx = blk_next m block
      in if prev \<noteq> 0 \<and> blk_type m prev = BLOCK_FREE
         then let m1 = set_size prev (blk_size m prev + diff) m;
                  m2 = set_size block (blk_size m1 block - diff) m1
              in (bptr + diff, take_free i (- diff) (s\<lparr>ram := m2\<rparr>))
         else if nx \<noteq> 0 \<and> blk_type m nx = BLOCK_FREE
         then let m1 = set_size nx (blk_size m nx + diff) m;
                  m2 = set_size block (blk_size m1 block - diff) m1
              in (bptr, take_free i (- diff) (s\<lparr>ram := m2\<rparr>))
         else let (new_block, s1) = mem_new_block (region s i) s
              in if new_block = 0 then (0, s1)
                 else let m1 = set_type new_block BLOCK_FREE (ram s1);
                          m2 = set_size new_block diff m1;
                          m3 = set_size block (blk_size m2 block - diff) m2
                      in (bptr, take_free i (- diff) (s1\<lparr>ram := m3\<rparr>)))"

definition realloc_found ::
    "nat \<Rightarrow> u32 \<Rightarrow> u32 \<Rightarrow> u32 \<Rightarrow> u32 \<Rightarrow> u32 \<Rightarrow> machine \<Rightarrow> (u32 \<times> machine) option" where
  "realloc_found i ptr sz block prev bptr s =
     (let diff = sz - blk_size (ram s) block
      in if 0 <s diff then realloc_expand i ptr sz block prev bptr diff s
         else if diff <s 0 then Some (realloc_shrink i block prev bptr (- diff) s)
         else Some (bptr, s))"

partial_function (option) realloc_walk ::
    "nat \<Rightarrow> u32 \<Rightarrow> u32 \<Rightarrow> u32 \<Rightarrow> u32 \<Rightarrow> u32 \<Rightarrow> machine \<Rightarrow> (u32 option \<times> machine) option" where
  "realloc_walk i ptr sz block prev bptr s =
     (if block = 0 then Some (None, s)
      else let s1 = fix_block block s
        in if is_target (ram s1) block bptr ptr
           then (case realloc_found i ptr sz block prev bptr s1 of
               None \<Rightarrow> None | Some (p, s2) \<Rightarrow> Some (Some p, s2))
           else realloc_walk i ptr sz (blk_next (ram s1) block) block
                  (bptr + blk_size (ram s1) block) s1)"

text \<open>When no region has the block, the result of a last \<open>mem_alloc\<close> is dropped.\<close>

fun realloc_regions :: "nat list \<Rightarrow> u32 \<Rightarrow> u32 \<Rightarrow> machine \<Rightarrow> (u32 \<times> machine) option" where
  "realloc_regions [] ptr sz s = map_option (\<lambda>(_, s1). (0, s1)) (mem_alloc sz s)"
| "realloc_regions (i # is) ptr sz s =
     (let rg = region s i
      in if rg_addr rg = 0 \<or> rg_free_size rg < sz then realloc_regions is ptr sz s
         else case realloc_walk i ptr sz (rg_head rg) 0 (rg_addr rg) s of
             None \<Rightarrow> None
           | Some (Some p, s1) \<Rightarrow> Some (p, s1)
           | Some (None, s1) \<Rightarrow> realloc_regions is ptr sz s1)"

definition mem_realloc :: "u32 \<Rightarrow> u32 \<Rightarrow> machine \<Rightarrow> (u32 \<times> machine) option" where
  "mem_realloc ptr sz s = realloc_regions (region_order s) ptr sz s"

subsection \<open>mem_total_free\<close>

partial_function (option) total_walk :: "u32 \<Rightarrow> u32 \<Rightarrow> mem \<Rightarrow> u32 option" where
  "total_walk block acc m =
     (if block = 0 then Some acc
      else total_walk (blk_next m block)
             (if blk_type m block = BLOCK_FREE then acc + blk_size m block else acc) m)"

fun total_regions :: "nat list \<Rightarrow> u32 \<Rightarrow> machine \<Rightarrow> u32 option" where
  "total_regions [] acc s = Some acc"
| "total_regions (i # is) acc s =
     (if rg_addr (region s i) = 0 then total_regions is acc s
      else do {
        acc' \<leftarrow> total_walk (rg_head (region s i)) acc (ram s);
        total_regions is acc' s })"

definition mem_total_free :: "machine \<Rightarrow> u32 option" where
  "mem_total_free s = total_regions (region_order s) 0 s"

subsection \<open>The C library's interface (lib.c)\<close>

text \<open>A failing \<open>malloc\<close> prints the state of the heap and never returns.\<close>

definition malloc :: "u32 \<Rightarrow> machine \<Rightarrow> (u32 \<times> machine) option" where
  "malloc sz s = do {
     (p, s1) \<leftarrow> mem_alloc sz s;
     (if p = 0 then None else Some (p, s1)) }"

definition calloc :: "u32 \<Rightarrow> u32 \<Rightarrow> machine \<Rightarrow> (u32 \<times> machine) option" where
  "calloc n sz s = do {
     (p, s1) \<leftarrow> malloc (n * sz) s;
     Some (p, s1\<lparr>ram := snd (memset p 0 (n * sz) (ram s1))\<rparr>) }"

definition realloc :: "u32 \<Rightarrow> u32 \<Rightarrow> machine \<Rightarrow> (u32 \<times> machine) option" where
  "realloc p sz s = mem_realloc p sz s"

definition free :: "u32 \<Rightarrow> machine \<Rightarrow> machine option" where
  "free p s = mem_free p s"

end
