(* ===== verification/Alloc_Store.thy ===== *)
theory Alloc_Store
  imports Alloc
begin

text \<open>
  The interface between the heap's algorithms and the descriptors in memory: a store of
  blocks with three fields each, whose reads and writes obey the laws of a record array.
  The lemmas on linked lists of blocks are proved once from the laws; the interpretation
  shows that the 12-byte descriptors of \<open>alloc.c\<close> obey them.
\<close>

subsection \<open>Linked lists\<close>

text \<open>Following \<open>f\<close> from \<open>b\<close> visits the list and arrives at \<open>e\<close>, not earlier.\<close>

fun chain :: "('a \<Rightarrow> 'a) \<Rightarrow> 'a \<Rightarrow> 'a \<Rightarrow> 'a list \<Rightarrow> bool" where
  "chain f e b [] \<longleftrightarrow> b = e"
| "chain f e b (x # xs) \<longleftrightarrow> b = x \<and> x \<noteq> e \<and> chain f e (f x) xs"

lemma chain_cong: "(\<And>x. x \<in> set ds \<Longrightarrow> f x = g x) \<Longrightarrow> chain f e b ds = chain g e b ds"
  by (induction ds arbitrary: b) auto

lemma chain_append:
  "d \<notin> set pre \<Longrightarrow> chain f e b (pre @ d # post)
     \<longleftrightarrow> chain f d b pre \<and> e \<notin> set pre \<and> d \<noteq> e \<and> chain f e (f d) post"
  by (induction pre arbitrary: b) auto

lemma chain_end_notin: "chain f e b ds \<Longrightarrow> e \<notin> set ds"
  by (induction ds arbitrary: b) auto

lemma chain_first: "chain f e b (x # xs) \<Longrightarrow> b = x"
  by simp

subsection \<open>The interface\<close>

locale block_store =
  fixes slots :: "'a set" and nil :: 'a
    and nxt :: "'m \<Rightarrow> 'a \<Rightarrow> 'a" and siz :: "'m \<Rightarrow> 'a \<Rightarrow> 's" and tag :: "'m \<Rightarrow> 'a \<Rightarrow> 't"
    and set_n :: "'a \<Rightarrow> 'a \<Rightarrow> 'm \<Rightarrow> 'm" and set_s :: "'a \<Rightarrow> 's \<Rightarrow> 'm \<Rightarrow> 'm"
    and set_t :: "'a \<Rightarrow> 't \<Rightarrow> 'm \<Rightarrow> 'm"
  assumes nxt_set_n: "a \<in> slots \<Longrightarrow> b \<in> slots \<Longrightarrow> nxt (set_n a v m) b = (if b = a then v else nxt m b)"
    and nxt_set_s: "a \<in> slots \<Longrightarrow> b \<in> slots \<Longrightarrow> nxt (set_s a w m) b = nxt m b"
    and nxt_set_t: "a \<in> slots \<Longrightarrow> b \<in> slots \<Longrightarrow> nxt (set_t a t m) b = nxt m b"
    and siz_set_n: "a \<in> slots \<Longrightarrow> b \<in> slots \<Longrightarrow> siz (set_n a v m) b = siz m b"
    and siz_set_s: "a \<in> slots \<Longrightarrow> b \<in> slots \<Longrightarrow> siz (set_s a w m) b = (if b = a then w else siz m b)"
    and siz_set_t: "a \<in> slots \<Longrightarrow> b \<in> slots \<Longrightarrow> siz (set_t a t m) b = siz m b"
    and tag_set_n: "a \<in> slots \<Longrightarrow> b \<in> slots \<Longrightarrow> tag (set_n a v m) b = tag m b"
    and tag_set_s: "a \<in> slots \<Longrightarrow> b \<in> slots \<Longrightarrow> tag (set_s a w m) b = tag m b"
    and tag_set_t: "a \<in> slots \<Longrightarrow> b \<in> slots \<Longrightarrow> tag (set_t a t m) b = (if b = a then t else tag m b)"
begin

lemmas store_simps = nxt_set_n nxt_set_s nxt_set_t siz_set_n siz_set_s siz_set_t
  tag_set_n tag_set_s tag_set_t

text \<open>
  The lists of the store: \<open>linked m b ds es\<close> says that from \<open>b\<close> the blocks \<open>ds\<close> are linked,
  and hold the types and sizes \<open>es\<close>.
\<close>

definition linked :: "'m \<Rightarrow> 'a \<Rightarrow> 'a list \<Rightarrow> ('t \<times> 's) list \<Rightarrow> bool" where
  "linked m b ds es \<longleftrightarrow> chain (nxt m) nil b ds \<and> distinct ds \<and> set ds \<subseteq> slots
     \<and> es = map (\<lambda>d. (tag m d, siz m d)) ds"

lemma linked_cong:
  assumes "\<And>x. x \<in> set ds \<Longrightarrow> nxt m' x = nxt m x \<and> tag m' x = tag m x \<and> siz m' x = siz m x"
  shows "linked m' b ds es \<longleftrightarrow> linked m b ds es"
  using assms chain_cong [of ds "nxt m'" "nxt m" nil b]
  by (auto simp: linked_def cong: map_cong)

lemma linked_length: "linked m b ds es \<Longrightarrow> length es = length ds"
  by (simp add: linked_def)

lemma linked_Nil: "linked m b ds es \<Longrightarrow> b = nil \<longleftrightarrow> ds = []"
  by (cases ds) (auto simp: linked_def)

text \<open>A block put in after another one, taking its size from it.\<close>

lemma linked_insert:
  assumes "linked m b (pre @ d # post) (ps @ (t, k) # qs)" "length ps = length pre"
    and n: "n \<in> slots" "n \<notin> set (pre @ d # post)" "n \<noteq> nil"
  shows "linked (set_s d k' (set_s n w (set_n d n (set_n n (nxt m d) (set_t n t' m))))) b
    (pre @ d # n # post) (ps @ (t, k') # (t', w) # qs)"
proof -
  let ?m = "set_s d k' (set_s n w (set_n d n (set_n n (nxt m d) (set_t n t' m))))"
  have ds: "distinct (pre @ d # post)" "set (pre @ d # post) \<subseteq> slots" "d \<in> slots"
    and c: "chain (nxt m) d b pre" "nil \<notin> set pre" "d \<noteq> nil" "chain (nxt m) nil (nxt m d) post"
    and es: "ps = map (\<lambda>d. (tag m d, siz m d)) pre" "t = tag m d"
      "qs = map (\<lambda>d. (tag m d, siz m d)) post"
    using assms(1,2) by (auto simp: linked_def chain_append)
  have f: "nxt ?m x = nxt m x \<and> tag ?m x = tag m x \<and> siz ?m x = siz m x"
    if "x \<in> set (pre @ post)" for x
    using that ds n by (auto simp: store_simps)
  have fd: "nxt ?m d = n" "tag ?m d = t" "siz ?m d = k'" "nxt ?m n = nxt m d" "tag ?m n = t'" "siz ?m n = w"
    using ds n es by (auto simp: store_simps)
  have "chain (nxt ?m) d b pre" using c(1) chain_cong [of pre "nxt ?m" "nxt m"] f by simp
  moreover have "chain (nxt ?m) nil (nxt m d) post"
    using c(4) chain_cong [of post "nxt ?m" "nxt m"] f by simp
  ultimately show ?thesis
    using ds n c f fd es by (auto simp: linked_def chain_append intro!: map_cong)
qed

text \<open>A block taken out after another one that takes over its size.\<close>

lemma linked_absorb:
  assumes "linked m b (pre @ d # x # post) (ps @ (t, k) # (t', w) # qs)" "length ps = length pre"
    and m': "\<And>y. y \<in> set (pre @ d # post) \<Longrightarrow> nxt m' y = (if y = d then nxt m x else nxt m y)
      \<and> tag m' y = tag m y \<and> siz m' y = (if y = d then k' else siz m y)"
  shows "linked m' b (pre @ d # post) (ps @ (t, k') # qs)"
proof -
  have ds: "distinct (pre @ d # x # post)" "set (pre @ d # x # post) \<subseteq> slots"
    and c: "chain (nxt m) d b pre" "nil \<notin> set pre" "d \<noteq> nil" "chain (nxt m) nil (nxt m x) post"
    and es: "ps = map (\<lambda>d. (tag m d, siz m d)) pre" "t = tag m d"
      "qs = map (\<lambda>d. (tag m d, siz m d)) post"
    using assms(1,2) by (auto simp: linked_def chain_append)
  have f: "nxt m' y = nxt m y \<and> tag m' y = tag m y \<and> siz m' y = siz m y"
    if "y \<in> set (pre @ post)" for y
    using that ds m' [of y] by auto
  have fd: "nxt m' d = nxt m x" "tag m' d = t" "siz m' d = k'" using m' [of d] es by auto
  have "chain (nxt m') d b pre" using c(1) chain_cong [of pre "nxt m'" "nxt m"] f by simp
  moreover have "chain (nxt m') nil (nxt m x) post"
    using c(4) chain_cong [of post "nxt m'" "nxt m"] f by simp
  ultimately show ?thesis
    using ds c f fd es by (auto simp: linked_def chain_append intro!: map_cong)
qed

text \<open>A block that changes its type in place.\<close>

lemma linked_retype:
  assumes "linked m b (pre @ d # post) (ps @ (t, k) # qs)" "length ps = length pre"
  shows "linked (set_t d t' m) b (pre @ d # post) (ps @ (t', k) # qs)"
proof -
  have ds: "distinct (pre @ d # post)" "set (pre @ d # post) \<subseteq> slots" "d \<in> slots"
    and es: "ps = map (\<lambda>d. (tag m d, siz m d)) pre" "k = siz m d"
      "qs = map (\<lambda>d. (tag m d, siz m d)) post"
    and c: "chain (nxt m) nil b (pre @ d # post)"
    using assms by (auto simp: linked_def)
  have f: "nxt (set_t d t' m) x = nxt m x" if "x \<in> set (pre @ d # post)" for x
    using that ds by (auto simp: store_simps)
  have "chain (nxt (set_t d t' m)) nil b (pre @ d # post)"
    using c chain_cong [of "pre @ d # post" "nxt (set_t d t' m)" "nxt m"] f by blast
  then show ?thesis using ds es by (auto simp: linked_def store_simps subset_iff)
qed

end

subsection \<open>The descriptors in memory\<close>

definition slot_set :: "u32 \<Rightarrow> nat \<Rightarrow> u32 set" where
  "slot_set b n = (\<lambda>i. b + 12 * of_nat i) ` {..<min n 357913941}"

lemma slot_offset:
  assumes "i < 357913941" "j < 357913941" "x < 12" "y < 12"
  shows "(b :: u32) + 12 * of_nat i + of_nat x = b + 12 * of_nat j + of_nat y \<longleftrightarrow> i = j \<and> x = y"
proof -
  have "b + 12 * of_nat i + of_nat x = b + of_nat (12 * i + x)"
    "b + 12 * of_nat j + of_nat y = b + of_nat (12 * j + y)" by simp_all
  then have "b + 12 * of_nat i + of_nat x = b + 12 * of_nat j + of_nat y
      \<longleftrightarrow> 12 * i + x = 12 * j + y"
    using assms by (simp only:) (intro add_of_nat_inj; simp)
  also have "\<dots> \<longleftrightarrow> i = j \<and> x = y" using assms(3,4) by presburger
  finally show ?thesis .
qed

text \<open>The bytes of two descriptors are the same only at the same offset of the same descriptor.\<close>

lemma slot_byte:
  assumes "a \<in> slot_set p n" "b \<in> slot_set p n" "x < 12" "y < 12"
  shows "a + of_nat x = b + of_nat y \<longleftrightarrow> a = b \<and> x = y"
  using assms slot_offset [of _ _ x y p] slot_offset [of _ _ 0 0 p]
  by (auto simp: slot_set_def)

lemma slot_fields_apart:
  assumes "a \<in> slot_set p n" "b \<in> slot_set p n"
  shows "b \<noteq> a \<Longrightarrow> span b 4 \<inter> span a 4 = {}" "b \<noteq> a \<Longrightarrow> span (b + 4) 4 \<inter> span (a + 4) 4 = {}"
    "span b 4 \<inter> span (a + 4) 4 = {}" "span (b + 4) 4 \<inter> span a 4 = {}"
    "a + 8 \<notin> span b 4" "a + 8 \<notin> span (b + 4) 4" "a + 8 = b + 8 \<longleftrightarrow> a = b"
proof -
  have ab: "b + of_nat x = a + of_nat y \<longleftrightarrow> b = a \<and> x = y" if "x < 12" "y < 12" for x y
    using slot_byte [OF assms(2,1) that] .
  have four: "c + 4 + of_nat i = c + of_nat (4 + i)" for c :: u32 and i by simp
  have eight: "c + 8 = c + of_nat 8" for c :: u32 by simp
  show "b \<noteq> a \<Longrightarrow> span b 4 \<inter> span a 4 = {}" "b \<noteq> a \<Longrightarrow> span (b + 4) 4 \<inter> span (a + 4) 4 = {}"
    "span b 4 \<inter> span (a + 4) 4 = {}" "span (b + 4) 4 \<inter> span a 4 = {}"
    by (auto simp: span_def four ab simp del: of_nat_add)
  have ba: "a + of_nat 8 = b + of_nat x \<longleftrightarrow> a = b \<and> 8 = x" if "x < 12" for x
    using that by (intro slot_byte [OF assms]) simp_all
  show "a + 8 \<notin> span b 4" "a + 8 \<notin> span (b + 4) 4"
    unfolding eight span_def by (auto simp only: image_iff lessThan_iff four ba)
  show "a + 8 = b + 8 \<longleftrightarrow> a = b" by simp
qed

interpretation descriptors: block_store "slot_set p n" 0 blk_next blk_size blk_type
    set_next set_size set_type for p n
proof (unfold_locales, goal_cases)
  case (1 a b v m)
  then show ?case by (simp add: blk_next_def set_next_def ld32_st32_apart slot_fields_apart(1))
next
  case (2 a b w m)
  then show ?case by (simp add: blk_next_def set_size_def ld32_st32_apart slot_fields_apart(3))
next
  case (3 a b t m)
  then show ?case by (simp add: blk_next_def set_type_def ld32_upd_apart slot_fields_apart(5))
next
  case (4 a b v m)
  then show ?case by (simp add: blk_size_def set_next_def ld32_st32_apart slot_fields_apart(4))
next
  case (5 a b w m)
  then show ?case by (simp add: blk_size_def set_size_def ld32_st32_apart slot_fields_apart(2))
next
  case (6 a b t m)
  then show ?case by (simp add: blk_size_def set_type_def ld32_upd_apart slot_fields_apart(6))
next
  case (7 a b v m)
  then show ?case using slot_fields_apart(5) [of b p n a] by (simp add: blk_type_def set_next_def st32_other)
next
  case (8 a b w m)
  then show ?case using slot_fields_apart(6) [of b p n a] by (simp add: blk_type_def set_size_def st32_other)
next
  case (9 a b t m)
  then show ?case by (auto simp: blk_type_def set_type_def)
qed

end
