(* ===== verification/Alloc_Spec.thy ===== *)
theory Alloc_Spec
  imports Alloc_Store
begin

text \<open>
  The heap as a list of blocks.  The abstract heap is the list of the blocks of a region, in
  address order, each free or used with its size; \<open>a_alloc\<close> and \<open>a_free\<close> are what
  \<open>mem_alloc\<close> and \<open>mem_free\<close> do to it.  The second half shows that the code refines them.
\<close>

subsection \<open>The abstract heap\<close>

type_synonym ablock = "bool \<times> nat"    \<comment> \<open>used, size\<close>

fun a_fix :: "ablock list \<Rightarrow> ablock list" where
  "a_fix ((False, a) # (False, b) # bs) = (False, a + b) # bs"
| "a_fix bs = bs"

text \<open>Allocation takes the end of the first block; the new block follows it.\<close>

fun a_take :: "nat \<Rightarrow> ablock list \<Rightarrow> ablock list" where
  "a_take n ((u, k) # bs) = (u, k - n) # (True, n) # bs"
| "a_take n [] = []"

definition a_alloc :: "nat \<Rightarrow> ablock list \<Rightarrow> ablock list" where
  "a_alloc n bs = a_take n (a_fix bs)"

text \<open>
  Freeing walks behind the first block; \<open>h\<close> is the block before the position \<open>pos\<close>.
\<close>

lemma length_a_fix: "length (a_fix bs) \<le> length bs"
  by (induction bs rule: a_fix.induct) auto

function a_free_after :: "nat \<Rightarrow> nat \<Rightarrow> ablock \<Rightarrow> ablock list \<Rightarrow> ablock list" where
  "a_free_after p pos h bs =
     (case a_fix bs of [] \<Rightarrow> [h]
      | b # bs' \<Rightarrow>
        if fst b \<and> p \<le> pos
        then (if \<not> fst h then (False, snd h + snd b) # bs' else h # (False, snd b) # bs')
        else h # a_free_after p (pos + snd b) b bs')"
  by pat_completeness auto
termination
proof (relation "measure (\<lambda>(p, pos, h, bs). length bs)", goal_cases)
  case (2 p pos h bs b bs')
  then show ?case using length_a_fix [of bs] by simp
qed simp

declare a_free_after.simps [simp del]

definition a_free :: "nat \<Rightarrow> nat \<Rightarrow> ablock list \<Rightarrow> ablock list" where
  "a_free base p bs =
     (case a_fix bs of [] \<Rightarrow> [] | h # bs' \<Rightarrow> a_free_after p (base + snd h) h bs')"

text \<open>The addresses and sizes of the used blocks.\<close>

fun live :: "nat \<Rightarrow> ablock list \<Rightarrow> (nat \<times> nat) list" where
  "live pos [] = []"
| "live pos ((u, k) # bs) = (if u then (pos, k) # live (pos + k) bs else live (pos + k) bs)"

abbreviation total_size :: "ablock list \<Rightarrow> nat" where
  "total_size bs \<equiv> sum_list (map snd bs)"

subsection \<open>What the abstract operations do\<close>

lemma total_a_fix [simp]: "total_size (a_fix bs) = total_size bs"
  by (induction bs rule: a_fix.induct) auto

lemma live_a_fix [simp]: "live pos (a_fix bs) = live pos bs"
  by (induction bs rule: a_fix.induct) (auto simp: add.assoc)

lemma a_fix_Nil [simp]: "a_fix bs = [] \<longleftrightarrow> bs = []"
  by (induction bs rule: a_fix.induct) auto

lemma a_fix_head: "bs \<noteq> [] \<Longrightarrow> fst (hd (a_fix bs)) = fst (hd bs) \<and> snd (hd bs) \<le> snd (hd (a_fix bs))"
  by (induction bs rule: a_fix.induct) auto

lemma total_a_alloc:
  assumes "bs \<noteq> []" "n \<le> snd (hd bs)" shows "total_size (a_alloc n bs) = total_size bs"
proof -
  obtain u k r where f: "a_fix bs = (u, k) # r" using assms(1) by (cases "a_fix bs") auto
  then have "n \<le> k" using a_fix_head [OF assms(1)] assms(2) by simp
  moreover have "total_size bs = k + total_size r" using total_a_fix [of bs] f by simp
  ultimately show ?thesis by (simp add: a_alloc_def f)
qed

text \<open>Removing the first element that satisfies a predicate.\<close>

fun remove_first :: "('a \<Rightarrow> bool) \<Rightarrow> 'a list \<Rightarrow> 'a list" where
  "remove_first P [] = []"
| "remove_first P (x # xs) = (if P x then xs else x # remove_first P xs)"

lemma total_a_free_after: "total_size (a_free_after p pos h bs) = snd h + total_size bs"
proof (induction p pos h bs rule: a_free_after.induct)
  case (1 p pos h bs)
  show ?case
  proof (cases "a_fix bs")
    case Nil
    then show ?thesis by (subst a_free_after.simps) simp
  next
    case (Cons b bs')
    then have "total_size bs = snd b + total_size bs'" using total_a_fix [of bs] by simp
    with 1 Cons show ?thesis by (simp add: a_free_after.simps [of p pos h bs])
  qed
qed

lemma live_a_free_after:
  "live pos0 (a_free_after p pos h bs)
     = live pos0 [h] @ remove_first (\<lambda>(q, _). p \<le> q) (live pos bs)"
  if "pos = pos0 + snd h"
  using that
proof (induction p pos h bs arbitrary: pos0 rule: a_free_after.induct)
  case (1 p pos h bs)
  obtain uh kh where h: "h = (uh, kh)" by fastforce
  show ?case
  proof (cases "a_fix bs")
    case Nil
    with h show ?thesis by (subst a_free_after.simps) simp
  next
    case (Cons b bs')
    obtain u k where b: "b = (u, k)" by fastforce
    have l: "live pos bs = live pos ((u, k) # bs')"
      using live_a_fix [of pos bs] Cons b by simp
    show ?thesis
    proof (cases "u \<and> p \<le> pos")
      case True
      then have e: "a_free_after p pos h bs
          = (if \<not> uh then (False, kh + k) # bs' else h # (False, k) # bs')"
        by (subst a_free_after.simps) (simp add: Cons b h)
      show ?thesis unfolding e l using True 1(2) by (simp add: h add.assoc)
    next
      case False
      then have IH: "live pos (a_free_after p (pos + k) b bs')
          = live pos [b] @ remove_first (\<lambda>(q, _). p \<le> q) (live (pos + k) bs')"
        using 1(1) [OF Cons, of pos] by (simp add: b)
      from False have e: "a_free_after p pos h bs = h # a_free_after p (pos + k) b bs'"
        by (subst a_free_after.simps) (auto simp: Cons b)
      show ?thesis unfolding e l using False IH 1(2) by (auto simp: h b)
    qed
  qed
qed

lemma total_a_free [simp]: "total_size (a_free base p bs) = total_size bs"
proof (cases "a_fix bs")
  case (Cons h bs')
  then have "total_size bs = snd h + total_size bs'" using total_a_fix [of bs] by simp
  with Cons show ?thesis by (simp add: a_free_def total_a_free_after)
qed (simp add: a_free_def)

lemma live_a_free:
  assumes "bs \<noteq> []" "\<not> fst (hd bs)"
  shows "live base (a_free base p bs) = remove_first (\<lambda>(q, _). p \<le> q) (live base bs)"
proof -
  obtain k r where f: "a_fix bs = (False, k) # r"
    using assms a_fix_head [OF assms(1)] by (cases "a_fix bs") (auto simp: prod_eq_iff)
  then have "live base bs = live (base + k) r" using live_a_fix [of base bs] by simp
  with f show ?thesis by (simp add: a_free_def live_a_free_after)
qed

lemma live_a_alloc:
  assumes "bs \<noteq> []" "\<not> fst (hd bs)" "n \<le> snd (hd bs)"
  shows "live base (a_alloc n bs) = (base + snd (hd (a_fix bs)) - n, n) # live base bs"
proof -
  obtain k r where f: "a_fix bs = (False, k) # r"
    using assms a_fix_head [OF assms(1)] by (cases "a_fix bs") (auto simp: prod_eq_iff)
  then have "n \<le> k" using a_fix_head [OF assms(1)] assms(3) by simp
  moreover have "live base bs = live (base + k) r" using live_a_fix [of base bs] f by simp
  ultimately show ?thesis using f by (simp add: a_alloc_def)
qed

text \<open>The used blocks are in address order and do not overlap, inside the region.\<close>

lemma live_bounds: "(q, k) \<in> set (live pos bs) \<Longrightarrow> pos \<le> q \<and> q + k \<le> pos + total_size bs"
  by (induction pos bs rule: live.induct) (fastforce split: if_splits)+

definition apart :: "nat \<times> nat \<Rightarrow> nat \<times> nat \<Rightarrow> bool" where
  "apart r r' \<longleftrightarrow> fst r + snd r \<le> fst r'"

lemma live_apart: "sorted_wrt apart (live pos bs)"
proof (induction pos bs rule: live.induct)
  case (2 pos u k bs)
  have "\<forall>r \<in> set (live (pos + k) bs). pos + k \<le> fst r"
    using live_bounds [of _ _ "pos + k" bs] by fastforce
  with 2 show ?case by (auto simp: apart_def)
qed simp

end
