(* ===== verification/Alloc_Refine.thy ===== *)
theory Alloc_Refine
  imports Alloc_Spec
begin

text \<open>
  The code of \<open>alloc.c\<close> on the abstract heap.  A region represents a list of blocks when its
  descriptors are linked in that order, carry their types and sizes, and every other
  descriptor of its table is marked as not present.
\<close>

subsection \<open>Representation\<close>

definition slots :: "mem_region \<Rightarrow> u32 set" where
  "slots rg = slot_set (rg_blocks rg) (unat (rg_max_blocks rg))"

definition region_wf :: "mem_region \<Rightarrow> bool" where
  "region_wf rg \<longleftrightarrow> rg_blocks rg \<noteq> 0
     \<and> unat (rg_blocks rg) + 12 * unat (rg_max_blocks rg) \<le> 2 ^ 32"

definition abs_block :: "u8 \<times> u32 \<Rightarrow> ablock" where
  "abs_block e = (fst e = BLOCK_USED, unat (snd e))"

definition heap_ok :: "mem \<Rightarrow> mem_region \<Rightarrow> u32 list \<Rightarrow> (u8 \<times> u32) list \<Rightarrow> bool" where
  "heap_ok m rg ds es \<longleftrightarrow> region_wf rg
     \<and> block_store.linked (slots rg) 0 blk_next blk_size blk_type m (rg_head rg) ds es
     \<and> fst ` set es \<subseteq> {BLOCK_FREE, BLOCK_USED}
     \<and> (\<forall>d \<in> slots rg - set ds. blk_type m d = BLOCK_NOT_PRESENT)
     \<and> total_size (map abs_block es) < 2 ^ 32"

lemma types_distinct [simp]:
  "BLOCK_FREE \<noteq> BLOCK_USED" "BLOCK_USED \<noteq> BLOCK_FREE" "BLOCK_FREE \<noteq> BLOCK_NOT_PRESENT"
  "BLOCK_NOT_PRESENT \<noteq> BLOCK_FREE" "BLOCK_USED \<noteq> BLOCK_NOT_PRESENT" "BLOCK_NOT_PRESENT \<noteq> BLOCK_USED"
  by (simp_all add: BLOCK_FREE_def BLOCK_USED_def BLOCK_NOT_PRESENT_def)

lemma slots_eq:
  assumes "region_wf rg"
  shows "slots rg = (\<lambda>i. rg_blocks rg + 12 * of_nat i) ` {..<unat (rg_max_blocks rg)}"
proof -
  have "12 * unat (rg_max_blocks rg) \<le> 2 ^ 32" using assms by (simp add: region_wf_def)
  then have "min (unat (rg_max_blocks rg)) 357913941 = unat (rg_max_blocks rg)" by simp
  then show ?thesis by (simp add: slots_def slot_set_def)
qed

lemma slots_not_0: "region_wf rg \<Longrightarrow> 0 \<notin> slots rg"
proof
  assume wf: "region_wf rg" and "0 \<in> slots rg"
  then obtain i where i: "i < unat (rg_max_blocks rg)" "rg_blocks rg + 12 * of_nat i = 0"
    by (auto simp: slots_eq)
  have b: "0 < unat (rg_blocks rg)" using wf by (simp add: region_wf_def unat_gt_0)
  have n: "unat (rg_blocks rg) + 12 * i < 2 ^ 32" using wf i(1) by (simp add: region_wf_def)
  then have u: "unat (of_nat (12 * i) :: u32) = 12 * i" by (intro unat_of_nat_u32) simp
  then have "unat (rg_blocks rg + of_nat (12 * i)) = unat (rg_blocks rg) + 12 * i"
    using n by (subst unat_add_no_wrap) simp_all
  moreover have "rg_blocks rg + of_nat (12 * i) = 0" using i(2) by simp
  ultimately show False using b by simp
qed

lemma chain_next:
  assumes "chain f e b (pre @ d # post)" "distinct (pre @ d # post)"
  shows "f d = hd (post @ [e])"
proof -
  have "chain f e (f d) post" using assms by (simp add: chain_append)
  then show ?thesis by (cases post) auto
qed

lemma chain_hd: "chain f e b ds \<Longrightarrow> b = hd (ds @ [e])"
  by (cases ds) auto

lemma heap_ok_parts:
  assumes "heap_ok m rg ds es"
  shows "chain (blk_next m) 0 (rg_head rg) ds" "set ds \<subseteq> slots rg"
    "es = map (\<lambda>d. (blk_type m d, blk_size m d)) ds" "fst ` set es \<subseteq> {BLOCK_FREE, BLOCK_USED}"
    "length es = length ds" "\<forall>d \<in> set ds. blk_type m d \<in> {BLOCK_FREE, BLOCK_USED}"
proof -
  show "chain (blk_next m) 0 (rg_head rg) ds" "set ds \<subseteq> slots rg"
    and es: "es = map (\<lambda>d. (blk_type m d, blk_size m d)) ds" "fst ` set es \<subseteq> {BLOCK_FREE, BLOCK_USED}"
    using assms unfolding heap_ok_def descriptors.linked_def slots_def by blast+
  then show "length es = length ds" "\<forall>d \<in> set ds. blk_type m d \<in> {BLOCK_FREE, BLOCK_USED}" by force+
qed

text \<open>What the representation says of one block in the list.\<close>

lemma heap_okD:
  assumes "heap_ok m rg (pre @ d # post) (ps @ e # qs)" "length ps = length pre"
  shows "d \<in> slots rg" "d \<noteq> 0" "distinct (pre @ d # post)" "set (pre @ d # post) \<subseteq> slots rg"
    "e = (blk_type m d, blk_size m d)" "blk_next m d = hd (post @ [0])"
    "blk_type m d = BLOCK_FREE \<or> blk_type m d = BLOCK_USED" "length qs = length post"
proof -
  from assms show 1: "d \<in> slots rg" "distinct (pre @ d # post)" "set (pre @ d # post) \<subseteq> slots rg"
    "e = (blk_type m d, blk_size m d)" "length qs = length post"
    by (auto simp: heap_ok_def descriptors.linked_def slots_def)
  show "d \<noteq> 0" using 1 slots_not_0 [of rg] assms(1) by (auto simp: heap_ok_def)
  show "blk_type m d = BLOCK_FREE \<or> blk_type m d = BLOCK_USED"
    using assms(1) 1 by (auto simp: heap_ok_def)
  have "chain (blk_next m) 0 (rg_head rg) (pre @ d # post)"
    using assms(1) by (simp add: heap_ok_def descriptors.linked_def slots_def)
  from chain_next [OF this 1(2)] show "blk_next m d = hd (post @ [0])" .
qed

text \<open>The laws of the descriptors, for the slots of a region.\<close>

lemma field_simps_slots:
  assumes "a \<in> slots rg" "b \<in> slots rg"
  shows "blk_next (set_next a v m) b = (if b = a then v else blk_next m b)"
    "blk_next (set_size a w m) b = blk_next m b" "blk_next (set_type a t m) b = blk_next m b"
    "blk_size (set_next a v m) b = blk_size m b"
    "blk_size (set_size a w m) b = (if b = a then w else blk_size m b)"
    "blk_size (set_type a t m) b = blk_size m b"
    "blk_type (set_next a v m) b = blk_type m b" "blk_type (set_size a w m) b = blk_type m b"
    "blk_type (set_type a t m) b = (if b = a then t else blk_type m b)"
  using descriptors.store_simps [of a "rg_blocks rg" "unat (rg_max_blocks rg)" b] assms
  by (simp_all add: slots_def)

subsection \<open>Merging\<close>

lemma mem_fix_block_same:
  "\<not> (blk_next m d \<noteq> 0 \<and> blk_type m d = BLOCK_FREE \<and> blk_type m (blk_next m d) = BLOCK_FREE)
     \<Longrightarrow> mem_fix_block d m = m"
  unfolding mem_fix_block_def by (rule if_not_P)

text \<open>
  A free block takes over the block behind it, in whatever order the fields are written.
\<close>

lemma heap_ok_absorb:
  assumes ok: "heap_ok m rg (pre @ d # x # post) (ps @ (BLOCK_FREE, k) # (t, w) # qs)"
    and len: "length ps = length pre"
    and f: "\<And>y. y \<in> slots rg \<Longrightarrow> blk_next m' y = (if y = d then blk_next m x else blk_next m y)
      \<and> blk_size m' y = (if y = d then k + w else blk_size m y)
      \<and> blk_type m' y = (if y = x then BLOCK_NOT_PRESENT else blk_type m y)"
  shows "heap_ok m' rg (pre @ d # post) (ps @ (BLOCK_FREE, k + w) # qs)"
proof -
  note D = heap_okD [OF ok len]
  have "block_store.linked (slots rg) 0 blk_next blk_size blk_type m' (rg_head rg)
      (pre @ d # post) (ps @ (BLOCK_FREE, k + w) # qs)"
    unfolding slots_def
  proof (rule descriptors.linked_absorb)
    show "block_store.linked (slot_set (rg_blocks rg) (unat (rg_max_blocks rg))) 0
        blk_next blk_size blk_type m (rg_head rg) (pre @ d # x # post)
        (ps @ (BLOCK_FREE, k) # (t, w) # qs)"
      using ok by (simp add: heap_ok_def slots_def)
    show "length ps = length pre" by (rule len)
    fix y assume y: "y \<in> set (pre @ d # post)"
    then have "y \<in> slots rg" "y \<noteq> x" using D(3,4) by auto
    then show "blk_next m' y = (if y = d then blk_next m x else blk_next m y)
        \<and> blk_type m' y = blk_type m y \<and> blk_size m' y = (if y = d then k + w else blk_size m y)"
      using f by simp
  qed
  moreover have "blk_type m' y = BLOCK_NOT_PRESENT" if "y \<in> slots rg - set (pre @ d # post)" for y
    using that f [of y] ok by (auto simp: heap_ok_def)
  moreover have "unat k + unat w < 2 ^ 32"
    using ok by (simp add: heap_ok_def abs_block_def)
  then have "unat (k + w) = unat k + unat w" by (rule unat_add_no_wrap)
  ultimately show ?thesis using ok by (auto simp: heap_ok_def abs_block_def)
qed

text \<open>The second of two neighbours, seen from the list.\<close>

lemma heap_okD2:
  assumes "heap_ok m rg (pre @ d # x # post) (ps @ e # e' # qs)" "length ps = length pre"
  shows "x \<in> slots rg" "x \<noteq> 0" "e' = (blk_type m x, blk_size m x)" "blk_next m x = hd (post @ [0])"
    "blk_type m x = BLOCK_FREE \<or> blk_type m x = BLOCK_USED" "d \<noteq> x"
proof -
  have *: "heap_ok m rg ((pre @ [d]) @ x # post) ((ps @ [e]) @ e' # qs)"
    "length (ps @ [e]) = length (pre @ [d])" using assms by simp_all
  show "x \<in> slots rg" "x \<noteq> 0" "e' = (blk_type m x, blk_size m x)" "blk_next m x = hd (post @ [0])"
    "blk_type m x = BLOCK_FREE \<or> blk_type m x = BLOCK_USED"
    using heap_okD [OF *] by simp_all
  show "d \<noteq> x" using heap_okD(3) [OF assms] by auto
qed

lemma heap_ok_merge:
  assumes ok: "heap_ok m rg (pre @ d # x # post) (ps @ (BLOCK_FREE, k) # (BLOCK_FREE, w) # qs)"
    and len: "length ps = length pre"
  shows "heap_ok (mem_fix_block d m) rg (pre @ d # post) (ps @ (BLOCK_FREE, k + w) # qs)"
proof (rule heap_ok_absorb [OF ok len])
  note D = heap_okD [OF ok len] and X = heap_okD2 [OF ok len]
  have d: "blk_next m d = x" "blk_type m d = BLOCK_FREE" "blk_size m d = k"
    and x: "blk_type m x = BLOCK_FREE" "blk_size m x = w"
    using D(5,6) X(3) by simp_all
  let ?m = "mem_fix_block d m"
  have m: "?m = set_next d (blk_next m x) (set_type x BLOCK_NOT_PRESENT (set_size d (k + w) m))"
    using d x X(2) D(1) X(1) X(6)
    by (simp add: mem_fix_block_def Let_def field_simps_slots)
  show "blk_next ?m y = (if y = d then blk_next m x else blk_next m y)
      \<and> blk_size ?m y = (if y = d then k + w else blk_size m y)
      \<and> blk_type ?m y = (if y = x then BLOCK_NOT_PRESENT else blk_type m y)"
    if "y \<in> slots rg" for y
    using that D(1) X(1) by (simp add: m field_simps_slots)
qed

lemma heap_ok_fix:
  assumes ok: "heap_ok m rg (pre @ d # post) (ps @ e # qs)" and len: "length ps = length pre"
  shows "\<exists>post' e' qs'. heap_ok (mem_fix_block d m) rg (pre @ d # post') (ps @ e' # qs')
    \<and> map abs_block (e' # qs') = a_fix (map abs_block (e # qs)) \<and> length post' \<le> length post"
proof (cases post)
  case Nil
  then have "mem_fix_block d m = m" "qs = []"
    using heap_okD [OF ok len] by (simp_all add: mem_fix_block_same)
  moreover have "a_fix (map abs_block [e]) = map abs_block [e]" by (cases "abs_block e") simp
  ultimately show ?thesis using ok Nil
    by (intro exI [of _ "[]"] exI [of _ e]) simp
next
  case (Cons x post1)
  then obtain e1 qs1 where qs: "qs = e1 # qs1"
    using heap_okD(8) [OF ok len] by (cases qs) auto
  have ok': "heap_ok m rg ((pre @ [d]) @ x # post1) ((ps @ [e]) @ e1 # qs1)"
    using ok Cons qs by simp
  have len': "length (ps @ [e]) = length (pre @ [d])" using len by simp
  note D = heap_okD [OF ok len] and X = heap_okD [OF ok' len']
  show ?thesis
  proof (cases "blk_type m d = BLOCK_FREE \<and> blk_type m x = BLOCK_FREE")
    case True
    then have e: "e = (BLOCK_FREE, blk_size m d)" "e1 = (BLOCK_FREE, blk_size m x)"
      using D(5) X(5) by simp_all
    have "heap_ok m rg (pre @ d # x # post1)
        (ps @ (BLOCK_FREE, blk_size m d) # (BLOCK_FREE, blk_size m x) # qs1)"
      using ok Cons qs e by simp
    note mg = heap_ok_merge [OF this len]
    have "unat (blk_size m d) + unat (blk_size m x) < 2 ^ 32"
      using ok qs e by (simp add: heap_ok_def abs_block_def)
    then have "unat (blk_size m d + blk_size m x) = unat (blk_size m d) + unat (blk_size m x)"
      by (rule unat_add_no_wrap)
    then have "map abs_block ((BLOCK_FREE, blk_size m d + blk_size m x) # qs1)
        = a_fix (map abs_block (e # qs))"
      by (simp add: qs e abs_block_def)
    with mg Cons show ?thesis by fastforce
  next
    case False
    then have same: "mem_fix_block d m = m"
      using D(6) Cons by (intro mem_fix_block_same) simp
    have "fst e = BLOCK_USED \<or> fst e1 = BLOCK_USED" using False D(5,7) X(5,7) by auto
    then have "a_fix (map abs_block (e # qs)) = map abs_block (e # qs)"
      by (auto simp: qs abs_block_def)
    with same ok Cons show ?thesis by fastforce
  qed
qed

subsection \<open>The heap writes to its table only\<close>

definition table :: "mem_region \<Rightarrow> u32 set" where
  "table rg = (\<Union>d \<in> slots rg. span d 12)"

lemma field_frame:
  assumes "d \<in> slots rg"
  shows "same_outside (table rg) m (set_next d v m)" "same_outside (table rg) m (set_size d v m)"
    "same_outside (table rg) m (set_type d t m)"
proof -
  have "span d 4 \<subseteq> table rg" "span (d + 4) 4 \<subseteq> table rg" "d + 8 \<in> table rg"
    using assms span_mono [of 4 12 d] span_shift [of d 4 8] span_mono [of 4 8 "d + 4"]
      in_spanI [of 8 12 d] by (auto simp: table_def)
  then show "same_outside (table rg) m (set_next d v m)" "same_outside (table rg) m (set_size d v m)"
    "same_outside (table rg) m (set_type d t m)"
    by (auto simp: same_outside_def set_next_def set_size_def set_type_def intro!: st32_other)
qed

lemma field_frames:
  assumes "same_outside (table rg) m m'" "d \<in> slots rg"
  shows "same_outside (table rg) m (set_next d v m')" "same_outside (table rg) m (set_size d v m')"
    "same_outside (table rg) m (set_type d t m')"
  using assms(1) field_frame [OF assms(2), of m'] by (blast intro: same_outside_trans)+

lemma mem_fix_block_frame:
  assumes "heap_ok m rg (pre @ d # post) (ps @ e # qs)" "length ps = length pre"
  shows "same_outside (table rg) m (mem_fix_block d m)"
proof (cases "blk_next m d \<noteq> 0 \<and> blk_type m d = BLOCK_FREE \<and> blk_type m (blk_next m d) = BLOCK_FREE")
  case True
  note D = heap_okD [OF assms]
  have x: "blk_next m d \<in> slots rg"
    using True D(4,6) by (cases post) auto
  let ?m1 = "set_size d (blk_size m d + blk_size m (blk_next m d)) m"
  let ?m2 = "set_type (blk_next m d) BLOCK_NOT_PRESENT ?m1"
  have e: "mem_fix_block d m = set_next d (blk_next ?m2 (blk_next ?m2 d)) ?m2"
    using True D(1) by (simp add: mem_fix_block_def Let_def field_simps_slots)
  show ?thesis unfolding e using x D(1) by (intro field_frames same_outside_refl)
next
  case False
  then show ?thesis by (simp add: mem_fix_block_same)
qed

lemma free_found_frame:
  assumes "x \<in> slots rg" "h \<in> slots rg"
  shows "same_outside (table rg) m (free_found x h m)"
proof -
  have "same_outside (table rg) m (set_type x t (set_size h v (set_next h w m)))" for t v w
    using assms by (intro field_frames same_outside_refl)
  then show ?thesis using field_frame(3) [OF assms(1)] by (simp add: free_found_def Let_def)
qed

subsection \<open>Finding a descriptor\<close>

lemma scan_Some:
  "scan_not_present n b m = Some x \<Longrightarrow> \<exists>i<n. x = b + 12 * of_nat i \<and> blk_type m x = BLOCK_NOT_PRESENT"
proof (induction n b m rule: scan_not_present.induct)
  case (2 n b m)
  show ?case
  proof (cases "blk_type m b = BLOCK_NOT_PRESENT")
    case True
    with 2(2) show ?thesis by auto
  next
    case False
    with 2 obtain i where "i < n" "x = b + 12 + 12 * of_nat i" "blk_type m x = BLOCK_NOT_PRESENT"
      by auto
    then show ?thesis by (intro exI [of _ "Suc i"]) (simp add: algebra_simps)
  qed
qed simp

lemma scan_None:
  "scan_not_present n b m = None \<Longrightarrow> i < n \<Longrightarrow> blk_type m (b + 12 * of_nat i) \<noteq> BLOCK_NOT_PRESENT"
proof (induction n b m arbitrary: i rule: scan_not_present.induct)
  case (2 n b m)
  then show ?case by (cases i) (auto simp: algebra_simps split: if_splits)
qed simp

lemma scan_slots:
  assumes "region_wf rg"
  shows "scan_not_present (unat (rg_max_blocks rg)) (rg_blocks rg) m = Some x
      \<Longrightarrow> x \<in> slots rg \<and> blk_type m x = BLOCK_NOT_PRESENT \<and> x \<noteq> 0"
    and "scan_not_present (unat (rg_max_blocks rg)) (rg_blocks rg) m = None
      \<Longrightarrow> \<forall>x \<in> slots rg. blk_type m x \<noteq> BLOCK_NOT_PRESENT"
  using scan_Some [of "unat (rg_max_blocks rg)" "rg_blocks rg" m x]
    scan_None [of "unat (rg_max_blocks rg)" "rg_blocks rg" m] slots_not_0 [OF assms]
  by (auto simp: slots_eq [OF assms])

text \<open>The table is full exactly when every descriptor is linked.\<close>

lemma heap_ok_full:
  assumes "heap_ok m rg ds es"
  shows "scan_not_present (unat (rg_max_blocks rg)) (rg_blocks rg) m = None
    \<longleftrightarrow> length es = unat (rg_max_blocks rg)"
proof -
  have wf: "region_wf rg" and ds: "distinct ds" "set ds \<subseteq> slots rg" "length es = length ds"
    and np: "\<forall>d \<in> slots rg - set ds. blk_type m d = BLOCK_NOT_PRESENT"
    using assms by (auto simp: heap_ok_def descriptors.linked_def slots_def)
  have ty: "fst ` set es \<subseteq> {BLOCK_FREE, BLOCK_USED}" "es = map (\<lambda>d. (blk_type m d, blk_size m d)) ds"
    using assms unfolding heap_ok_def descriptors.linked_def slots_def by blast+
  have n: "unat (rg_max_blocks rg) \<le> 357913941" using wf by (simp add: region_wf_def)
  have "inj_on (\<lambda>i. rg_blocks rg + 12 * of_nat i) {..<unat (rg_max_blocks rg)}"
  proof (rule inj_onI)
    fix i j assume "i \<in> {..<unat (rg_max_blocks rg)}" "j \<in> {..<unat (rg_max_blocks rg)}"
      "rg_blocks rg + 12 * of_nat i = rg_blocks rg + 12 * of_nat j"
    then show "i = j" using slot_offset [of i j 0 0 "rg_blocks rg"] n by simp
  qed
  then have card: "card (slots rg) = unat (rg_max_blocks rg)" by (simp add: slots_eq [OF wf] card_image)
  have fin: "finite (slots rg)" by (simp add: slots_eq [OF wf])
  show ?thesis
  proof
    assume "scan_not_present (unat (rg_max_blocks rg)) (rg_blocks rg) m = None"
    from scan_slots(2) [OF wf this] np have "slots rg = set ds" using ds(2) by auto
    with ds card show "length es = unat (rg_max_blocks rg)" by (simp add: distinct_card)
  next
    assume "length es = unat (rg_max_blocks rg)"
    then have "card (set ds) = card (slots rg)" using ds card by (simp add: distinct_card)
    then have eq: "set ds = slots rg" using ds(2) fin by (simp add: card_subset_eq)
    show "scan_not_present (unat (rg_max_blocks rg)) (rg_blocks rg) m = None"
    proof (rule ccontr)
      assume "scan_not_present (unat (rg_max_blocks rg)) (rg_blocks rg) m \<noteq> None"
      then obtain x where "scan_not_present (unat (rg_max_blocks rg)) (rg_blocks rg) m = Some x" by auto
      from scan_slots(1) [OF wf this] have x: "x \<in> set ds" "blk_type m x = BLOCK_NOT_PRESENT"
        using eq by auto
      from x(1) have "(blk_type m x, blk_size m x) \<in> set es" by (simp add: ty(2))
      with ty(1) x(2) show False by force
    qed
  qed
qed

lemma heap_ok_length:
  assumes "heap_ok m rg ds es" shows "length es \<le> unat (rg_max_blocks rg)"
proof -
  have ds: "distinct ds" "set ds \<subseteq> slots rg" "length es = length ds" and wf: "region_wf rg"
    using assms by (auto simp: heap_ok_def descriptors.linked_def slots_def)
  have "finite (slots rg)" "card (slots rg) \<le> unat (rg_max_blocks rg)"
    unfolding slots_eq [OF wf] using card_image_le [of "{..<unat (rg_max_blocks rg)}"] by auto
  then have "card (set ds) \<le> unat (rg_max_blocks rg)" using ds(2) by (meson card_mono le_trans)
  with ds show ?thesis by (simp add: distinct_card)
qed

subsection \<open>Taking a block\<close>

text \<open>A block in use put in behind another one, whatever the order of the writes.\<close>

lemma heap_ok_insert:
  assumes ok: "heap_ok m rg (pre @ d # post) (ps @ (t, k) # qs)" and len: "length ps = length pre"
    and n: "n \<in> slots rg" "blk_type m n = BLOCK_NOT_PRESENT" "n \<noteq> 0" and w: "unat k' + unat w \<le> unat k"
    and f: "\<And>y. y \<in> slots rg \<Longrightarrow> blk_next m' y = (if y = d then n else if y = n then blk_next m d else blk_next m y)
      \<and> blk_size m' y = (if y = d then k' else if y = n then w else blk_size m y)
      \<and> blk_type m' y = (if y = n then BLOCK_USED else blk_type m y)"
  shows "heap_ok m' rg (pre @ d # n # post) (ps @ (t, k') # (BLOCK_USED, w) # qs)"
proof -
  let ?m = "set_size d k' (set_size n w (set_next d n (set_next n (blk_next m d) (set_type n BLOCK_USED m))))"
  note D = heap_okD [OF ok len]
  have nd: "n \<notin> set (pre @ d # post)"
  proof
    assume "n \<in> set (pre @ d # post)"
    moreover have "ps @ (t, k) # qs = map (\<lambda>d. (blk_type m d, blk_size m d)) (pre @ d # post)"
      using ok by (simp only: heap_ok_def descriptors.linked_def slots_def)
    ultimately have "(blk_type m n, blk_size m n) \<in> set (ps @ (t, k) # qs)" by auto
    moreover have "fst ` set (ps @ (t, k) # qs) \<subseteq> {BLOCK_FREE, BLOCK_USED}"
      using ok by (simp only: heap_ok_def)
    ultimately show False using n(2) by force
  qed
  then have dn: "d \<noteq> n" by auto
  have l: "descriptors.linked (rg_blocks rg) (unat (rg_max_blocks rg)) ?m (rg_head rg)
      (pre @ d # n # post) (ps @ (t, k') # (BLOCK_USED, w) # qs)"
    using ok len n nd by (intro descriptors.linked_insert [where k = k]) (simp_all add: heap_ok_def slots_def)
  have same: "blk_next m' y = blk_next ?m y \<and> blk_type m' y = blk_type ?m y \<and> blk_size m' y = blk_size ?m y"
    if "y \<in> slots rg" for y
    using f [OF that] that D(1) n(1) dn by (simp add: field_simps_slots)
  have sub: "set (pre @ d # n # post) \<subseteq> slots rg" using D(4) n(1) by auto
  have "descriptors.linked (rg_blocks rg) (unat (rg_max_blocks rg)) m' (rg_head rg)
      (pre @ d # n # post) (ps @ (t, k') # (BLOCK_USED, w) # qs)"
  proof (rule iffD2 [OF descriptors.linked_cong l])
    show "blk_next m' y = blk_next ?m y \<and> blk_type m' y = blk_type ?m y \<and> blk_size m' y = blk_size ?m y"
      if "y \<in> set (pre @ d # n # post)" for y
      using same sub that by blast
  qed
  moreover have "blk_type m' y = BLOCK_NOT_PRESENT" if "y \<in> slots rg - set (pre @ d # n # post)" for y
    using that f [of y] ok by (auto simp: heap_ok_def)
  ultimately show ?thesis using ok w by (auto simp: heap_ok_def abs_block_def slots_def)
qed

lemma heap_ok_take:
  assumes ok: "heap_ok m rg (pre @ d # post) (ps @ (t, k) # qs)" and len: "length ps = length pre"
    and n: "n \<in> slots rg" "blk_type m n = BLOCK_NOT_PRESENT" "n \<noteq> 0" and w: "w \<le> k"
  shows "heap_ok (set_size d (k - w) (set_size n w (set_next d n
      (set_next n (blk_next m d) (set_type n BLOCK_USED m)))))
    rg (pre @ d # n # post) (ps @ (t, k - w) # (BLOCK_USED, w) # qs)"
proof (rule heap_ok_insert [OF ok len n])
  note D = heap_okD [OF ok len]
  show "unat (k - w) + unat w \<le> unat k" using w by (simp add: unat_sub_no_wrap word_le_nat_alt)
  have "d \<noteq> n" using D(7) n(2) by auto
  then show "blk_next (set_size d (k - w) (set_size n w (set_next d n
        (set_next n (blk_next m d) (set_type n BLOCK_USED m))))) y
      = (if y = d then n else if y = n then blk_next m d else blk_next m y)
    \<and> blk_size (set_size d (k - w) (set_size n w (set_next d n
        (set_next n (blk_next m d) (set_type n BLOCK_USED m))))) y
      = (if y = d then k - w else if y = n then w else blk_size m y)
    \<and> blk_type (set_size d (k - w) (set_size n w (set_next d n
        (set_next n (blk_next m d) (set_type n BLOCK_USED m))))) y
      = (if y = n then BLOCK_USED else blk_type m y)" if "y \<in> slots rg" for y
    using that D(1) n(1) by (simp add: field_simps_slots)
qed

subsection \<open>The heap of a machine\<close>

text \<open>
  One region in use, as \<open>main\<close> sets it up.  The first block is free and at least as large as
  the \<open>free_size\<close> of the region, so the walk of \<open>mem_alloc\<close> stops at it; the descriptor
  table is clear of the VGA window, which the message of \<open>mem_new_block\<close> writes to.
\<close>

abbreviation heap_base :: "machine \<Rightarrow> nat" where
  "heap_base s \<equiv> unat (rg_addr (region s 0))"

abbreviation heap_free :: "machine \<Rightarrow> nat" where
  "heap_free s \<equiv> unat (rg_free_size (region s 0))"

abbreviation heap_table :: "machine \<Rightarrow> nat" where
  "heap_table s \<equiv> unat (rg_max_blocks (region s 0))"

definition heap_state :: "machine \<Rightarrow> ablock list \<Rightarrow> bool" where
  "heap_state s bs \<longleftrightarrow> ms_max_regions (heap_master s) = DEFAULT_MAX_REGIONS
     \<and> rg_addr (region s 0) \<noteq> 0 \<and> (\<forall>i \<in> {1, 2, 3}. region s i = mem_region_0)
     \<and> (\<exists>ds es. heap_ok (ram s) (region s 0) ds es \<and> bs = map abs_block es)
     \<and> bs \<noteq> [] \<and> \<not> fst (hd bs) \<and> heap_free s \<le> snd (hd bs)
     \<and> heap_base s + total_size bs < 2 ^ 32
     \<and> term_ok s \<and> (\<forall>d \<in> slots (region s 0). span d 12 \<inter> vga_window = {})"

lemma heap_ok_free_size [simp]:
  "heap_ok m (rg\<lparr>rg_free_size := f\<rparr>) ds es = heap_ok m rg ds es" "slots (rg\<lparr>rg_free_size := f\<rparr>) = slots rg"
  by (simp_all add: heap_ok_def region_wf_def slots_def)

lemma region_simps [simp]:
  "region (set_region i rg s) j = (if j = i then rg else region s j)"
  "region (s\<lparr>ram := m\<rparr>) j = region s j" "ram (set_region i rg s) = ram s"
  "ram (take_free i d s) = ram s" "ram (fix_block b s) = mem_fix_block b (ram s)"
  "region (fix_block b s) j = region s j"
  "region (take_free i d s) j = (if j = i then (region s i)\<lparr>rg_free_size := rg_free_size (region s i) - d\<rparr>
     else region s j)"
  by (simp_all add: region_def set_region_def take_free_def fix_block_def)

lemma master_simps [simp]:
  "ms_max_regions (heap_master (set_region i rg s)) = ms_max_regions (heap_master s)"
  "ms_max_regions (heap_master (take_free i d s)) = ms_max_regions (heap_master s)"
  "ms_max_regions (heap_master (fix_block b s)) = ms_max_regions (heap_master s)"
  "term_ok (set_region i rg s) = term_ok s" "term_ok (take_free i d s) = term_ok s"
  "term_ok (fix_block b s) = term_ok s" "term_ok (s\<lparr>ram := m\<rparr>) = term_ok s"
  by (simp_all add: set_region_def take_free_def fix_block_def term_ok_def)

lemma heap_stateE:
  assumes "heap_state s bs"
  obtains d post e qs where "heap_ok (ram s) (region s 0) ([] @ d # post) ([] @ e # qs)"
    "bs = map abs_block (e # qs)" "rg_head (region s 0) = d" "d \<noteq> 0"
proof -
  from assms obtain ds es where ok: "heap_ok (ram s) (region s 0) ds es" and bs: "bs = map abs_block es"
    and "bs \<noteq> []" by (auto simp: heap_state_def)
  then obtain e qs where es: "es = e # qs" by (cases es) auto
  have "length es = length ds" using ok by (simp add: heap_ok_def descriptors.linked_def slots_def)
  with es obtain d post where ds: "ds = d # post" by (cases ds) auto
  have "rg_head (region s 0) = d" "d \<noteq> 0"
    using ok ds by (simp_all add: heap_ok_def descriptors.linked_def slots_def)
  with that [of d post e qs] ok bs es ds show thesis by simp
qed

lemma no_blocks: "length ([] :: (u8 \<times> u32) list) = length ([] :: u32 list)"
  by simp

lemma region_order_4: "heap_state s bs \<Longrightarrow> region_order s = [0, 1, 2, 3]"
  by (simp add: heap_state_def region_order_def upt_rec)

lemma alloc_regions_rest:
  "(\<forall>i \<in> set is. rg_addr (region s i) = 0) \<Longrightarrow> alloc_regions is n s = Some (0, s)"
  by (induction "is") (simp_all add: Let_def)

text \<open>Merging at the head: the state every operation continues from.\<close>

lemma heap_state_fix:
  assumes "heap_state s bs"
  obtains d post e qs where
    "heap_ok (mem_fix_block d (ram s)) (region s 0) ([] @ d # post) ([] @ e # qs)"
    "a_fix bs = map abs_block (e # qs)" "rg_head (region s 0) = d" "d \<noteq> 0" "fst e = BLOCK_FREE"
    "heap_free s \<le> unat (snd e)"
proof -
  obtain d post0 e0 qs0 where 0: "heap_ok (ram s) (region s 0) ([] @ d # post0) ([] @ e0 # qs0)"
    "bs = map abs_block (e0 # qs0)" "rg_head (region s 0) = d" "d \<noteq> 0"
    using assms by (rule heap_stateE)
  from heap_ok_fix [OF 0(1) no_blocks] obtain post e qs where
    1: "heap_ok (mem_fix_block d (ram s)) (region s 0) ([] @ d # post) ([] @ e # qs)"
    "a_fix bs = map abs_block (e # qs)" unfolding 0(2) by auto
  have "bs \<noteq> []" "\<not> fst (hd bs)" "heap_free s \<le> snd (hd bs)" using assms by (auto simp: heap_state_def)
  with a_fix_head [of bs] 1(2) have e: "fst e \<noteq> BLOCK_USED" "heap_free s \<le> unat (snd e)"
    by (simp_all add: abs_block_def)
  have "fst e = BLOCK_FREE" using e(1) heap_okD(5,7) [OF 1(1) no_blocks] by auto
  with that 1 0(3,4) e(2) show thesis by blast
qed

lemma heap_stateI_alloc:
  assumes "heap_state s bs" "heap_ok m (region s 0) ds es" "map abs_block es = a_alloc (unat n) bs"
    and "unat n \<le> heap_free s"
  shows "heap_state (take_free 0 n (s\<lparr>ram := m\<rparr>)) (a_alloc (unat n) bs)"
proof -
  have bs: "bs \<noteq> []" "\<not> fst (hd bs)" "heap_free s \<le> snd (hd bs)" using assms(1) by (auto simp: heap_state_def)
  obtain u k r where f: "a_fix bs = (u, k) # r" using bs(1) by (cases "a_fix bs") auto
  have uk: "\<not> u" "heap_free s \<le> k" using f bs a_fix_head [OF bs(1)] by simp_all
  have "n \<le> rg_free_size (region s 0)" using assms(4) by (simp add: word_le_nat_alt)
  then have "unat (rg_free_size (region s 0) - n) = heap_free s - unat n" by (rule unat_sub_no_wrap)
  moreover have "total_size (a_alloc (unat n) bs) = total_size bs"
    using bs assms(4) by (intro total_a_alloc) simp_all
  moreover have "a_alloc (unat n) bs \<noteq> []" "fst (hd (a_alloc (unat n) bs)) = u"
    "snd (hd (a_alloc (unat n) bs)) = k - unat n" by (simp_all add: a_alloc_def f)
  moreover have "\<exists>ds es. heap_ok m (region s 0) ds es \<and> a_alloc (unat n) bs = map abs_block es"
    using assms(2) assms(3) [symmetric] by blast
  ultimately show ?thesis
    using assms(1,4) uk by (simp add: heap_state_def)
qed

text \<open>Merging at the head leaves the descriptors of the blocks in use alone.\<close>

lemma mem_fix_block_used:
  assumes ok: "heap_ok m rg (pre @ d # post) (ps @ e # qs)" "length ps = length pre"
    and x: "x \<in> slots rg" "blk_type m x = BLOCK_USED"
  shows "blk_size (mem_fix_block d m) x = blk_size m x \<and> blk_type (mem_fix_block d m) x = BLOCK_USED"
proof (cases "blk_next m d \<noteq> 0 \<and> blk_type m d = BLOCK_FREE \<and> blk_type m (blk_next m d) = BLOCK_FREE")
  case True
  note D = heap_okD [OF ok]
  have y: "blk_next m d \<in> slots rg" using True D(4,6) by (cases post) auto
  have "x \<noteq> d" "x \<noteq> blk_next m d" using x(2) True by auto
  then show ?thesis using True D(1) x y by (simp add: mem_fix_block_def Let_def field_simps_slots)
next
  case False
  then show ?thesis using x(2) by (simp add: mem_fix_block_same)
qed

lemma mem_alloc_takes:
  assumes hs: "heap_state s bs" and n: "unat n \<le> heap_free s"
    and room: "length (a_fix bs) < heap_table s"
  shows "\<exists>p s'. mem_alloc n s = Some (p, s') \<and> heap_state s' (a_alloc (unat n) bs)
    \<and> unat p = heap_base s + snd (hd (a_fix bs)) - unat n
    \<and> same_outside (table (region s 0)) (ram s) (ram s')
    \<and> region s' 0 = (region s 0)\<lparr>rg_free_size := rg_free_size (region s 0) - n\<rparr>
    \<and> (\<forall>x \<in> slots (region s 0). blk_type (ram s) x = BLOCK_USED \<longrightarrow> blk_size (ram s') x = blk_size (ram s) x)"
proof -
  obtain d post e qs where
    ok: "heap_ok (mem_fix_block d (ram s)) (region s 0) ([] @ d # post) ([] @ e # qs)"
    and f: "a_fix bs = map abs_block (e # qs)" "rg_head (region s 0) = d" "d \<noteq> 0"
    and e: "fst e = BLOCK_FREE" "heap_free s \<le> unat (snd e)"
    using hs by (rule heap_state_fix)
  let ?m = "mem_fix_block d (ram s)" and ?rg = "region s 0"
  obtain k where ek: "e = (BLOCK_FREE, k)" using e(1) by (cases e) auto
  note D = heap_okD [OF ok no_blocks]
  have "length (e # qs) \<noteq> heap_table s" using room f(1) by simp
  with heap_ok_full [OF ok] obtain nb where
    nb: "scan_not_present (heap_table s) (rg_blocks ?rg) ?m = Some nb" by auto
  have wf: "region_wf ?rg" using ok by (simp add: heap_ok_def)
  from scan_slots(1) [OF wf nb] have nb': "nb \<in> slots ?rg" "blk_type ?m nb = BLOCK_NOT_PRESENT" "nb \<noteq> 0"
    by auto
  have nk: "n \<le> k" using n e(2) by (simp add: ek word_le_nat_alt)
  let ?m' = "set_size d (k - n) (set_size nb n (set_next d nb
      (set_next nb (blk_next ?m d) (set_type nb BLOCK_USED ?m))))"
  have dk: "blk_size ?m d = k" "blk_type ?m d = BLOCK_FREE" using D(5) by (simp_all add: ek)
  have dnb: "nb \<noteq> d" using nb'(2) dk(2) by auto
  have take: "alloc_take 0 n d (rg_addr ?rg) (fix_block d s)
      = (rg_addr ?rg + (k - n), take_free 0 n (s\<lparr>ram := ?m'\<rparr>))"
    using nb nb' D(1) dnb dk
    by (simp add: alloc_take_def mem_new_block_def Let_def field_simps_slots fix_block_def)
  have walk: "alloc_walk 0 n d (rg_addr ?rg) s
      = Some (Some (rg_addr ?rg + (k - n)), take_free 0 n (s\<lparr>ram := ?m'\<rparr>))"
    using f(3) dk take by (simp add: alloc_walk.simps [of 0 n d] Let_def)
  have "rg_addr ?rg \<noteq> 0" "\<not> rg_free_size ?rg < n"
    using hs n by (simp_all add: heap_state_def word_less_nat_alt)
  then have "mem_alloc n s = Some (rg_addr ?rg + (k - n), take_free 0 n (s\<lparr>ram := ?m'\<rparr>))"
    using walk f(2) by (simp add: mem_alloc_def region_order_4 [OF hs] Let_def)
  moreover have "heap_state (take_free 0 n (s\<lparr>ram := ?m'\<rparr>)) (a_alloc (unat n) bs)"
  proof (rule heap_stateI_alloc [OF hs _ _ n])
    show "heap_ok ?m' ?rg ([] @ d # nb # post) ([] @ (BLOCK_FREE, k - n) # (BLOCK_USED, n) # qs)"
      using ok nb' nk unfolding ek by (intro heap_ok_take) simp_all
    show "map abs_block ([] @ (BLOCK_FREE, k - n) # (BLOCK_USED, n) # qs) = a_alloc (unat n) bs"
      using nk by (simp add: a_alloc_def f ek abs_block_def unat_sub_no_wrap)
  qed
  moreover have "unat (rg_addr ?rg + (k - n)) = heap_base s + unat k - unat n"
  proof -
    have kn: "unat (k - n) = unat k - unat n" "unat n \<le> unat k"
      using nk by (simp_all add: unat_sub_no_wrap word_le_nat_alt)
    have "unat k \<le> total_size bs" using total_a_fix [of bs] f(1) by (simp add: ek abs_block_def)
    moreover have "heap_base s + total_size bs < 2 ^ 32" using hs by (simp add: heap_state_def)
    ultimately have "heap_base s + unat (k - n) < 2 ^ 32" using kn by linarith
    then have "unat (rg_addr ?rg + (k - n)) = heap_base s + unat (k - n)" by (rule unat_add_no_wrap)
    with kn show ?thesis by simp
  qed
  moreover obtain e0 qs0 post0 where ok0: "heap_ok (ram s) ?rg ([] @ d # post0) ([] @ e0 # qs0)"
    using hs f(2) by (auto elim: heap_stateE)
  have "same_outside (table ?rg) (ram s) ?m'"
    using mem_fix_block_frame [OF ok0 no_blocks] nb'(1) D(1) by (intro field_frames)
  moreover have "blk_size ?m' x = blk_size (ram s) x" if "x \<in> slots ?rg" "blk_type (ram s) x = BLOCK_USED" for x
  proof -
    from mem_fix_block_used [OF ok0 no_blocks that] have u: "blk_size ?m x = blk_size (ram s) x" "blk_type ?m x = BLOCK_USED"
      by simp_all
    then have "x \<noteq> d" "x \<noteq> nb" using dk(2) nb'(2) by auto
    then show ?thesis using u(1) that(1) nb'(1) D(1) by (simp add: field_simps_slots)
  qed
  ultimately show ?thesis using f(1) by (simp add: ek abs_block_def)
qed

lemma mem_alloc_taken:
  assumes hs: "heap_state s bs" and n: "unat n \<le> heap_free s"
    and room: "length (a_fix bs) < heap_table s"
  shows "\<exists>p s'. mem_alloc n s = Some (p, s') \<and> heap_state s' (a_alloc (unat n) bs)
    \<and> unat p = heap_base s + snd (hd (a_fix bs)) - unat n
    \<and> same_outside (table (region s 0)) (ram s) (ram s')
    \<and> region s' 0 = (region s 0)\<lparr>rg_free_size := rg_free_size (region s 0) - n\<rparr>"
  using mem_alloc_takes [OF assms] by blast

lemma mem_alloc_refused:
  assumes "heap_state s bs" "heap_free s < unat n"
  shows "mem_alloc n s = Some (0, s)"
  using assms by (simp add: mem_alloc_def region_order_4 Let_def word_less_nat_alt)
    (intro alloc_regions_rest conjI, auto simp: heap_state_def mem_region_0_def)

subsection \<open>The message of \<open>mem_new_block\<close>\<close>

lemma print_frame:
  assumes "term_ok s" "8 \<notin> set cs"
  shows "term_ok (fold putchar_c cs s)" "heap_master (fold putchar_c cs s) = heap_master s"
    "same_outside vga_window (ram s) (ram (fold putchar_c cs s))"
  using print_view [OF assms] by (simp_all add: print_rest)

lemma blk_fields_frame:
  assumes "same_outside A m m'" "span d 12 \<inter> A = {}"
  shows "blk_next m' d = blk_next m d \<and> blk_type m' d = blk_type m d \<and> blk_size m' d = blk_size m d"
proof -
  have agree: "m' q = m q" if "q \<in> span d 12" for q
    using assms that by (auto simp: same_outside_def)
  have "span d 4 \<subseteq> span d 12" "span (d + 4) 4 \<subseteq> span d 12" "d + 8 \<in> span d 12"
    using span_mono [of 4 12 d] span_shift [of d 4 8] span_mono [of 4 8 "d + 4"]
      in_spanI [of 8 12 d] by auto
  then show ?thesis
    using agree by (auto simp: blk_next_def blk_size_def blk_type_def intro!: ld32_cong)
qed

lemma heap_ok_frame:
  assumes "heap_ok m rg ds es" "same_outside A m m'" "\<forall>d \<in> slots rg. span d 12 \<inter> A = {}"
  shows "heap_ok m' rg ds es"
proof -
  have f: "blk_next m' d = blk_next m d \<and> blk_type m' d = blk_type m d \<and> blk_size m' d = blk_size m d"
    if "d \<in> slots rg" for d
    using assms(2,3) that blk_fields_frame [of A m m' d] by blast
  have "set ds \<subseteq> slots rg" using assms(1) by (simp add: heap_ok_def descriptors.linked_def slots_def)
  then have "descriptors.linked (rg_blocks rg) (unat (rg_max_blocks rg)) m' (rg_head rg) ds es
      \<longleftrightarrow> descriptors.linked (rg_blocks rg) (unat (rg_max_blocks rg)) m (rg_head rg) ds es"
    using f by (intro descriptors.linked_cong) auto
  then show ?thesis using assms(1) f by (auto simp: heap_ok_def slots_def)
qed

lemma mem_alloc_no_descriptor:
  assumes hs: "heap_state s bs" and n: "unat n \<le> heap_free s"
    and full: "length (a_fix bs) = heap_table s"
  shows "\<exists>s'. mem_alloc n s = Some (0, s') \<and> heap_state s' (a_fix bs) \<and> region s' 0 = region s 0
    \<and> same_outside (table (region s 0) \<union> vga_window) (ram s) (ram s')"
proof -
  obtain d post e qs where
    ok: "heap_ok (mem_fix_block d (ram s)) (region s 0) ([] @ d # post) ([] @ e # qs)"
    and f: "a_fix bs = map abs_block (e # qs)" "rg_head (region s 0) = d" "d \<noteq> 0"
    and e: "fst e = BLOCK_FREE" "heap_free s \<le> unat (snd e)"
    using hs by (rule heap_state_fix)
  let ?m = "mem_fix_block d (ram s)" and ?rg = "region s 0"
  let ?s = "print_text ''No free blcks found\<newline>'' (fix_block d s)"
  have "length ([] @ e # qs) = heap_table s" using full f(1) by simp
  with heap_ok_full [OF ok]
  have none: "scan_not_present (heap_table s) (rg_blocks ?rg) ?m = None" by simp
  have "blk_type ?m d = BLOCK_FREE" using heap_okD(5) [OF ok no_blocks] e(1) by simp
  then have walk: "alloc_walk 0 n d (rg_addr ?rg) s = Some (Some 0, ?s)"
    using f(3) none
    by (simp add: alloc_walk.simps [of 0 n d] Let_def alloc_take_def mem_new_block_def)
  have "rg_addr ?rg \<noteq> 0" "\<not> rg_free_size ?rg < n"
    using hs n by (simp_all add: heap_state_def word_less_nat_alt)
  then have "mem_alloc n s = Some (0, ?s)"
    using walk f(2) by (simp add: mem_alloc_def region_order_4 [OF hs] Let_def)
  moreover
  have p: "term_ok ?s" "heap_master ?s = heap_master s" "same_outside vga_window ?m (ram ?s)"
    using print_frame [of "fix_block d s" "bytes ''No free blcks found\<newline>''"] hs
    by (simp_all add: print_text_def heap_state_def) (simp_all add: fix_block_def)
  then have r: "region ?s i = region s i" for i by (simp add: region_def)
  have vga: "\<forall>d \<in> slots ?rg. span d 12 \<inter> vga_window = {}" using hs by (simp add: heap_state_def)
  have "heap_ok (ram ?s) ?rg ([] @ d # post) ([] @ e # qs)"
    using ok p(3) vga by (rule heap_ok_frame)
  then have "\<exists>ds es. heap_ok (ram ?s) ?rg ds es \<and> a_fix bs = map abs_block es"
    using f(1) by (intro exI [of _ "d # post"] exI [of _ "e # qs"]) simp
  moreover have "\<not> fst (hd (a_fix bs))" "heap_free s \<le> snd (hd (a_fix bs))"
    using e f(1) by (simp_all add: abs_block_def)
  moreover have "same_outside (table ?rg \<union> vga_window) (ram s) (ram ?s)"
  proof -
    obtain e0 qs0 post0 where "heap_ok (ram s) ?rg ([] @ d # post0) ([] @ e0 # qs0)"
      using hs f(2) by (auto elim: heap_stateE)
    from mem_fix_block_frame [OF this no_blocks] have "same_outside (table ?rg) (ram s) ?m" .
    then have "same_outside (table ?rg \<union> vga_window) (ram s) ?m" by (rule same_outside_mono) simp
    moreover have "same_outside (table ?rg \<union> vga_window) ?m (ram ?s)"
      using p(3) by (rule same_outside_mono) simp
    ultimately show ?thesis by (rule same_outside_trans)
  qed
  ultimately show ?thesis
    using hs p(1,2) r by (auto simp: heap_state_def)
qed

subsection \<open>Freeing\<close>

lemma heap_ok_free_found:
  assumes ok: "heap_ok m rg (pre @ h # x # post) (ps @ eh # (BLOCK_USED, w) # qs)"
    and len: "length ps = length pre"
  shows "\<exists>ds es. heap_ok (free_found x h m) rg ds es \<and> map abs_block es = map abs_block ps
    @ (if fst eh = BLOCK_FREE then abs_block (BLOCK_FREE, snd eh + w) # map abs_block qs
       else abs_block eh # abs_block (BLOCK_FREE, w) # map abs_block qs)"
proof -
  note D = heap_okD [OF ok len] and X = heap_okD2 [OF ok len]
  show ?thesis
  proof (cases "fst eh = BLOCK_FREE")
    case True
    then obtain k where eh: "eh = (BLOCK_FREE, k)" by (cases eh) auto
    let ?m = "free_found x h m"
    have m: "?m = set_type x BLOCK_NOT_PRESENT (set_size h (k + w) (set_next h (blk_next m x) m))"
      using D(1,2,5) X(1,3,6)
      by (simp add: free_found_def eh Let_def field_simps_slots)
    have "heap_ok ?m rg (pre @ h # post) (ps @ (BLOCK_FREE, k + w) # qs)"
    proof (rule heap_ok_absorb [OF ok [unfolded eh] len])
      show "blk_next ?m y = (if y = h then blk_next m x else blk_next m y)
          \<and> blk_size ?m y = (if y = h then k + w else blk_size m y)
          \<and> blk_type ?m y = (if y = x then BLOCK_NOT_PRESENT else blk_type m y)"
        if "y \<in> slots rg" for y
        using that D(1) X(1) by (simp add: m field_simps_slots)
    qed
    with eh show ?thesis
      by (intro exI [of _ "pre @ h # post"] exI [of _ "ps @ (BLOCK_FREE, k + w) # qs"]) simp
  next
    case False
    then have "blk_type m h \<noteq> BLOCK_FREE" using D(5) by auto
    then have m: "free_found x h m = set_type x BLOCK_FREE m" by (simp add: free_found_def)
    have ok': "heap_ok m rg ((pre @ [h]) @ x # post) ((ps @ [eh]) @ (BLOCK_USED, w) # qs)"
      "length (ps @ [eh]) = length (pre @ [h])" using ok len by simp_all
    have l: "descriptors.linked (rg_blocks rg) (unat (rg_max_blocks rg)) m (rg_head rg)
        ((pre @ [h]) @ x # post) ((ps @ [eh]) @ (BLOCK_USED, w) # qs)"
      using ok'(1) by (simp only: heap_ok_def slots_def)
    from descriptors.linked_retype [OF l ok'(2), of BLOCK_FREE]
    have "descriptors.linked (rg_blocks rg) (unat (rg_max_blocks rg)) (set_type x BLOCK_FREE m) (rg_head rg)
        ((pre @ [h]) @ x # post) ((ps @ [eh]) @ (BLOCK_FREE, w) # qs)" .
    moreover have "blk_type (set_type x BLOCK_FREE m) y = BLOCK_NOT_PRESENT"
      if "y \<in> slots rg - set (pre @ h # x # post)" for y
      using that X(1) ok by (auto simp: field_simps_slots heap_ok_def)
    ultimately have "heap_ok (free_found x h m) rg (pre @ h # x # post) (ps @ eh # (BLOCK_FREE, w) # qs)"
      using ok unfolding m by (auto simp: heap_ok_def slots_def abs_block_def)
    with False show ?thesis
      by (intro exI [of _ "pre @ h # x # post"] exI [of _ "ps @ eh # (BLOCK_FREE, w) # qs"]) simp
  qed
qed

lemma abs_used [simp]: "fst (abs_block e) = (fst e = BLOCK_USED)"
  by (simp add: abs_block_def)

lemma free_walk_list:
  assumes "heap_ok (ram s) rg (pre @ h # post) (ps @ eh # qs)" "length ps = length pre"
    and "unat bptr = base + total_size (map abs_block (ps @ [eh]))"
    and "base + total_size (map abs_block (ps @ eh # qs)) < 2 ^ 32"
  shows "\<exists>b m' ds es. free_walk ptr (hd (post @ [0])) h bptr s = Some (b, s\<lparr>ram := m'\<rparr>)
    \<and> heap_ok m' rg ds es \<and> same_outside (table rg) (ram s) m'
    \<and> map abs_block es = map abs_block ps
        @ a_free_after (unat ptr) (unat bptr) (abs_block eh) (map abs_block qs)"
  using assms
proof (induction "length post" arbitrary: s pre h post ps eh qs bptr rule: less_induct)
  case less
  note ok = less.prems(1) and len = less.prems(2) and pos = less.prems(3) and bound = less.prems(4)
  show ?case
  proof (cases post)
    case Nil
    then have "qs = []" using heap_okD(8) [OF ok len] by simp
    with Nil ok show ?thesis
      by (intro exI [of _ False] exI [of _ "ram s"] exI [of _ "pre @ [h]"] exI [of _ "ps @ [eh]"])
        (simp add: free_walk.simps a_free_after.simps)
  next
    case (Cons x post1)
    then obtain e qs1 where qs: "qs = e # qs1" using heap_okD(8) [OF ok len] by (cases qs) auto
    let ?m = "mem_fix_block x (ram s)" and ?s = "fix_block x s"
    have "heap_ok (ram s) rg ((pre @ [h]) @ x # post1) ((ps @ [eh]) @ e # qs1)"
      "length (ps @ [eh]) = length (pre @ [h])" using ok len Cons qs by simp_all
    from heap_ok_fix [OF this] obtain post' e' qs' where
      fx: "heap_ok ?m rg ((pre @ [h]) @ x # post') ((ps @ [eh]) @ e' # qs')"
      "map abs_block (e' # qs') = a_fix (map abs_block qs)" "length post' \<le> length post1"
      unfolding qs by auto
    then have okx: "heap_ok ?m rg (pre @ h # x # post') (ps @ eh # e' # qs')" by simp
    note X = heap_okD2 [OF okx len]
    have fr: "same_outside (table rg) (ram s) ?m"
      using ok len Cons qs mem_fix_block_frame [of "ram s" rg "pre @ [h]" x post1 "ps @ [eh]" e qs1]
      by simp
    obtain t w where e': "e' = (t, w)" by fastforce
    have tw: "blk_type ?m x = t" "blk_size ?m x = w" using X(3) e' by simp_all
    have tot: "total_size (map abs_block qs) = unat w + total_size (map abs_block qs')"
      using total_a_fix [of "map abs_block qs"] fx(2) e' by (simp flip: fx(2) add: abs_block_def)
    then have b: "unat bptr + unat w < 2 ^ 32" using pos bound by simp
    then have nxt: "unat (bptr + w) = unat bptr + unat w" by (rule unat_add_no_wrap)
    have target: "is_target ?m x bptr ptr \<longleftrightarrow> t = BLOCK_USED \<and> unat ptr \<le> unat bptr"
      using tw nxt by (auto simp: is_target_def word_le_nat_alt)
    have rec: "a_free_after (unat ptr) (unat bptr) (abs_block eh) (map abs_block qs)
      = (if t = BLOCK_USED \<and> unat ptr \<le> unat bptr
         then (if fst eh \<noteq> BLOCK_USED then (False, snd (abs_block eh) + unat w) # map abs_block qs'
               else abs_block eh # (False, unat w) # map abs_block qs')
         else abs_block eh # a_free_after (unat ptr) (unat (bptr + w)) (abs_block e') (map abs_block qs'))"
      by (subst a_free_after.simps) (simp add: e' nxt abs_block_def flip: fx(2))
    show ?thesis
    proof (cases "is_target ?m x bptr ptr")
      case True
      then have t: "t = BLOCK_USED" "unat ptr \<le> unat bptr" using target by simp_all
      have walk: "free_walk ptr (hd (post @ [0])) h bptr s = Some (True, s\<lparr>ram := free_found x h ?m\<rparr>)"
        using True X(2) Cons by (simp add: free_walk.simps [of ptr x] Let_def fix_block_def)
      from heap_ok_free_found [OF okx [unfolded e' t(1)] len] obtain ds es where
        r: "heap_ok (free_found x h ?m) rg ds es" "map abs_block es = map abs_block ps
          @ (if fst eh = BLOCK_FREE then abs_block (BLOCK_FREE, snd eh + w) # map abs_block qs'
             else abs_block eh # abs_block (BLOCK_FREE, w) # map abs_block qs')" by blast
      have "fst eh = BLOCK_FREE \<longleftrightarrow> fst eh \<noteq> BLOCK_USED"
        using heap_okD(5,7) [OF okx len] by auto
      moreover have "unat (snd eh + w) = unat (snd eh) + unat w" if "fst eh = BLOCK_FREE"
      proof (rule unat_add_no_wrap)
        show "unat (snd eh) + unat w < 2 ^ 32"
          using bound tot qs by (simp add: abs_block_def)
      qed
      ultimately have "map abs_block es = map abs_block ps
          @ a_free_after (unat ptr) (unat bptr) (abs_block eh) (map abs_block qs)"
        using r(2) t by (simp add: rec) (auto simp: abs_block_def)
      moreover have "same_outside (table rg) (ram s) (free_found x h ?m)"
        using fr free_found_frame [OF X(1) heap_okD(1) [OF okx len]] by (rule same_outside_trans)
      ultimately show ?thesis using walk r(1) by blast
    next
      case False
      have nx: "blk_next ?m x = hd (post' @ [0])" by (rule X(4))
      have walk: "free_walk ptr (hd (post @ [0])) h bptr s
          = free_walk ptr (hd (post' @ [0])) x (bptr + w) ?s"
        using False X(2) Cons tw nx by (simp add: free_walk.simps [of ptr x] Let_def)
      have "\<exists>b m' ds es. free_walk ptr (hd (post' @ [0])) x (bptr + w) ?s = Some (b, ?s\<lparr>ram := m'\<rparr>)
        \<and> heap_ok m' rg ds es \<and> same_outside (table rg) (ram ?s) m'
        \<and> map abs_block es = map abs_block (ps @ [eh])
            @ a_free_after (unat ptr) (unat (bptr + w)) (abs_block e') (map abs_block qs')"
        (is "\<exists>b m' ds es. ?P b m' ds es")
      proof (rule less.hyps)
        show "length post' < length post" using fx(3) Cons by simp
        show "heap_ok (ram ?s) rg ((pre @ [h]) @ x # post') ((ps @ [eh]) @ e' # qs')" using fx(1) by simp
        show "length (ps @ [eh]) = length (pre @ [h])" using len by simp
        show "unat (bptr + w) = base + total_size (map abs_block ((ps @ [eh]) @ [e']))"
          using pos nxt by (simp add: e' abs_block_def)
        show "base + total_size (map abs_block ((ps @ [eh]) @ e' # qs')) < 2 ^ 32"
          using bound tot by (simp add: e' abs_block_def)
      qed
      then obtain b m' ds es where r: "?P b m' ds es" by blast
      moreover from r fr have "same_outside (table rg) (ram s) m'"
        by (auto intro: same_outside_trans)
      ultimately show ?thesis using walk target False
        by (intro exI [of _ b] exI [of _ m'] exI [of _ ds] exI [of _ es]) (auto simp: rec fix_block_def)
    qed
  qed
qed

lemma a_free_after_hd:
  "\<not> fst h \<Longrightarrow> a_free_after p pos h bs \<noteq> [] \<and> \<not> fst (hd (a_free_after p pos h bs))
     \<and> snd h \<le> snd (hd (a_free_after p pos h bs))"
  by (subst (1 2 3) a_free_after.simps) (auto split: list.splits)

lemma free_regions_rest:
  "(\<forall>i \<in> set is. rg_head (region s i) = 0) \<Longrightarrow> free_regions is ptr s = Some s"
  by (induction "is") (simp_all add: free_walk.simps)

lemma mem_free_frees:
  assumes hs: "heap_state s bs"
  shows "\<exists>s'. mem_free ptr s = Some s' \<and> heap_state s' (a_free (heap_base s) (unat ptr) bs)
    \<and> region s' 0 = region s 0 \<and> same_outside (table (region s 0)) (ram s) (ram s')"
proof -
  obtain d post e qs where
    ok: "heap_ok (mem_fix_block d (ram s)) (region s 0) ([] @ d # post) ([] @ e # qs)"
    and f: "a_fix bs = map abs_block (e # qs)" "rg_head (region s 0) = d" "d \<noteq> 0"
    and e: "fst e = BLOCK_FREE" "heap_free s \<le> unat (snd e)"
    using hs by (rule heap_state_fix)
  let ?m = "mem_fix_block d (ram s)" and ?rg = "region s 0" and ?s = "fix_block d s"
  obtain k where ek: "e = (BLOCK_FREE, k)" using e(1) by (cases e) auto
  note D = heap_okD [OF ok no_blocks]
  have dk: "blk_type ?m d = BLOCK_FREE" "blk_size ?m d = k" using D(5) ek by simp_all
  have bound: "heap_base s + total_size bs < 2 ^ 32" using hs by (simp add: heap_state_def)
  have tot: "total_size bs = unat k + total_size (map abs_block qs)"
    using total_a_fix [of bs] f(1) ek by (simp add: abs_block_def)
  then have pos: "unat (rg_addr ?rg + k) = heap_base s + unat k"
    using bound by (intro unat_add_no_wrap) simp
  have step: "free_walk ptr (rg_head ?rg) 0 (rg_addr ?rg) s
      = free_walk ptr (hd (post @ [0])) d (rg_addr ?rg + k) ?s"
    using f(2,3) dk D(6) by (simp add: free_walk.simps [of ptr d] is_target_def Let_def)
  from free_walk_list [of ?s ?rg "[]" d post "[]" e qs "rg_addr ?rg + k" "heap_base s" ptr]
  obtain b m' ds es where walk: "free_walk ptr (hd (post @ [0])) d (rg_addr ?rg + k) ?s
        = Some (b, ?s\<lparr>ram := m'\<rparr>)" "heap_ok m' ?rg ds es"
      and fr: "same_outside (table ?rg) ?m m'"
      and es: "map abs_block es = a_free_after (unat ptr) (unat (rg_addr ?rg + k)) (abs_block e) (map abs_block qs)"
    using ok pos bound tot by (auto simp: ek abs_block_def)
  have af: "map abs_block es = a_free (heap_base s) (unat ptr) bs"
    unfolding es a_free_def f(1) by (simp add: pos ek abs_block_def)
  have heads: "rg_head (region s 1) = 0" "rg_head (region s 2) = 0" "rg_head (region s 3) = 0"
    using hs by (simp_all add: heap_state_def mem_region_0_def)
  let ?s' = "?s\<lparr>ram := m'\<rparr>"
  have "mem_free ptr s = Some ?s'"
    using walk(1) step free_regions_rest [of "[1, 2, 3]" ?s' ptr] heads
    by (cases b) (simp_all add: mem_free_def region_order_4 [OF hs])
  moreover have "heap_state ?s' (a_free (heap_base s) (unat ptr) bs)"
  proof -
    have "\<not> fst (abs_block e)" "heap_free s \<le> snd (abs_block e)"
      using e by (simp_all add: abs_block_def)
    then have "a_free (heap_base s) (unat ptr) bs \<noteq> []"
      "\<not> fst (hd (a_free (heap_base s) (unat ptr) bs))"
      "heap_free s \<le> snd (hd (a_free (heap_base s) (unat ptr) bs))"
      unfolding af [symmetric] es using a_free_after_hd [of "abs_block e"]
      by (blast intro: order_trans)+
    moreover have "\<exists>ds es. heap_ok m' ?rg ds es \<and> a_free (heap_base s) (unat ptr) bs = map abs_block es"
      using walk(2) af [symmetric] by blast
    ultimately show ?thesis using hs by (simp add: heap_state_def)
  qed
  moreover obtain e0 qs0 post0 where "heap_ok (ram s) ?rg ([] @ d # post0) ([] @ e0 # qs0)"
    using hs f(2) by (auto elim: heap_stateE)
  from mem_fix_block_frame [OF this no_blocks] have "same_outside (table ?rg) (ram s) m'"
    using fr by (rule same_outside_trans)
  ultimately show ?thesis by auto
qed

end
