(* ===== verification/Heap.thy ===== *)
theory Heap
  imports Alloc_Refine
begin

text \<open>
  The heap from its creation on: \<open>mem_init_master\<close> and \<open>mem_new_region\<close> establish the
  representation with one free block, and every sequence of \<open>mem_alloc\<close> and \<open>mem_free\<close>
  keeps it.  The properties of the allocator are stated over the blocks in use.
\<close>

subsection \<open>Creation\<close>

lemma mark_not_present_at:
  "mark_not_present n b m q
     = (if \<exists>i<n. q = b + 12 * of_nat i + 8 then BLOCK_NOT_PRESENT else m q)"
proof (induction n arbitrary: b m)
  case (Suc n)
  have "(\<exists>i<Suc n. q = b + 12 * of_nat i + 8) \<longleftrightarrow> q = b + 8 \<or> (\<exists>i<n. q = b + 12 + 12 * of_nat i + 8)"
    unfolding less_Suc_eq_0_disj by (auto simp: algebra_simps)
  moreover have "(if P then x else if Q then x else y) = (if Q \<or> P then x else y)" for P Q and x y :: u8
    by auto
  ultimately show ?case by (simp only: mark_not_present.simps Suc set_type_def fun_upd_apply)
qed simp

lemma mark_not_present_slots:
  assumes "region_wf rg" "d \<in> slots rg"
  shows "blk_type (mark_not_present (unat (rg_max_blocks rg)) (rg_blocks rg) m) d = BLOCK_NOT_PRESENT"
  using assms by (auto simp: blk_type_def mark_not_present_at slots_eq)

text \<open>The bytes the blocks of a new region share.\<close>

definition region_bytes :: "u32 \<Rightarrow> nat" where
  "region_bytes n = unat n - 12 * unat (max_blocks_for n)"

lemma new_region_ok:
  fixes addr n :: u32
  defines "rg \<equiv> \<lparr>rg_addr = addr, rg_free_size = n - sizeof_mem_block * max_blocks_for n, rg_size = n,
    rg_head = addr, rg_max_blocks = max_blocks_for n, rg_blocks = addr\<rparr>"
  assumes "addr \<noteq> 0" "12 * unat (max_blocks_for n) \<le> unat n" "unat addr + unat n < 2 ^ 32"
  shows "heap_ok (set_size addr (rg_free_size rg) (set_type addr BLOCK_FREE (set_next addr 0
      (mark_not_present (unat (max_blocks_for n)) addr m)))) rg [addr] [(BLOCK_FREE, rg_free_size rg)]"
    (is "heap_ok ?m _ _ _")
    and "unat (rg_free_size rg) = region_bytes n"
proof -
  have wf: "region_wf rg" using assms(2-4) by (simp add: region_wf_def rg_def)
  have pos: "0 < unat (max_blocks_for n)"
    by (simp add: max_blocks_for_def Let_def word_less_nat_alt unat_gt_0) (auto simp: word_less_nat_alt)
  have a: "addr \<in> slots rg"
    using pos unfolding slots_eq [OF wf] by (intro image_eqI [of _ _ 0]) (simp_all add: rg_def)
  have np: "blk_type (mark_not_present (unat (max_blocks_for n)) addr m) d = BLOCK_NOT_PRESENT"
    if "d \<in> slots rg" for d
    using mark_not_present_slots [OF wf that] by (simp add: rg_def)
  show "unat (rg_free_size rg) = region_bytes n"
  proof -
    have "unat (12 * max_blocks_for n) = 12 * unat (max_blocks_for n)"
      using le_less_trans [OF assms(3) unat_u32_less] by (simp add: unat_word_ariths)
    moreover from this have "12 * max_blocks_for n \<le> n" using assms(3) by (simp add: word_le_nat_alt)
    ultimately show ?thesis by (simp add: rg_def region_bytes_def unat_sub_no_wrap)
  qed
  have f: "blk_next ?m addr = 0" "blk_type ?m addr = BLOCK_FREE" "blk_size ?m addr = rg_free_size rg"
    using a by (simp_all add: field_simps_slots)
  have o: "blk_type ?m d = BLOCK_NOT_PRESENT" if "d \<in> slots rg" "d \<noteq> addr" for d
    using that a np by (simp add: field_simps_slots)
  show "heap_ok ?m rg [addr] [(BLOCK_FREE, rg_free_size rg)]"
    using wf f o a assms(2) unat_u32_less [of "rg_free_size rg"]
    by (simp add: heap_ok_def descriptors.linked_def slots_def abs_block_def) (simp add: rg_def)
qed

lemma region_init: "region (snd (mem_init_master s)) i = (if i < 4 then mem_region_0 else region s i)"
  by (simp add: mem_init_master_def region_def)

lemma mem_new_region_state:
  assumes "addr \<noteq> 0" "12 * unat (max_blocks_for n) \<le> unat n" "unat addr + unat n < 2 ^ 32" "term_ok s"
    and vga: "span addr (12 * unat (max_blocks_for n)) \<inter> vga_window = {}"
  defines "s' \<equiv> snd (mem_new_region addr n (snd (mem_init_master s)))"
  shows "heap_state s' [(False, region_bytes n)]" "heap_base s' = unat addr"
    "heap_free s' = region_bytes n" "heap_table s' = unat (max_blocks_for n)"
    "rg_blocks (region s' 0) = addr" "region_wf (region s' 0)"
proof -
  let ?s = "snd (mem_init_master s)"
  let ?rg = "\<lparr>rg_addr = addr, rg_free_size = n - sizeof_mem_block * max_blocks_for n, rg_size = n,
    rg_head = addr, rg_max_blocks = max_blocks_for n, rg_blocks = addr\<rparr>"
  let ?m = "set_size addr (rg_free_size ?rg) (set_type addr BLOCK_FREE (set_next addr 0
      (mark_not_present (unat (max_blocks_for n)) addr (ram ?s))))"
  have "region_order ?s = [0, 1, 2, 3]" by (simp add: region_order_def mem_init_master_def upt_rec)
  moreover have "rg_addr (ms_regions (heap_master ?s) 0) = 0"
    by (simp add: mem_init_master_def mem_region_0_def)
  ultimately have s': "s' = set_region 0 ?rg (?s\<lparr>ram := ?m\<rparr>)"
    unfolding s'_def by (simp add: mem_new_region_def Let_def)
  note ok = new_region_ok(1) [OF assms(1-3), of "ram ?s"] new_region_ok(2) [OF assms(1-3)]
  have r: "region s' 0 = ?rg" "ram s' = ?m" by (simp_all add: s')
  then show base: "heap_base s' = unat addr" "heap_table s' = unat (max_blocks_for n)"
    "rg_blocks (region s' 0) = addr" by simp_all
  show free: "heap_free s' = region_bytes n" using ok(2) r(1) by simp
  show wf: "region_wf (region s' 0)" using ok(1) r(1) by (simp add: heap_ok_def)
  have "span d 12 \<inter> vga_window = {}" if "d \<in> slots ?rg" for d
  proof -
    from that wf r obtain i where i: "i < unat (max_blocks_for n)" "d = addr + of_nat (12 * i)"
      by (auto simp: slots_eq)
    have "span d 12 \<subseteq> span addr (12 * i + 12)" unfolding i(2) by (rule span_shift)
    also have "\<dots> \<subseteq> span addr (12 * unat (max_blocks_for n))" using i(1) by (intro span_mono) simp
    finally show ?thesis using vga by auto
  qed
  moreover have "\<exists>ds es. heap_ok ?m ?rg ds es \<and> [(False, region_bytes n)] = map abs_block es"
    using ok by (intro exI [of _ "[addr]"] exI [of _ "[(BLOCK_FREE, rg_free_size ?rg)]"])
      (simp add: abs_block_def)
  moreover have "region_bytes n \<le> unat n" by (simp add: region_bytes_def)
  moreover have "ms_max_regions (heap_master s') = DEFAULT_MAX_REGIONS" "term_ok s'"
    using assms(4) by (simp_all add: s' mem_init_master_def term_ok_def set_region_def)
  moreover have "region s' 1 = mem_region_0" "region s' 2 = mem_region_0" "region s' 3 = mem_region_0"
    by (simp_all add: s' region_init)
  ultimately show "heap_state s' [(False, region_bytes n)]"
    using assms(1,3) r free base by (simp add: heap_state_def)
qed

lemma mem_new_region_rest:
  "io_in (snd (mem_new_region a n s)) = io_in s" "term_row (snd (mem_new_region a n s)) = term_row s"
  "term_col (snd (mem_new_region a n s)) = term_col s" "last_saved_ch (snd (mem_new_region a n s)) = last_saved_ch s"
  "kb_shift (snd (mem_new_region a n s)) = kb_shift s" "is_press (snd (mem_new_region a n s)) = is_press s"
  "io_log (snd (mem_new_region a n s)) = io_log s"
  by (simp_all add: mem_new_region_def set_region_def Let_def split: option.splits)

text \<open>A new region writes its descriptors only.\<close>

lemma mark_not_present_frame: "same_outside (span b (12 * n)) m (mark_not_present n b m)"
proof -
  have "b + 12 * of_nat i + 8 \<in> span b (12 * n)" if "i < n" for i
    using that in_spanI [of "12 * i + 8" "12 * n" b] by (simp add: add.assoc)
  then show ?thesis unfolding same_outside_def mark_not_present_at by (metis (full_types))
qed

lemma mem_new_region_frame:
  "same_outside (span addr (12 * unat (max_blocks_for n))) (ram s) (ram (snd (mem_new_region addr n s)))"
proof -
  let ?k = "unat (max_blocks_for n)"
  have "8192 \<le> ?k" by (auto simp: max_blocks_for_def Let_def word_less_nat_alt)
  then have "span addr 12 \<subseteq> span addr (12 * ?k)" by (intro span_mono) simp
  moreover have "span addr 4 \<subseteq> span addr 12" "span (addr + 4) 4 \<subseteq> span addr 12" "addr + 8 \<in> span addr 12"
    using span_mono [of 4 12 addr] span_shift [of addr 4 8] span_mono [of 4 8 "addr + 4"] in_spanI [of 8 12 addr] by auto
  ultimately have a: "span addr 4 \<subseteq> span addr (12 * ?k)" "span (addr + 4) 4 \<subseteq> span addr (12 * ?k)" "addr + 8 \<in> span addr (12 * ?k)"
    by auto
  have "same_outside (span addr (12 * ?k)) m (set_size addr f (set_type addr t (set_next addr v m)))" for f t v m
    unfolding same_outside_def
  proof (intro allI impI)
    fix q assume "q \<notin> span addr (12 * ?k)"
    then have "q \<notin> span addr 4" "q \<notin> span (addr + 4) 4" "q \<noteq> addr + 8" using a by auto
    then show "set_size addr f (set_type addr t (set_next addr v m)) q = m q"
      by (simp add: set_next_def set_size_def set_type_def st32_other)
  qed
  from same_outside_trans [OF mark_not_present_frame this]
  show ?thesis by (simp add: mem_new_region_def set_region_def Let_def split: option.split)
qed

subsection \<open>Sessions\<close>

lemma heap_state_D:
  assumes "heap_state s bs"
  shows "bs \<noteq> []" "\<not> fst (hd bs)" "heap_free s \<le> snd (hd bs)" "length (a_fix bs) \<le> heap_table s"
proof -
  show "bs \<noteq> []" "\<not> fst (hd bs)" "heap_free s \<le> snd (hd bs)" using assms by (auto simp: heap_state_def)
  from assms obtain ds es where "heap_ok (ram s) (region s 0) ds es" "bs = map abs_block es"
    by (auto simp: heap_state_def)
  with heap_ok_length have "length bs \<le> heap_table s" by fastforce
  with length_a_fix [of bs] show "length (a_fix bs) \<le> heap_table s" by linarith
qed

text \<open>Where the bookkeeping of the heap and the messages of the kernel are.\<close>

abbreviation kernel_bytes :: "machine \<Rightarrow> u32 set" where
  "kernel_bytes s \<equiv> table (region s 0) \<union> vga_window"

text \<open>The three outcomes of an allocation.\<close>

lemma mem_alloc_outcome:
  assumes hs: "heap_state s bs"
  obtains (taken) p s' where "mem_alloc n s = Some (p, s')" "unat n \<le> heap_free s"
      "heap_state s' (a_alloc (unat n) bs)" "unat p = heap_base s + snd (hd (a_fix bs)) - unat n"
      "region s' 0 = (region s 0)\<lparr>rg_free_size := rg_free_size (region s 0) - n\<rparr>"
      "same_outside (kernel_bytes s) (ram s) (ram s')"
    | (refused) s' bs' where "mem_alloc n s = Some (0, s')" "heap_state s' bs'"
      "region s' 0 = region s 0" "total_size bs' = total_size bs"
      "live (heap_base s) bs' = live (heap_base s) bs" "same_outside (kernel_bytes s) (ram s) (ram s')"
proof (cases "unat n \<le> heap_free s")
  case False
  then show thesis using mem_alloc_refused [OF hs] refused [of s bs] hs by simp
next
  case True
  show thesis
  proof (cases "length (a_fix bs) = heap_table s")
    case True
    from mem_alloc_no_descriptor [OF hs \<open>unat n \<le> heap_free s\<close> True] show thesis
      using refused [of _ "a_fix bs"] by auto
  next
    case False
    then have "length (a_fix bs) < heap_table s" using heap_state_D(4) [OF hs] by simp
    from mem_alloc_taken [OF hs True this] show thesis
      using taken True by (auto intro: same_outside_mono)
  qed
qed

inductive heap_step :: "machine \<Rightarrow> machine \<Rightarrow> bool" where
  step_alloc: "mem_alloc n s = Some (p, s') \<Longrightarrow> heap_step s s'"
| step_free: "mem_free p s = Some s' \<Longrightarrow> heap_step s s'"

inductive_cases heap_stepE: "heap_step s s'"

lemma table_free_size [simp]: "table (rg\<lparr>rg_free_size := f\<rparr>) = table rg"
  by (simp add: table_def)

lemma heap_step_state:
  assumes "heap_step s s'" "heap_state s bs"
  shows "\<exists>bs'. heap_state s' bs' \<and> total_size bs' = total_size bs \<and> heap_base s' = heap_base s
    \<and> kernel_bytes s' = kernel_bytes s \<and> same_outside (kernel_bytes s) (ram s) (ram s')"
  using assms(1)
proof (rule heap_stepE)
  fix n p assume a: "mem_alloc n s = Some (p, s')"
  from assms(2) show ?thesis
  proof (cases rule: mem_alloc_outcome [of s bs n])
    case (taken q t)
    have "unat n \<le> snd (hd bs)" using taken(2) heap_state_D(3) [OF assms(2)] by simp
    then have "total_size (a_alloc (unat n) bs) = total_size bs"
      using heap_state_D(1) [OF assms(2)] by (intro total_a_alloc)
    with a taken show ?thesis by auto
  next
    case (refused t bs')
    with a show ?thesis by auto
  qed
next
  fix p assume "mem_free p s = Some s'"
  with mem_free_frees [OF assms(2), of p] show ?thesis
    by (auto intro!: exI [of _ "a_free (heap_base s) (unat p) bs"] intro: same_outside_mono)
qed

subsection \<open>The budget\<close>

text \<open>A sequence of calls, with the bytes it was granted in all.\<close>

datatype heap_op = Alloc u32 | Release u32

fun heap_run :: "heap_op list \<Rightarrow> machine \<Rightarrow> (nat \<times> machine) option" where
  "heap_run [] s = Some (0, s)"
| "heap_run (Alloc n # ops) s = do {
     (p, s1) \<leftarrow> mem_alloc n s;
     (granted, s2) \<leftarrow> heap_run ops s1;
     Some (if p = 0 then granted else unat n + granted, s2) }"
| "heap_run (Release p # ops) s = do {
     s1 \<leftarrow> mem_free p s;
     heap_run ops s1 }"

lemma heap_run_budget:
  "heap_state s bs \<Longrightarrow> \<exists>granted s' bs'. heap_run ops s = Some (granted, s') \<and> heap_state s' bs'
     \<and> granted + heap_free s' = heap_free s"
proof (induction ops arbitrary: s bs)
  case (Cons op ops)
  show ?case
  proof (cases op)
    case (Alloc n)
    from Cons.prems show ?thesis
    proof (cases rule: mem_alloc_outcome [of s bs n])
      case (taken p s1)
      have free: "heap_free s1 = heap_free s - unat n"
        using taken(2,5) by (simp add: unat_sub_no_wrap word_le_nat_alt)
      have "0 < heap_base s" using Cons.prems by (simp add: heap_state_def unat_gt_0)
      moreover have "unat n \<le> snd (hd (a_fix bs))"
        using taken(2) heap_state_D(1,3) [OF Cons.prems] a_fix_head [of bs] by auto
      ultimately have "p \<noteq> 0" using taken(4) by (intro notI) simp
      moreover obtain granted s2 bs2 where "heap_run ops s1 = Some (granted, s2)" "heap_state s2 bs2"
        "granted + heap_free s2 = heap_free s1" using Cons.IH [OF taken(3)] by blast
      ultimately show ?thesis using Alloc taken(1,2) free by auto
    next
      case (refused s1 bs1)
      obtain granted s2 bs2 where "heap_run ops s1 = Some (granted, s2)" "heap_state s2 bs2"
        "granted + heap_free s2 = heap_free s1" using Cons.IH [OF refused(2)] by blast
      then show ?thesis using Alloc refused(1,3) by auto
    qed
  next
    case (Release p)
    from mem_free_frees [OF Cons.prems, of p] obtain s1 where
      s1: "mem_free p s = Some s1" "heap_state s1 (a_free (heap_base s) (unat p) bs)"
      "region s1 0 = region s 0" by auto
    obtain granted s2 bs2 where "heap_run ops s1 = Some (granted, s2)" "heap_state s2 bs2"
      "granted + heap_free s2 = heap_free s1" using Cons.IH [OF s1(2)] by blast
    then show ?thesis using Release s1 by auto
  qed
qed auto

subsection \<open>The heap of the kernel\<close>

text \<open>The heap as \<open>main\<close> creates it.\<close>

definition kernel_heap :: "mem \<Rightarrow> machine" where
  "kernel_heap m = snd (mem_new_region 0x10000 (65536 * 128) (snd (mem_init_master (initial_machine m []))))"

lemma kernel_region: "max_blocks_for 8388608 = 8192" "region_bytes 8388608 = 8290304"
  by (simp_all add: max_blocks_for_def region_bytes_def Let_def)

lemma region_table:
  assumes "region_wf rg" shows "table rg \<subseteq> span (rg_blocks rg) (12 * unat (rg_max_blocks rg))"
proof -
  have "span d 12 \<subseteq> span (rg_blocks rg) (12 * unat (rg_max_blocks rg))" if "d \<in> slots rg" for d
  proof -
    from that obtain i where i: "i < unat (rg_max_blocks rg)" "d = rg_blocks rg + of_nat (12 * i)"
      by (auto simp: slots_eq [OF assms])
    have "span d 12 \<subseteq> span (rg_blocks rg) (12 * i + 12)" unfolding i(2) by (rule span_shift)
    also have "\<dots> \<subseteq> span (rg_blocks rg) (12 * unat (rg_max_blocks rg))" using i(1) by (intro span_mono) simp
    finally show ?thesis .
  qed
  then show ?thesis by (auto simp: table_def)
qed

lemma kernel_region_state:
  assumes "term_ok s"
  defines "s' \<equiv> snd (mem_new_region 0x10000 (65536 * 128) (snd (mem_init_master s)))"
  shows "heap_state s' [(False, 8290304)]" "heap_base s' = 0x10000"
    "heap_free s' = 8290304" "heap_table s' = 8192" "table (region s' 0) \<subseteq> span 0x10000 98304"
proof -
  have "span (0x10000 :: u32) 98304 \<inter> vga_window = {}"
  proof -
    have "q \<notin> vga_window" if "q \<in> span (0x10000 :: u32) 98304" for q
    proof -
      from that have "unat (q - 0x10000) < 98304" by (simp add: in_span_iff)
      moreover have "q - vga_base = (q - 0x10000) + 0xFFF58000" by simp
      moreover have "unat (q - 0x10000) + unat (0xFFF58000 :: u32) < 2 ^ 32" using calculation(1) by simp
      ultimately have "unat (q - vga_base) = unat (q - 0x10000) + 0xFFF58000"
        by (simp only: unat_add_no_wrap) simp
      then show ?thesis by (simp add: in_span_iff)
    qed
    then show ?thesis by blast
  qed
  then have vga: "span (0x10000 :: u32) (12 * unat (max_blocks_for (65536 * 128))) \<inter> vga_window = {}"
    by (simp add: kernel_region)
  have c: "(0x10000 :: u32) \<noteq> 0" "12 * unat (max_blocks_for (65536 * 128)) \<le> unat (65536 * 128 :: u32)"
    "unat (0x10000 :: u32) + unat (65536 * 128 :: u32) < 2 ^ 32"
    by (simp_all add: kernel_region)
  note k = mem_new_region_state [OF c assms(1) vga]
  show "heap_state s' [(False, 8290304)]" "heap_base s' = 0x10000"
    "heap_free s' = 8290304" "heap_table s' = 8192" "table (region s' 0) \<subseteq> span 0x10000 98304"
    unfolding s'_def using k region_table [OF k(6)] by (simp_all add: kernel_region)
qed

lemma kernel_heap_state:
  "heap_state (kernel_heap m) [(False, 8290304)]" "heap_base (kernel_heap m) = 0x10000"
  "heap_free (kernel_heap m) = 8290304" "heap_table (kernel_heap m) = 8192"
  unfolding kernel_heap_def by (rule kernel_region_state [OF initial_machine_ok])+

lemma heap_state_frame:
  assumes "heap_state s bs" "heap_master s' = heap_master s" "term_ok s'"
    and "same_outside vga_window (ram s) (ram s')"
  shows "heap_state s' bs"
proof -
  have r: "region s' i = region s i" for i using assms(2) by (simp add: region_def)
  from assms(1) obtain ds es where ok: "heap_ok (ram s) (region s 0) ds es" "bs = map abs_block es"
    by (auto simp: heap_state_def)
  have "\<forall>d \<in> slots (region s 0). span d 12 \<inter> vga_window = {}"
    using assms(1) by (simp add: heap_state_def)
  from heap_ok_frame [OF ok(1) assms(4) this] ok(2) assms(1-3) r show ?thesis
    by (auto simp: heap_state_def)
qed

lemma kernel_heap_blocks: "rg_blocks (region (kernel_heap m) 0) = 0x10000"
proof -
  have "region_order (snd (mem_init_master s)) = [0, 1, 2, 3]" for s
    by (simp add: region_order_def mem_init_master_def upt_rec)
  moreover have "rg_addr (ms_regions (heap_master (snd (mem_init_master s))) 0) = 0" for s
    by (simp add: mem_init_master_def mem_region_0_def)
  ultimately show ?thesis by (simp add: kernel_heap_def mem_new_region_def Let_def)
qed

text \<open>Memory outside the descriptor table is the program's.\<close>

lemma slot_in_table: "d \<in> slots rg \<Longrightarrow> span d 12 \<subseteq> table rg"
  by (auto simp: table_def)

lemma heap_state_write:
  assumes "heap_state s bs" "same_outside A (ram s) m'" "table (region s 0) \<inter> A = {}"
  shows "heap_state (s\<lparr>ram := m'\<rparr>) bs"
proof -
  from assms(1) obtain ds es where ok: "heap_ok (ram s) (region s 0) ds es" "bs = map abs_block es"
    by (auto simp: heap_state_def)
  have "\<forall>d \<in> slots (region s 0). span d 12 \<inter> A = {}" using assms(3) slot_in_table by blast
  from heap_ok_frame [OF ok(1) assms(2) this] ok(2) assms(1) show ?thesis
    by (auto simp: heap_state_def)
qed

lemma kernel_table: "table (region (kernel_heap m) 0) \<subseteq> span 0x10000 98304"
  unfolding kernel_heap_def by (rule kernel_region_state [OF initial_machine_ok])

subsection \<open>The free memory\<close>

definition free_size_of :: "ablock list \<Rightarrow> nat" where
  "free_size_of bs = sum_list (map (\<lambda>(u, k). if u then 0 else k) bs)"

lemma total_walk_sum:
  "chain (blk_next m) 0 b ds \<Longrightarrow> total_walk b acc m
     = Some (acc + sum_list (map (\<lambda>d. if blk_type m d = BLOCK_FREE then blk_size m d else 0) ds))"
  by (induction ds arbitrary: b acc) (auto simp: total_walk.simps [of b m for b m] total_walk.simps add.assoc)

lemma mem_total_free_sum:
  assumes "heap_state s bs"
  shows "mem_total_free s = Some (of_nat (free_size_of bs))"
proof -
  from assms obtain ds es where ok: "heap_ok (ram s) (region s 0) ds es" "bs = map abs_block es"
    by (auto simp: heap_state_def)
  note parts = heap_ok_parts [OF ok(1)]
  have f: "of_nat (free_size_of (map abs_block (map (\<lambda>d. (blk_type m d, blk_size m d)) xs)))
      = sum_list (map (\<lambda>d. if blk_type m d = BLOCK_FREE then blk_size m d else 0) xs)"
    if "\<forall>d \<in> set xs. blk_type m d = BLOCK_FREE \<or> blk_type m d = BLOCK_USED" for m xs
    using that by (induction xs) (auto simp: free_size_of_def abs_block_def)
  have "\<forall>d \<in> set ds. blk_type (ram s) d = BLOCK_FREE \<or> blk_type (ram s) d = BLOCK_USED"
    using parts(6) by simp
  from f [OF this] have "of_nat (free_size_of bs)
      = sum_list (map (\<lambda>d. if blk_type (ram s) d = BLOCK_FREE then blk_size (ram s) d else 0) ds)"
    by (simp add: ok(2)) (simp add: parts(3))
  then show ?thesis using total_walk_sum [OF parts(1), of 0] assms
    by (simp add: mem_total_free_def region_order_4 [OF assms])
      (simp add: heap_state_def mem_region_0_def)
qed

subsection \<open>Properties\<close>

text \<open>C1: An allocation that the region's \<open>free_size\<close> and its descriptor table allow returns the
  address of a new block: the blocks in use are the old ones and the new one, in address
  order and without overlap, and nothing outside the descriptor table has been written.\<close>

theorem mem_alloc_gives_fresh_block:
  assumes "heap_state s bs" "unat n \<le> heap_free s" "length (a_fix bs) < heap_table s"
  shows "\<exists>p s'. mem_alloc n s = Some (p, s') \<and> heap_state s' (a_alloc (unat n) bs)
    \<and> live (heap_base s) (a_alloc (unat n) bs) = (unat p, unat n) # live (heap_base s) bs
    \<and> sorted_wrt apart ((unat p, unat n) # live (heap_base s) bs)
    \<and> same_outside (table (region s 0)) (ram s) (ram s')"
proof -
  note D = heap_state_D [OF assms(1)]
  have "unat n \<le> snd (hd bs)" using assms(2) D(3) by simp
  from live_a_alloc [OF D(1,2) this, of "heap_base s"] mem_alloc_taken [OF assms]
    live_apart [of "heap_base s" "a_alloc (unat n) bs"]
  show ?thesis by auto
qed

theorem mem_alloc_gives_fresh_block_witness:
  "\<exists>p s'. mem_alloc 100 (kernel_heap (\<lambda>_. 0)) = Some (p, s')
    \<and> heap_state s' (a_alloc (unat (100 :: u32)) [(False, 8290304)])
    \<and> live (heap_base (kernel_heap (\<lambda>_. 0))) (a_alloc (unat (100 :: u32)) [(False, 8290304)])
        = (unat p, unat (100 :: u32)) # live (heap_base (kernel_heap (\<lambda>_. 0))) [(False, 8290304)]
    \<and> sorted_wrt apart ((unat p, unat (100 :: u32))
        # live (heap_base (kernel_heap (\<lambda>_. 0))) [(False, 8290304)])
    \<and> same_outside (table (region (kernel_heap (\<lambda>_. 0)) 0)) (ram (kernel_heap (\<lambda>_. 0))) (ram s')"
  by (rule mem_alloc_gives_fresh_block) (simp_all add: kernel_heap_state)

text \<open>C5: \<open>mem_free\<close> returns for every pointer; it releases the first block in use that starts at
  the pointer or above it, so exactly the pointer's own block when there is one, and writes
  nothing outside the descriptor table.\<close>

theorem mem_free_releases_block:
  assumes "heap_state s bs"
  shows "\<exists>s' bs'. mem_free ptr s = Some s' \<and> heap_state s' bs'
    \<and> live (heap_base s) bs' = remove_first (\<lambda>(q, k). unat ptr \<le> q) (live (heap_base s) bs)
    \<and> total_size bs' = total_size bs
    \<and> same_outside (table (region s 0)) (ram s) (ram s')"
  using mem_free_frees [OF assms, of ptr] heap_state_D [OF assms]
  by (fastforce simp: live_a_free)

theorem mem_free_releases_block_witness:
  "\<exists>s' bs'. mem_free 0x20000 (kernel_heap (\<lambda>_. 0)) = Some s' \<and> heap_state s' bs'
    \<and> live (heap_base (kernel_heap (\<lambda>_. 0))) bs' = remove_first (\<lambda>(q, k). unat (0x20000 :: u32) \<le> q)
        (live (heap_base (kernel_heap (\<lambda>_. 0))) [(False, 8290304)])
    \<and> total_size bs' = total_size [(False, 8290304 :: nat)]
    \<and> same_outside (table (region (kernel_heap (\<lambda>_. 0)) 0)) (ram (kernel_heap (\<lambda>_. 0))) (ram s')"
  by (rule mem_free_releases_block) (rule kernel_heap_state)

text \<open>C6: Whatever sequence of allocations and releases runs on the heap that \<open>main\<close> creates, its
  blocks tile the same 8290304 bytes from \<open>0x10000\<close> on, and all memory outside the descriptor
  table and the VGA window keeps its contents.\<close>

theorem heap_session_invariant:
  assumes "heap_step\<^sup>*\<^sup>* (kernel_heap m) s"
  shows "\<exists>bs. heap_state s bs \<and> total_size bs = 8290304 \<and> heap_base s = 0x10000
    \<and> same_outside (kernel_bytes (kernel_heap m)) (ram (kernel_heap m)) (ram s)"
proof -
  have "\<exists>bs. heap_state s bs \<and> total_size bs = 8290304 \<and> heap_base s = 0x10000
    \<and> kernel_bytes s = kernel_bytes (kernel_heap m)
    \<and> same_outside (kernel_bytes (kernel_heap m)) (ram (kernel_heap m)) (ram s)"
    using assms
  proof (induction rule: rtranclp_induct)
    case base
    show ?case using kernel_heap_state [of m] by (intro exI [of _ "[(False, 8290304)]"]) simp
  next
    case (step s s')
    then obtain bs where bs: "heap_state s bs" "total_size bs = 8290304" "heap_base s = 0x10000"
      "kernel_bytes s = kernel_bytes (kernel_heap m)"
      "same_outside (kernel_bytes (kernel_heap m)) (ram (kernel_heap m)) (ram s)" by blast
    from heap_step_state [OF step.hyps(2) bs(1)] obtain bs' where
      bs': "heap_state s' bs'" "total_size bs' = total_size bs" "heap_base s' = heap_base s"
      "kernel_bytes s' = kernel_bytes s" "same_outside (kernel_bytes s) (ram s) (ram s')" by blast
    have "same_outside (kernel_bytes (kernel_heap m)) (ram (kernel_heap m)) (ram s')"
      using bs(5) bs'(5) unfolding bs(4) by (rule same_outside_trans)
    with bs bs' show ?case by (intro exI [of _ bs']) simp
  qed
  then show ?thesis by blast
qed

theorem heap_session_invariant_witness:
  "\<exists>s bs. mem_alloc 64 (kernel_heap (\<lambda>_. 0)) = Some (0x7F7FC0, s) \<and> heap_state s bs
    \<and> total_size bs = 8290304"
proof -
  let ?s = "kernel_heap (\<lambda>_. 0)"
  obtain p s where a: "mem_alloc 64 ?s = Some (p, s)"
    "unat p = heap_base ?s + snd (hd (a_fix [(False, 8290304)])) - unat (64 :: u32)"
    using mem_alloc_taken [OF kernel_heap_state(1) [of "\<lambda>_. 0"], of 64] kernel_heap_state [of "\<lambda>_. 0"]
    by auto
  from a(2) have "unat p = unat (0x7F7FC0 :: u32)" by (simp add: kernel_heap_state)
  then have "p = 0x7F7FC0" by (simp only: word_unat_eq_iff)
  moreover have "heap_step\<^sup>*\<^sup>* ?s s" using a(1) by (intro r_into_rtranclp step_alloc)
  ultimately show ?thesis using a(1) heap_session_invariant [of "\<lambda>_. 0" s] by blast
qed

text \<open>C25: Released memory is not given out again: whatever is released in between, the bytes a
  sequence of calls is granted and the \<open>free_size\<close> that is left add up to the \<open>free_size\<close> it
  started with; every call returns.\<close>

theorem heap_budget_is_final:
  assumes "heap_state s bs"
  shows "\<exists>granted s' bs'. heap_run ops s = Some (granted, s') \<and> heap_state s' bs'
     \<and> granted + heap_free s' = heap_free s"
  using assms by (rule heap_run_budget)

theorem heap_budget_is_final_witness:
  "\<exists>granted s' bs'. heap_run [Alloc 8000000, Release 0, Alloc 8000000] (kernel_heap (\<lambda>_. 0))
      = Some (granted, s') \<and> heap_state s' bs' \<and> granted + heap_free s' = heap_free (kernel_heap (\<lambda>_. 0))"
  by (rule heap_budget_is_final) (rule kernel_heap_state)

lemma remove_first_below:
  assumes "\<forall>x \<in> set xs. fst x < (p :: nat)" "p \<le> q"
  shows "remove_first (\<lambda>(q, _). p \<le> q) (xs @ (q, w) # ys) = xs @ ys"
  using assms by (induction xs) auto

text \<open>C34: Releasing any block a second time releases its neighbour: when the blocks in use are \<open>low\<close>
  below the pointer, then the block \<open>p\<close> itself and a next one at \<open>q\<close>, two calls of \<open>mem_free\<close> with \<open>p\<close>
  both return, and leave \<open>low\<close> and what is behind \<open>q\<close>.\<close>

theorem double_free_releases_neighbour:
  assumes "heap_state s bs" "live (heap_base s) bs = low @ (unat p, k) # (q, j) # rest" "\<forall>x \<in> set low. fst x < unat p"
  shows "\<exists>s1 s2 bs2. mem_free p s = Some s1 \<and> mem_free p s1 = Some s2 \<and> heap_state s2 bs2
    \<and> live (heap_base s) bs2 = low @ rest"
proof -
  have le: "unat p \<le> q"
    using live_apart [of "heap_base s" bs] assms(2) by (simp add: apart_def sorted_wrt_append)
  note D = heap_state_D [OF assms(1)]
  obtain s1 where s1: "mem_free p s = Some s1" "heap_state s1 (a_free (heap_base s) (unat p) bs)"
    "region s1 0 = region s 0" using mem_free_frees [OF assms(1), of p] by blast
  have l1: "live (heap_base s) (a_free (heap_base s) (unat p) bs) = low @ (q, j) # rest"
    using live_a_free [OF D(1,2)] assms(2) remove_first_below [OF assms(3) le_refl] by simp
  note D1 = heap_state_D [OF s1(2)]
  obtain s2 where s2: "mem_free p s1 = Some s2"
    "heap_state s2 (a_free (heap_base s1) (unat p) (a_free (heap_base s) (unat p) bs))"
    using mem_free_frees [OF s1(2), of p] by blast
  have "live (heap_base s) (a_free (heap_base s1) (unat p) (a_free (heap_base s) (unat p) bs)) = low @ rest"
    using live_a_free [OF D1(1,2), of "heap_base s"] l1 remove_first_below [OF assms(3) le] s1(3) by simp
  with s1(1) s2 show ?thesis by blast
qed

theorem double_free_releases_neighbour_witness:
  "\<exists>s s1 s2 bs2. mem_free 0x7F7FA0 s = Some s1 \<and> mem_free 0x7F7FA0 s1 = Some s2
    \<and> heap_state s2 bs2 \<and> live (heap_base s) bs2 = [(0x7F7F90, 16)]"
proof -
  let ?s = "kernel_heap (\<lambda>_. 0)"
  note k = kernel_heap_state [of "\<lambda>_. 0"]
  obtain p s where s: "heap_state s (a_alloc (unat (32 :: u32)) [(False, 8290304)])"
    "region s 0 = (region ?s 0)\<lparr>rg_free_size := rg_free_size (region ?s 0) - 32\<rparr>"
    using mem_alloc_taken [OF k(1), of 32] k by auto
  have "(32 :: u32) \<le> rg_free_size (region ?s 0)" using k(3) by (simp add: word_le_nat_alt)
  then have f: "heap_free s = 8290272" "heap_table s = 8192" "heap_base s = 0x10000"
    using s(2) k by (simp_all add: unat_sub_no_wrap)
  from s(1) have st: "heap_state s [(False, 8290272), (True, 32)]" by (simp add: a_alloc_def)
  obtain q t where t: "heap_state t (a_alloc (unat (64 :: u32)) [(False, 8290272), (True, 32)])"
    "region t 0 = (region s 0)\<lparr>rg_free_size := rg_free_size (region s 0) - 64\<rparr>"
    using mem_alloc_taken [OF st, of 64] f by auto
  have "(64 :: u32) \<le> rg_free_size (region s 0)" using f(1) by (simp add: word_le_nat_alt)
  then have g: "heap_free t = 8290208" "heap_table t = 8192" "heap_base t = 0x10000"
    using t(2) f by (simp_all add: unat_sub_no_wrap)
  from t(1) have tt: "heap_state t [(False, 8290208), (True, 64), (True, 32)]" by (simp add: a_alloc_def)
  obtain v where v: "heap_state v (a_alloc (unat (16 :: u32)) [(False, 8290208), (True, 64), (True, 32)])"
    "region v 0 = (region t 0)\<lparr>rg_free_size := rg_free_size (region t 0) - 16\<rparr>"
    using mem_alloc_taken [OF tt, of 16] g by auto
  from v(1) have vv: "heap_state v [(False, 8290192), (True, 16), (True, 64), (True, 32)]" by (simp add: a_alloc_def)
  have "live (heap_base v) [(False, 8290192), (True, 16), (True, 64), (True, 32)]
      = [(0x7F7F90, 16)] @ (unat (0x7F7FA0 :: u32), 64) # (0x7F7FE0, 32) # []"
    using v(2) g(3) by simp
  from double_free_releases_neighbour [OF vv this] show ?thesis by auto
qed

text \<open>C35: The blocks of the kernel's heap start at the address of its descriptor table, and the heap
  covers the VGA window: one allocation returns the address of the table, another one the
  address of the screen.\<close>

theorem kernel_heap_overlaps:
  "\<exists>s1 s2. mem_alloc 0x7E8000 (kernel_heap m) = Some (rg_blocks (region (kernel_heap m) 0), s1)
    \<and> mem_alloc 0x740000 (kernel_heap m) = Some (vga_base, s2)"
proof -
  note k = kernel_heap_state [of m]
  obtain p s where p: "mem_alloc 0x7E8000 (kernel_heap m) = Some (p, s)"
    "unat p = heap_base (kernel_heap m) + snd (hd (a_fix [(False, 8290304)])) - unat (0x7E8000 :: u32)"
    using mem_alloc_taken [OF k(1), of "0x7E8000"] k by auto
  obtain q t where q: "mem_alloc 0x740000 (kernel_heap m) = Some (q, t)"
    "unat q = heap_base (kernel_heap m) + snd (hd (a_fix [(False, 8290304)])) - unat (0x740000 :: u32)"
    using mem_alloc_taken [OF k(1), of "0x740000"] k by auto
  have "unat p = unat (0x10000 :: u32)" using p(2) k by simp
  then have "p = 0x10000" by (simp only: word_unat_eq_iff)
  moreover have "unat q = unat (0xB8000 :: u32)" using q(2) k by simp
  then have "q = 0xB8000" by (simp only: word_unat_eq_iff)
  ultimately show ?thesis using p(1) q(1) by (simp add: kernel_heap_blocks)
qed

text \<open>\<open>mem_total_free\<close> returns the sum of the sizes of the free blocks.\<close>

theorem mem_total_free_counts:
  assumes "heap_state s bs"
  shows "mem_total_free s = Some (of_nat (free_size_of bs))"
  using assms by (rule mem_total_free_sum)

theorem mem_total_free_counts_witness: "mem_total_free (kernel_heap (\<lambda>_. 0)) = Some 8290304"
  using mem_total_free_counts [OF kernel_heap_state(1)]
  by (simp add: free_size_of_def)

text \<open>\<open>mem_realloc\<close> on a heap without used blocks (of the null pointer, say) takes a block from
  the heap and returns the null pointer all the same.\<close>

theorem realloc_drops_new_block:
  assumes "heap_state s [(False, k)]" "unat n \<le> heap_free s" "1 < heap_table s"
  shows "\<exists>s'. mem_realloc ptr n s = Some (0, s') \<and> heap_free s' = heap_free s - unat n
    \<and> heap_state s' [(False, k - unat n), (True, unat n)]"
proof -
  obtain d post e qs where
    ok: "heap_ok (mem_fix_block d (ram s)) (region s 0) ([] @ d # post) ([] @ e # qs)"
    and f: "a_fix [(False, k)] = map abs_block (e # qs)" "rg_head (region s 0) = d" "d \<noteq> 0"
    and e: "fst e = BLOCK_FREE" "heap_free s \<le> unat (snd e)"
    using assms(1) by (rule heap_state_fix)
  note D = heap_okD [OF ok no_blocks]
  have qs: "qs = []" using f(1) by simp
  then have post: "post = []" using D(8) by simp
  have ty: "blk_type (mem_fix_block d (ram s)) d = BLOCK_FREE" using D(5) e(1) by simp
  have walk: "realloc_walk 0 ptr n d 0 (rg_addr (region s 0)) s = Some (None, fix_block d s)"
    using f(3) ty D(6) post
    by (simp add: realloc_walk.simps [of 0 ptr n d] realloc_walk.simps [of 0 ptr n 0] is_target_def Let_def)
  have hs: "heap_state (fix_block d s) [(False, k)]"
  proof -
    have "\<exists>ds es. heap_ok (mem_fix_block d (ram s)) (region s 0) ds es \<and> [(False, k)] = map abs_block es"
      using ok f(1) by (intro exI [of _ "[] @ d # post"] exI [of _ "[] @ e # qs"]) simp
    then show ?thesis using assms(1) by (simp add: heap_state_def)
  qed
  have addr: "rg_addr (region s 0) \<noteq> 0" "\<not> rg_free_size (region s 0) < n"
    "rg_addr (region s 1) = 0" "rg_addr (region s 2) = 0" "rg_addr (region s 3) = 0"
    using assms(1,2) by (simp_all add: heap_state_def word_less_nat_alt mem_region_0_def)
  from mem_alloc_taken [OF hs, of n] assms(2,3) obtain p s' where
    s': "mem_alloc n (fix_block d s) = Some (p, s')" "heap_state s' (a_alloc (unat n) [(False, k)])"
    "region s' 0 = (region s 0)\<lparr>rg_free_size := rg_free_size (region s 0) - n\<rparr>" by auto
  have "mem_realloc ptr n s = Some (0, s')"
    using walk addr f(2) s'(1) by (simp add: mem_realloc_def region_order_4 [OF assms(1)] Let_def)
  moreover have "heap_free s' = heap_free s - unat n"
    using s'(3) assms(2) by (simp add: unat_sub_no_wrap word_le_nat_alt)
  ultimately show ?thesis using s'(2) by (simp add: a_alloc_def)
qed

theorem realloc_drops_new_block_witness:
  "\<exists>s'. mem_realloc 0 100 (kernel_heap (\<lambda>_. 0)) = Some (0, s')
    \<and> heap_free s' = heap_free (kernel_heap (\<lambda>_. 0)) - unat (100 :: u32)
    \<and> heap_state s' [(False, 8290304 - unat (100 :: u32)), (True, unat (100 :: u32))]"
  by (rule realloc_drops_new_block) (simp_all add: kernel_heap_state)

end
