(* ===== verification/Keyboard.thy ===== *)
theory Keyboard
  imports Console_Spec
begin

text \<open>
  The keyboard of \<open>libc/lib.c\<close>: polling the PS/2 controller, the scan-code table and
  \<open>getch\<close>.  The bytes the controller delivers are the input script of the machine; a zero
  byte is polled over, and a script that ends is a keyboard nobody uses any more: \<open>None\<close>,
  as is an index outside the array \<open>is_press\<close> of 256 entries.
\<close>

subsection \<open>Keys (ncurses.h)\<close>

definition KEY_SCROLLOCK :: u8 where "KEY_SCROLLOCK = 0xEE"
definition KEY_NUMLOCK :: u8 where "KEY_NUMLOCK = 0xEF"
definition KEY_Fn :: "u8 \<Rightarrow> u8" where "KEY_Fn n = 0xEF + n"
definition KEY_CTRL_LEFT :: u8 where "KEY_CTRL_LEFT = 0xFC"
definition KEY_SHIFT_LEFT :: u8 where "KEY_SHIFT_LEFT = 0xFD"
definition KEY_SHIFT_RIGHT :: u8 where "KEY_SHIFT_RIGHT = 0xFE"
definition KEY_ALT_LEFT :: u8 where "KEY_ALT_LEFT = 0xFF"
definition KEY_CAPSLOCK :: u8 where "KEY_CAPSLOCK = 0x3A"
definition KEY_ENTER :: u32 where "KEY_ENTER = 10"
definition KEY_UP :: u32 where "KEY_UP = 0xC9"
definition KEY_DOWN :: u32 where "KEY_DOWN = 0xCA"
definition KEY_RIGHT :: u32 where "KEY_RIGHT = 0xCC"
definition KEY_IC :: u32 where "KEY_IC = 0xCD"
definition KEY_DC :: u32 where "KEY_DC = 0xCE"
definition KEY_LEFT :: u32 where "KEY_LEFT = 0xCF"

definition KEY_KEYPAD :: "u8 \<Rightarrow> u8" where
  "KEY_KEYPAD x = 0x80 OR (if chr CHR ''0'' \<le> x \<and> x \<le> chr CHR ''9'' then x - chr CHR ''0'' else x - 0x20)"

text \<open>The table of scan codes, an array of \<open>char\<close>.\<close>

definition ps2_set1 :: "u8 list" where
  "ps2_set1 = [0, 0x1B] @ bytes ''1234567890-='' @ [8, 9]
     @ bytes ''QWERTYUIOP[]'' @ [10, KEY_CTRL_LEFT]
     @ bytes ''ASDFGHJKL;'' @ [39, 96, KEY_SHIFT_LEFT, 92]
     @ bytes ''ZXCVBNM,./'' @ [KEY_SHIFT_RIGHT, KEY_KEYPAD (chr CHR ''*''), KEY_ALT_LEFT, 32, KEY_CAPSLOCK]
     @ [KEY_Fn 1, KEY_Fn 2, KEY_Fn 3, KEY_Fn 4, KEY_Fn 5, KEY_Fn 6, KEY_Fn 7, KEY_Fn 8, KEY_Fn 9, KEY_Fn 10]
     @ [KEY_NUMLOCK, KEY_SCROLLOCK, KEY_KEYPAD (chr CHR ''7''), ucast KEY_UP, KEY_KEYPAD (chr CHR ''9''),
        KEY_KEYPAD (chr CHR ''-''), ucast KEY_LEFT, KEY_KEYPAD (chr CHR ''5''), ucast KEY_RIGHT,
        KEY_KEYPAD (chr CHR ''+''), KEY_KEYPAD (chr CHR ''1''), ucast KEY_DOWN, KEY_KEYPAD (chr CHR ''3''),
        KEY_KEYPAD (chr CHR ''0''), KEY_KEYPAD (chr CHR ''.''), 0, 0, 0, KEY_Fn 11, KEY_Fn 12]"

subsection \<open>Reading the controller\<close>

text \<open>\<open>while (!_ch8) inb\<close>\<close>

partial_function (option) ps2_poll :: "machine \<Rightarrow> (u8 \<times> machine) option" where
  "ps2_poll s = (case port_in (Inb 0x60) s of None \<Rightarrow> None
     | Some (v, s1) \<Rightarrow> if (ucast v :: u8) \<noteq> 0 then Some (ucast v, s1) else ps2_poll s1)"

definition get_ps2_input :: "machine \<Rightarrow> (u8 \<times> machine) option" where
  "get_ps2_input s = ps2_poll (log_io (replicate 4096 (Outb 0 0x80)) s)"

subsection \<open>getch\<close>

text \<open>The entry of the table for a scan code, as the \<open>unsigned int\<close> that the code indexes with.\<close>

definition scan_key :: "u32 \<Rightarrow> u32" where
  "scan_key ch0 = char_to_int (ps2_set1 ! unat ((ch0 AND NOT 0x80) mod of_nat (length ps2_set1)))"

text \<open>
  What a key does that is not an extended one: a result, or back to the loop.  An index outside
  \<open>is_press\<close>, which has 256 entries, has none.  The code's
  \<open>is_press\<close> holds whether the last event of the key was its release.
\<close>

definition key_event :: "u32 \<Rightarrow> machine \<Rightarrow> (u32 option \<times> machine) option" where
  "key_event ch0 s =
     (let released = (ch0 AND 0x80 \<noteq> 0);
          ch = scan_key ch0
      in if 256 \<le> ch then None
         else if released \<noteq> is_press s ch then
           let s1 = s\<lparr>is_press := (is_press s)(ch := released)\<rparr>
           in if released then
                if ch = char_to_int KEY_SHIFT_LEFT \<or> ch = char_to_int KEY_SHIFT_RIGHT
                   \<or> ch = char_to_int KEY_CAPSLOCK
                then Some (None, s1\<lparr>kb_shift := \<not> kb_shift s1\<rparr>)
                else if ch = 10 \<or> ch = 13 then Some (Some KEY_ENTER, s1)
                else if kb_shift s1 then Some (Some (tolower ch), s1)
                else Some (Some ch, s1)
              else Some (None, s1)
         else Some (None, s))"

partial_function (option) getch_loop :: "machine \<Rightarrow> (u32 \<times> machine) option" where
  "getch_loop s = (case get_ps2_input s of None \<Rightarrow> None
     | Some (c, s1) \<Rightarrow>
       if 0xE0 \<le> (ucast c :: u32) then
         if (ucast c :: u32) = 0xE0 then
           (case get_ps2_input s1 of None \<Rightarrow> None
            | Some (c2, s2) \<Rightarrow>
              if c2 = 0x53 then Some (KEY_DC, s2)
              else if c2 = 0x52 then Some (KEY_IC, s2) else getch_loop s2)
         else getch_loop s1
       else (case key_event (ucast c) s1 of None \<Rightarrow> None
         | Some (Some k, s2) \<Rightarrow> Some (k, s2)
         | Some (None, s2) \<Rightarrow> getch_loop s2))"

definition getch :: "machine \<Rightarrow> (u32 \<times> machine) option" where
  "getch s =
     (let pos = ucast (term_row s * COLS + term_col s) :: u16;
          s1 = outb 0x3D4 0x0F s;
          s2 = outb 0x3D5 (ucast (pos AND 0xFF)) s1;
          s3 = outb 0x3D4 0x0E s2;
          s4 = outb 0x3D5 (ucast (drop_bit 8 pos AND 0xFF)) s3
      in if last_saved_ch s4 \<noteq> 0
         then Some (char_to_int (last_saved_ch s4), s4\<lparr>last_saved_ch := 0\<rparr>)
         else getch_loop s4)"

definition ungetch :: "u32 \<Rightarrow> machine \<Rightarrow> machine" where
  "ungetch ch s = s\<lparr>last_saved_ch := ucast ch\<rparr>"

definition flushinp :: "machine \<Rightarrow> (u32 \<times> machine) option" where
  "flushinp s = map_option (\<lambda>(v, s'). (0, s')) (inb 0x60 s)"

subsection \<open>Scan codes\<close>

lemma unat_nz: "unat (x :: u32) \<noteq> 0 \<Longrightarrow> x \<noteq> 0"
  by auto

lemma length_ps2_set1 [simp]: "length ps2_set1 = 89"
  by (simp add: ps2_set1_def)

lemma get_ps2_input_next:
  "io_in s = v # vs \<Longrightarrow> (ucast v :: u8) \<noteq> 0 \<Longrightarrow> get_ps2_input s
     = Some (ucast v, s\<lparr>io_in := vs, io_log := io_log s @ replicate 4096 (Outb 0 0x80) @ [Inb 0x60]\<rparr>)"
  by (simp add: get_ps2_input_def ps2_poll.simps port_in_def log_io_def)

text \<open>The codes below \<open>0x60\<close>: as bytes, and their release codes.\<close>

lemma scan_code_bits:
  "i < 96 \<Longrightarrow> (ucast (ucast (of_nat i :: u32) :: u8) :: u32) = of_nat i
     \<and> (ucast (ucast (of_nat i + 0x80 :: u32) :: u8) :: u32) = of_nat i + 0x80
     \<and> (of_nat i :: u32) AND 0x80 = 0 \<and> (of_nat i + 0x80 :: u32) AND 0x80 \<noteq> 0
     \<and> (of_nat i + 0x80 :: u32) AND NOT 0x80 = of_nat i \<and> (of_nat i :: u32) AND NOT 0x80 = of_nat i
     \<and> (of_nat i :: u32) < 0xE0 \<and> (of_nat i + 0x80 :: u32) < 0xE0
     \<and> (of_nat i :: u32) mod 89 = of_nat (i mod 89) \<and> unat (of_nat (i mod 89) :: u32) = i mod 89"
proof -
  have "\<forall>i \<in> set [0..<96]. (ucast (ucast (of_nat i :: u32) :: u8) :: u32) = of_nat i
     \<and> (ucast (ucast (of_nat i + 0x80 :: u32) :: u8) :: u32) = of_nat i + 0x80
     \<and> (of_nat i :: u32) AND 0x80 = 0 \<and> (of_nat i + 0x80 :: u32) AND 0x80 \<noteq> 0
     \<and> (of_nat i + 0x80 :: u32) AND NOT 0x80 = of_nat i \<and> (of_nat i :: u32) AND NOT 0x80 = of_nat i
     \<and> (of_nat i :: u32) < 0xE0 \<and> (of_nat i + 0x80 :: u32) < 0xE0
     \<and> (of_nat i :: u32) mod 89 = of_nat (i mod 89) \<and> unat (of_nat (i mod 89) :: u32) = i mod 89"
    by (simp add: upt_rec)
  then show "i < 96 \<Longrightarrow> ?thesis" by (metis atLeastLessThan_iff le0 set_upt)
qed

lemma scan_code_nonzero:
  "0 < i \<Longrightarrow> i < 96 \<Longrightarrow> (ucast (of_nat i :: u32) :: u8) \<noteq> 0 \<and> (ucast (of_nat i + 0x80 :: u32) :: u8) \<noteq> 0"
proof -
  have "\<forall>i \<in> set [1..<96]. (ucast (of_nat i :: u32) :: u8) \<noteq> 0 \<and> (ucast (of_nat i + 0x80 :: u32) :: u8) \<noteq> 0"
    by (simp add: upt_rec)
  then show "0 < i \<Longrightarrow> i < 96 \<Longrightarrow> ?thesis" by simp
qed

text \<open>A turn of the loop of \<open>getch\<close>, by what the keyboard delivers.\<close>

lemma getch_loop_step:
  assumes "get_ps2_input s = Some (b, s1)" "(ucast b :: u32) = c" "c < 0xE0"
  shows "getch_loop s = (case key_event c s1 of None \<Rightarrow> None
    | Some (Some k, s2) \<Rightarrow> Some (k, s2) | Some (None, s2) \<Rightarrow> getch_loop s2)"
proof -
  have "\<not> 0xE0 \<le> c" using assms(3) by auto
  then show ?thesis using assms(1,2) by (subst getch_loop.simps) simp
qed

text \<open>A key of the table that \<open>is_press\<close> can hold.\<close>

definition key_of :: "nat \<Rightarrow> u32" where
  "key_of i = char_to_int (ps2_set1 ! (i mod 89))"

lemma key_index:
  assumes "i < 96"
  shows "ps2_set1 ! unat ((of_nat i AND NOT 0x80 :: u32) mod of_nat (length ps2_set1)) = ps2_set1 ! (i mod 89)"
    "ps2_set1 ! unat ((of_nat i + 0x80 AND NOT 0x80 :: u32) mod of_nat (length ps2_set1)) = ps2_set1 ! (i mod 89)"
proof -
  have "(of_nat i AND NOT 0x80 :: u32) = of_nat i" "(of_nat i + 0x80 AND NOT 0x80 :: u32) = of_nat i"
    using scan_code_bits [OF assms] by blast+
  then show "ps2_set1 ! unat ((of_nat i AND NOT 0x80 :: u32) mod of_nat (length ps2_set1)) = ps2_set1 ! (i mod 89)"
    "ps2_set1 ! unat ((of_nat i + 0x80 AND NOT 0x80 :: u32) mod of_nat (length ps2_set1)) = ps2_set1 ! (i mod 89)"
    using scan_code_bits [OF assms] by (simp_all only: length_ps2_set1 of_nat_numeral)
qed

lemma key_event_press:
  assumes "i < 96" "key_of i < 256" "\<not> is_press s (key_of i)"
  shows "key_event (of_nat i) s = Some (None, s)"
proof -
  have "(of_nat i :: u32) AND 0x80 = 0" using scan_code_bits [OF assms(1)] by blast
  with assms(2,3) show ?thesis
    unfolding key_event_def Let_def scan_key_def key_index(1) [OF assms(1)] key_of_def by (simp add: not_le)
qed

lemma key_event_release:
  assumes "i < 96" "key_of i < 256" "\<not> is_press s (key_of i)" "key_of i \<notin> {10, 13, 0x3A}"
  shows "key_event (of_nat i + 0x80) s
    = Some (Some (if kb_shift s then tolower (key_of i) else key_of i),
            s\<lparr>is_press := (is_press s)(key_of i := True)\<rparr>)"
proof -
  have "(of_nat i + 0x80 :: u32) AND 0x80 \<noteq> 0" using scan_code_bits [OF assms(1)] by blast
  moreover have "char_to_int KEY_SHIFT_LEFT = 0xFFFFFFFD" "char_to_int KEY_SHIFT_RIGHT = 0xFFFFFFFE"
    "char_to_int KEY_CAPSLOCK = 0x3A"
    by (simp_all add: char_to_int_def KEY_SHIFT_LEFT_def KEY_SHIFT_RIGHT_def KEY_CAPSLOCK_def)
  moreover have "key_of i \<noteq> 0xFFFFFFFD" "key_of i \<noteq> 0xFFFFFFFE" using assms(2) by auto
  ultimately show ?thesis
    using assms(2-4)
    unfolding key_event_def Let_def scan_key_def key_index(2) [OF assms(1)] key_of_def by (simp add: not_le)
qed

lemma key_event_special:
  assumes "i < 96" "256 \<le> key_of i"
  shows "key_event (of_nat i) s = None"
  using assms(2) unfolding key_event_def Let_def scan_key_def key_index(1) [OF assms(1)] key_of_def by simp

text \<open>Events that produce no character: the press of a key, which clears its entry.\<close>

lemma key_event_down:
  assumes "i < 96" "key_of i < 256"
  shows "\<exists>s'. key_event (of_nat i) s = Some (None, s') \<and> io_in s' = io_in s \<and> kb_shift s' = kb_shift s
    \<and> ram s' = ram s \<and> is_press s' = (is_press s)(key_of i := False)"
proof (cases "is_press s (key_of i)")
  case True
  have "(of_nat i :: u32) AND 0x80 = 0" using scan_code_bits [OF assms(1)] by blast
  with assms(2) True show ?thesis
    unfolding key_event_def Let_def scan_key_def key_index(1) [OF assms(1)] key_of_def by (simp add: not_le)
next
  case False
  then have "(is_press s)(key_of i := False) = is_press s" by (intro fun_upd_idem) simp
  with key_event_press [OF assms False] show ?thesis by auto
qed

text \<open>The controller's zeros are polled over.\<close>

lemma ps2_poll_skip:
  "\<forall>z \<in> set zs. (ucast z :: u8) = 0 \<Longrightarrow> (ucast v :: u8) \<noteq> 0 \<Longrightarrow> io_in s = zs @ v # vs
     \<Longrightarrow> \<exists>s'. ps2_poll s = Some (ucast v, s') \<and> io_in s' = vs \<and> is_press s' = is_press s
       \<and> kb_shift s' = kb_shift s \<and> ram s' = ram s"
proof (induction zs arbitrary: s)
  case Nil
  then show ?case by (simp add: ps2_poll.simps port_in_def)
next
  case (Cons z zs)
  then have "ps2_poll s = ps2_poll (s\<lparr>io_in := zs @ v # vs, io_log := io_log s @ [Inb 0x60]\<rparr>)"
    by (subst ps2_poll.simps) (simp add: port_in_def)
  with Cons.IH [of "s\<lparr>io_in := zs @ v # vs, io_log := io_log s @ [Inb 0x60]\<rparr>"] Cons.prems
  show ?case by simp
qed

lemma get_ps2_input_skip:
  assumes "\<forall>z \<in> set zs. (ucast z :: u8) = 0" "(ucast v :: u8) \<noteq> 0" "io_in s = zs @ v # vs"
  obtains s' where "get_ps2_input s = Some (ucast v, s')" "io_in s' = vs" "is_press s' = is_press s"
    "kb_shift s' = kb_shift s" "ram s' = ram s"
  using ps2_poll_skip [OF assms(1,2), of "log_io (replicate 4096 (Outb 0 0x80)) s" vs] assms(3)
  by (auto simp: get_ps2_input_def log_io_def)

text \<open>Bytes that make \<open>getch\<close> wait on: zeros, codes above \<open>0xE0\<close>, and the press of an ordinary key.\<close>

definition quiet :: "u32 \<Rightarrow> bool" where
  "quiet v \<longleftrightarrow> (let b = ucast v :: u8 in b = 0 \<or> 0xE0 < b \<or> b < 0x60 \<and> key_of (unat b) < 256)"

lemma unat_byte: "unat (ucast (b :: u8) :: u32) = unat b"
proof -
  have "unat b < 2 ^ 32" using unsigned_less [of b, where ?'a = nat] by simp
  then show ?thesis by (simp add: unsigned_ucast_eq take_bit_nat_eq_self)
qed

lemma getch_loop_quiet:
  assumes "quiet v" "(ucast v :: u8) \<noteq> 0" "get_ps2_input s = Some (ucast v, s1)"
  shows "\<exists>s2. getch_loop s = getch_loop s2 \<and> io_in s2 = io_in s1 \<and> kb_shift s2 = kb_shift s1
    \<and> ram s2 = ram s1
    \<and> is_press s2 = (if (ucast v :: u8) < 0x60 then (is_press s1)(key_of (unat (ucast v :: u8)) := False) else is_press s1)"
proof -
  let ?b = "ucast v :: u8"
  have c: "unat (ucast ?b :: u32) = unat ?b" by (rule unat_byte)
  from assms(1,2) consider "0xE0 < ?b" | "?b < 0x60" "key_of (unat ?b) < 256"
    by (auto simp: quiet_def Let_def)
  then show ?thesis
  proof cases
    case 1
    then have "0xE0 \<le> (ucast ?b :: u32)" "(ucast ?b :: u32) \<noteq> 0xE0" "\<not> ?b < 0x60"
      using c by (auto simp: word_le_nat_alt word_less_nat_alt)
    then show ?thesis using assms(3) by (subst getch_loop.simps) auto
  next
    case 2
    then have i: "unat ?b < 96" by (simp add: word_less_nat_alt)
    have e: "(ucast ?b :: u32) = of_nat (unat ?b)" by (simp add: word_unat_eq_iff c)
    have "(ucast ?b :: u32) < 0xE0" using i by (simp add: word_less_nat_alt c)
    from key_event_down [OF i 2(2), of s1] obtain s2 where
      s2: "key_event (of_nat (unat ?b)) s1 = Some (None, s2)" "io_in s2 = io_in s1"
        "kb_shift s2 = kb_shift s1" "ram s2 = ram s1"
        "is_press s2 = (is_press s1)(key_of (unat ?b) := False)" by blast
    have "getch_loop s = getch_loop s2"
      using getch_loop_step [OF assms(3) refl \<open>(ucast ?b :: u32) < 0xE0\<close>] s2(1) unfolding e by simp
    with s2 2(1) show ?thesis by (intro exI [of _ s2]) simp
  qed
qed

lemma getch_empty_buffer:
  assumes "last_saved_ch s = 0"
  obtains s' where "getch s = getch_loop s'" "io_in s' = io_in s" "is_press s' = is_press s"
    "kb_shift s' = kb_shift s" "last_saved_ch s' = 0" "ram s' = ram s"
  using assms that by (simp add: getch_def outb_def)

text \<open>The release that ends the wait.\<close>

lemma getch_loop_release:
  assumes "0 < i" "i < 96" "key_of i < 256" "key_of i \<notin> {10, 13, 0x3A}" "\<not> is_press s (key_of i)"
    and "\<forall>z \<in> set zs. (ucast z :: u8) = 0" "io_in s = zs @ (of_nat i + 0x80) # rest"
  shows "\<exists>s'. getch_loop s = Some (if kb_shift s then tolower (key_of i) else key_of i, s')
    \<and> io_in s' = rest \<and> is_press s' (key_of i) \<and> ram s' = ram s"
proof -
  note B = scan_code_bits [OF assms(2)]
  have "(ucast (of_nat i + 0x80 :: u32) :: u8) \<noteq> 0" using scan_code_nonzero [OF assms(1,2)] by blast
  from get_ps2_input_skip [OF assms(6) this assms(7)] obtain s1 where
    s1: "get_ps2_input s = Some (ucast (of_nat i + 0x80 :: u32), s1)" "io_in s1 = rest"
      "is_press s1 = is_press s" "kb_shift s1 = kb_shift s" "ram s1 = ram s" by blast
  have r: "key_event (of_nat i + 0x80) s1 = Some (Some (if kb_shift s then tolower (key_of i) else key_of i),
      s1\<lparr>is_press := (is_press s1)(key_of i := True)\<rparr>)"
    using key_event_release [OF assms(2,3), of s1] assms(4,5) s1(3,4) by simp
  show ?thesis using getch_loop_step [OF s1(1), of "of_nat i + 0x80"] B r s1 by simp
qed

lemma quiet_prefix:
  assumes "\<exists>v \<in> set vs. (ucast v :: u8) \<noteq> 0"
  obtains zs v ws where "vs = zs @ v # ws" "\<forall>z \<in> set zs. (ucast z :: u8) = 0" "(ucast v :: u8) \<noteq> 0"
  using split_list_first_prop [OF assms] by auto

lemma getch_loop_waits:
  assumes "0 < i" "i < 96" "key_of i < 256" "key_of i \<notin> {10, 13, 0x3A}"
  shows "\<forall>v \<in> set vs. quiet v \<Longrightarrow> io_in s = vs @ (of_nat i + 0x80) # rest
    \<Longrightarrow> is_press s (key_of i) \<longrightarrow> (\<exists>v \<in> set vs. (ucast v :: u8) = of_nat i)
    \<Longrightarrow> \<exists>s'. getch_loop s = Some (if kb_shift s then tolower (key_of i) else key_of i, s')
      \<and> io_in s' = rest \<and> is_press s' (key_of i) \<and> ram s' = ram s"
proof (induction "length vs" arbitrary: vs s rule: less_induct)
  case less
  have ni: "unat (of_nat i :: u8) = i" "(of_nat i :: u8) < 0x60" "(of_nat i :: u8) \<noteq> 0"
    using assms(1,2) by (simp_all add: unat_of_nat word_less_nat_alt word_unat_eq_iff)
  show ?case
  proof (cases "\<exists>v \<in> set vs. (ucast v :: u8) \<noteq> 0")
    case False
    then have "\<not> is_press s (key_of i)" using less.prems(3) ni(3) by auto
    then show ?thesis using getch_loop_release [OF assms] False less.prems(2) by blast
  next
    case True
    then obtain zs v ws where vs: "vs = zs @ v # ws" "\<forall>z \<in> set zs. (ucast z :: u8) = 0" "(ucast v :: u8) \<noteq> 0"
      by (rule quiet_prefix)
    have "io_in s = zs @ v # (ws @ (of_nat i + 0x80) # rest)" using less.prems(2) vs(1) by simp
    from get_ps2_input_skip [OF vs(2,3) this] obtain s1 where
      s1: "get_ps2_input s = Some (ucast v, s1)" "io_in s1 = ws @ (of_nat i + 0x80) # rest"
        "is_press s1 = is_press s" "kb_shift s1 = kb_shift s" "ram s1 = ram s" by blast
    have "quiet v" using less.prems(1) vs(1) by simp
    from getch_loop_quiet [OF this vs(3) s1(1)] obtain s2 where
      s2: "getch_loop s = getch_loop s2" "io_in s2 = io_in s1" "kb_shift s2 = kb_shift s1" "ram s2 = ram s1"
        "is_press s2 = (if (ucast v :: u8) < 0x60
           then (is_press s1)(key_of (unat (ucast v :: u8)) := False) else is_press s1)" by blast
    have "\<exists>s'. getch_loop s2 = Some (if kb_shift s2 then tolower (key_of i) else key_of i, s')
      \<and> io_in s' = rest \<and> is_press s' (key_of i) \<and> ram s' = ram s2"
    proof (rule less.hyps)
      show "length ws < length vs" "\<forall>v \<in> set ws. quiet v" using vs(1) less.prems(1) by simp_all
      show "io_in s2 = ws @ (of_nat i + 0x80) # rest" using s1(2) s2(2) by simp
      show "is_press s2 (key_of i) \<longrightarrow> (\<exists>v \<in> set ws. (ucast v :: u8) = of_nat i)"
      proof
        assume p: "is_press s2 (key_of i)"
        then have "is_press s (key_of i)" using s2(5) s1(3) by (auto split: if_splits)
        then obtain u where u: "u \<in> set vs" "(ucast u :: u8) = of_nat i" using less.prems(3) by blast
        have "u \<noteq> v" using p s2(5) u(2) ni(1,2) by auto
        moreover have "u \<notin> set zs" using vs(2) u(2) ni(3) by auto
        ultimately show "\<exists>v \<in> set ws. (ucast v :: u8) = of_nat i" using u vs(1) by auto
      qed
    qed
    then show ?thesis using s1 s2 by simp
  qed
qed

subsection \<open>The table\<close>

lemma scan_table:
  "map char_to_int ps2_set1 = [0, 27, 49, 50, 51, 52, 53, 54, 55, 56, 57, 48, 45, 61, 8, 9, 81, 87, 69, 82, 84, 89, 85,
     73, 79, 80, 91, 93, 10, - 4, 65, 83, 68, 70, 71, 72, 74, 75, 76, 59, 39, 96, - 3, 92, 90, 88, 67, 86, 66, 78, 77,
     44, 46, 47, - 2, - 118, - 1, 32, 58, - 16, - 15, - 14, - 13, - 12, - 11, - 10, - 9, - 8, - 7, - 17, - 18,
     - 121, - 55, - 119, - 115, - 49, - 123, - 52, - 117, - 127, - 54, - 125, - 128, - 114, 0, 0, 0, - 6, - 5]"
  by (simp add: ps2_set1_def char_to_int_def KEY_CTRL_LEFT_def KEY_SHIFT_LEFT_def KEY_SHIFT_RIGHT_def KEY_ALT_LEFT_def
      KEY_CAPSLOCK_def KEY_Fn_def KEY_NUMLOCK_def KEY_SCROLLOCK_def KEY_KEYPAD_def KEY_UP_def KEY_LEFT_def
      KEY_RIGHT_def KEY_DOWN_def)

lemma scan_table_ranges:
  "\<forall>i < 89. (i \<in> {0x1D, 0x2A, 0x36, 0x37, 0x38} \<union> {0x3B..0x53} \<union> {0x57, 0x58}
      \<longleftrightarrow> 0xFFFFFF80 \<le> char_to_int (ps2_set1 ! i))
    \<and> (char_to_int (ps2_set1 ! i) < 256 \<longleftrightarrow> \<not> 0xFFFFFF80 \<le> char_to_int (ps2_set1 ! i))"
proof -
  let ?P = "\<lambda>i k. (i \<in> {0x1D, 0x2A, 0x36, 0x37, 0x38} \<union> {0x3B..0x53} \<union> {0x57, 0x58} \<longleftrightarrow> 0xFFFFFF80 \<le> (k :: u32))
    \<and> (k < 256 \<longleftrightarrow> \<not> 0xFFFFFF80 \<le> k)"
  have "list_all2 ?P [0..<89] (map char_to_int ps2_set1)"
    unfolding scan_table by (simp add: upt_rec)
  then have "?P i (char_to_int (ps2_set1 ! i))" if "i < 89" for i
    using that by (auto dest!: list_all2_nthD [where p = i])
  then show ?thesis by blast
qed

subsection \<open>Properties\<close>

text \<open>C10: With nothing put back by \<open>ungetch\<close>, \<open>getch\<close> returns at the release of an ordinary key (a scan
  code from 1 to 95 whose entry of the table is not a special key, an end of line or caps lock), when
  what the keyboard delivers before it are only zeros, codes above \<open>0xE0\<close> and presses of ordinary keys,
  and the key is not recorded as released or its press is among them.  The result is its entry of
  the table, in lower case when the shift state is set; the input is consumed up to there.\<close>

theorem getch_returns_on_release:
  assumes "last_saved_ch s = 0" "0 < i" "i < 96" "key_of i < 256" "key_of i \<notin> {10, 13, 0x3A}"
    and "io_in s = vs @ (of_nat i + 0x80) # rest" "\<forall>v \<in> set vs. quiet v"
    and "is_press s (key_of i) \<longrightarrow> (\<exists>v \<in> set vs. (ucast v :: u8) = of_nat i)"
  shows "\<exists>s'. getch s = Some (if kb_shift s then tolower (key_of i) else key_of i, s')
    \<and> io_in s' = rest \<and> is_press s' (key_of i) \<and> ram s' = ram s"
proof -
  obtain s0 where s0: "getch s = getch_loop s0" "io_in s0 = io_in s" "is_press s0 = is_press s"
    "kb_shift s0 = kb_shift s" "ram s0 = ram s" using getch_empty_buffer [OF assms(1)] .
  from getch_loop_waits [OF assms(2-5), of vs s0 rest] assms(6-8) s0 show ?thesis by simp
qed

theorem getch_returns_on_release_witness:
  "\<exists>s'. getch (initial_machine (\<lambda>_. 0) [0, 0xFA, 31, 0, 30, 30 + 0x80, 7]) = Some (65, s') \<and> io_in s' = [7]"
proof -
  have k: "key_of 30 = 65" "key_of 31 = 83" by (simp_all add: key_of_def ps2_set1_def char_to_int_def)
  have "\<forall>v \<in> set [0, 0xFA, 31, 0, 30]. quiet v" using k by (simp add: quiet_def)
  with getch_returns_on_release [of "initial_machine (\<lambda>_. 0) [0, 0xFA, 31, 0, 30, 30 + 0x80, 7]" 30
      "[0, 0xFA, 31, 0, 30]" "[7]"] k show ?thesis by auto
qed

text \<open>A key that is pressed and released, when nothing is buffered and the key's last event was
  not a release, is returned by \<open>getch\<close> at its release: its entry of the table, in lower case
  when the shift state is set; both events are consumed and no memory is written.\<close>

theorem getch_returns_key:
  assumes "last_saved_ch s = 0" "i < 96" "0 < i" "key_of i < 256" "key_of i \<notin> {10, 13, 0x3A}"
    and "\<not> is_press s (key_of i)" "io_in s = of_nat i # (of_nat i + 0x80) # rest"
  shows "\<exists>s'. getch s = Some (if kb_shift s then tolower (key_of i) else key_of i, s')
    \<and> io_in s' = rest \<and> is_press s' = (is_press s)(key_of i := True) \<and> ram s' = ram s"
proof -
  note B = scan_code_bits [OF assms(2)]
  obtain s0 where s0: "getch s = getch_loop s0" "io_in s0 = io_in s" "is_press s0 = is_press s"
    "kb_shift s0 = kb_shift s" "ram s0 = ram s" using getch_empty_buffer [OF assms(1)] .
  let ?l = "replicate 4096 (Outb 0 0x80) @ [Inb 0x60]"
  let ?s1 = "s0\<lparr>io_in := (of_nat i + 0x80) # rest, io_log := io_log s0 @ ?l\<rparr>"
  let ?s2 = "?s1\<lparr>io_in := rest, io_log := io_log ?s1 @ ?l\<rparr>"
  have nz: "(ucast (of_nat i :: u32) :: u8) \<noteq> 0" "(ucast (of_nat i + 0x80 :: u32) :: u8) \<noteq> 0"
    using scan_code_nonzero [OF assms(3,2)] by blast+
  have i1: "get_ps2_input s0 = Some (ucast (of_nat i :: u32), ?s1)"
    using s0(2) assms(7) nz(1) by (intro get_ps2_input_next) simp_all
  have i2: "get_ps2_input ?s1 = Some (ucast (of_nat i + 0x80 :: u32), ?s2)"
    using nz(2) by (intro get_ps2_input_next) simp_all
  have p: "key_event (of_nat i) ?s1 = Some (None, ?s1)"
    using assms(6) s0(3) by (intro key_event_press [OF assms(2,4)]) simp
  have r: "key_event (of_nat i + 0x80) ?s2 = Some (Some (if kb_shift s then tolower (key_of i) else key_of i),
      ?s2\<lparr>is_press := (is_press s)(key_of i := True)\<rparr>)"
    using key_event_release [OF assms(2,4), of ?s2] assms(5,6) s0(3,4) by simp
  have l1: "getch_loop s0 = getch_loop ?s1"
    using getch_loop_step [OF i1, of "of_nat i"] B p by simp
  have l2: "getch_loop ?s1 = Some (if kb_shift s then tolower (key_of i) else key_of i,
      ?s2\<lparr>is_press := (is_press s)(key_of i := True)\<rparr>)"
    using getch_loop_step [OF i2, of "of_nat i + 0x80"] B r by simp
  show ?thesis using s0 l1 l2 by simp
qed

theorem getch_returns_key_witness:
  "\<exists>s'. getch (initial_machine (\<lambda>_. 0) [30, 30 + 0x80]) = Some (65, s') \<and> io_in s' = []"
proof -
  have k: "key_of 30 = 65" by (simp add: key_of_def ps2_set1_def char_to_int_def)
  show ?thesis
    using getch_returns_key [of "initial_machine (\<lambda>_. 0) [30, 30 + 0x80]" 30 "[]"] k by auto
qed


text \<open>A character put back with \<open>ungetch\<close> is what \<open>getch\<close> returns next, sign-extended, without
  reading the keyboard.\<close>

theorem ungetch_getch_roundtrip:
  assumes "(ucast ch :: u8) \<noteq> 0"
  shows "\<exists>s'. getch (ungetch ch s) = Some (char_to_int (ucast ch), s') \<and> io_in s' = io_in s
    \<and> last_saved_ch s' = 0"
  using assms by (simp add: getch_def ungetch_def outb_def)

theorem ungetch_getch_roundtrip_witness:
  "\<exists>s'. getch (ungetch 65 (initial_machine (\<lambda>_. 0) [])) = Some (char_to_int (ucast (65 :: u32)), s')
    \<and> io_in s' = io_in (initial_machine (\<lambda>_. 0) []) \<and> last_saved_ch s' = 0"
  by (rule ungetch_getch_roundtrip) simp

end
