(* ===== verification/Kernel_Main.thy ===== *)
theory Kernel_Main
  imports Heap Keyboard
begin

text \<open>
  \<open>src/main.c\<close>: the entry point and the port I/O the COBOL programs call, with the parts of
  \<open>libc/lib.c\<close> that rest on the heap.  The COBOL runtime and the COBOL kernel are not C code
  of the repository: they are parameters, functions on the machine.
\<close>

subsection \<open>The entry point\<close>

definition MULTIBOOT2_BOOTLOADER_MAGIC :: u32 where
  "MULTIBOOT2_BOOTLOADER_MAGIC = 0x36d76289"

text \<open>What \<open>main\<close> does before it hands over to the COBOL side.\<close>

definition boot :: "'d fpu \<Rightarrow> machine \<Rightarrow> machine option" where
  "boot fp s = do {
     let s1 = snd (mem_init_master s);
     let s2 = snd (mem_new_region 0x10000 (65536 * 128) s1);
     (_, s3) \<leftarrow> initscr s2;
     (_, s4) \<leftarrow> printf fp (bytes ''Hello from C\<newline>'') [] s3;
     Some s4 }"

text \<open>\<open>main\<close> returns only when the boot loader's magic is wrong: it ends in \<open>while (1)\<close>.\<close>

definition kernel_main ::
    "'d fpu \<Rightarrow> (machine \<Rightarrow> machine option) \<Rightarrow> (machine \<Rightarrow> machine option)
      \<Rightarrow> (machine \<Rightarrow> machine option) \<Rightarrow> u32 \<Rightarrow> machine \<Rightarrow> machine option" where
  "kernel_main fp cob_init KERNEL cob_tidy magic s =
     (if magic \<noteq> MULTIBOOT2_BOOTLOADER_MAGIC then Some s
      else do {
        s1 \<leftarrow> boot fp s;
        s2 \<leftarrow> cob_init s1;
        s3 \<leftarrow> KERNEL s2;
        s4 \<leftarrow> cob_tidy s3;
        None })"

text \<open>\<open>main\<close> returns exactly when the magic number is not the boot loader's, and then without
  having done anything.\<close>

lemma kernel_main_returns_iff:
  "kernel_main fp cob_init KERNEL cob_tidy magic s = Some s'
     \<longleftrightarrow> magic \<noteq> MULTIBOOT2_BOOTLOADER_MAGIC \<and> s' = s"
  by (auto simp: kernel_main_def bind_eq_Some_conv split: if_splits)

subsection \<open>Port I/O\<close>

definition IO_OUT :: "u16 \<Rightarrow> u32 \<Rightarrow> u32 \<Rightarrow> machine \<Rightarrow> u32 \<times> machine" where
  "IO_OUT port data mode s =
     (0, if ram s mode = chr CHR ''C'' then log_io [Outb port (ucast data)] s
         else if ram s mode = chr CHR ''H'' then log_io [Outw port (ucast data)] s
         else if ram s mode = chr CHR ''S'' then log_io [Outl port data] s
         else s)"

text \<open>One read, stored into \<open>*d_data\<close>.\<close>

definition read_port :: "io_event \<Rightarrow> (u32 \<Rightarrow> u32) \<Rightarrow> u32 \<Rightarrow> machine \<Rightarrow> machine option" where
  "read_port e conv d s = map_option (\<lambda>(v, s'). s'\<lparr>ram := st32 (ram s') d (conv v)\<rparr>) (port_in e s)"

text \<open>The cases of \<open>IO_IN\<close> have no \<open>break\<close>: each one falls through to the next.\<close>

definition IO_IN :: "u16 \<Rightarrow> u32 \<Rightarrow> u32 \<Rightarrow> machine \<Rightarrow> (u32 \<times> machine) option" where
  "IO_IN port mode d_data s = do {
     let s0 = s\<lparr>ram := st32 (ram s) d_data 0\<rparr>;
     let mode0 = ram s0 mode;
     s1 \<leftarrow> (if mode0 = chr CHR ''C'' then read_port (Inb port) (\<lambda>v. ucast (ucast v :: u8)) d_data s0
            else Some s0);
     s2 \<leftarrow> (if mode0 \<in> {chr CHR ''C'', chr CHR ''H''}
            then read_port (Inw port) (\<lambda>v. ucast (ucast v :: u16)) d_data s1 else Some s1);
     s3 \<leftarrow> (if mode0 \<in> {chr CHR ''C'', chr CHR ''H'', chr CHR ''S''}
            then read_port (Inl port) (\<lambda>v. v) d_data s2 else Some s2);
     Some (0, s3) }"

subsection \<open>The machine after booting\<close>

text \<open>The port accesses of \<open>enable_cursor\<close>; the values are written to the serial port.\<close>

definition cursor_log :: "io_event list" where
  "cursor_log = [Outb 0x3F8 10, Inb 0x3D5, Outb 0x3F8 10, Outb 0x3F8 10, Inb 0x3D5, Outb 0x3F8 10]"

lemma initscr_state:
  assumes "io_in s = a # b # rest" "term_ok s"
  shows "\<exists>s'. initscr s = Some (1, s') \<and> io_in s' = rest \<and> heap_master s' = heap_master s \<and> term_ok s'
    \<and> last_saved_ch s' = last_saved_ch s \<and> kb_shift s' = kb_shift s \<and> is_press s' = is_press s
    \<and> io_log s' = io_log s @ cursor_log \<and> view s' = (view s)\<lparr>cells := replicate 2000 (blank 7), cattr := 7\<rparr>
    \<and> same_outside vga_window (ram s) (ram s')"
proof -
  let ?c = "clear (s\<lparr>term_color := 7\<rparr>)"
  have c: "vga_entry_color 7 0 = 7"
    by (simp add: vga_entry_color_def)
  have i: "io_in ?c = a # b # rest" "heap_master ?c = heap_master s" "term_ok ?c"
    using assms by (simp_all add: clear_def Let_def term_ok_def)
  have v: "view ?c = (view s)\<lparr>cells := replicate 2000 (blank 7), cattr := 7\<rparr>"
    unfolding clear_view by (simp add: view_def)
  have d: "last_saved_ch ?c = last_saved_ch s" "kb_shift ?c = kb_shift s" "is_press ?c = is_press s"
    "io_log ?c = io_log s" by (simp_all add: clear_def Let_def)
  have f: "same_outside vga_window (ram s) (ram ?c)"
    using clear_frame [of _ "s\<lparr>term_color := 7\<rparr>"] by (simp add: same_outside_def)
  from i v f d show ?thesis
    by (simp add: initscr_def c enable_cursor_def outb_def inb_def port_in_def term_ok_def view_def Let_def cursor_log_def)
qed

text \<open>The heap and the console do not meet while booting.\<close>

lemma boot_steps:
  fixes m a b rest
  defines "s0 \<equiv> initial_machine m (a # b # rest)"
  defines "s2 \<equiv> snd (mem_new_region 0x10000 (65536 * 128) (snd (mem_init_master s0)))"
  obtains s' where "boot fp s0 = Some s'" "io_in s' = rest" "heap_master s' = heap_master s2" "term_ok s'"
    "same_outside vga_window (ram s2) (ram s')" "last_saved_ch s' = 0" "\<not> kb_shift s'" "is_press s' = (\<lambda>_. False)"
    "io_log s' = cursor_log @ concat (map (serial_echo \<circ> char_to_int) (bytes ''Hello from C\<newline>''))"
    "view s' = fold char_put (bytes ''Hello from C\<newline>'')
       \<lparr>cells = replicate 2000 (blank 7), crow = 0, ccol = 0, cattr = 7\<rparr>"
proof -
  let ?t = "bytes ''Hello from C\<newline>''"
  note k = kernel_region_state [OF initial_machine_ok, of m "a # b # rest", folded s0_def s2_def]
  have m: "io_in s2 = a # b # rest" "term_ok s2" "term_row s2 = 0" "term_col s2 = 0"
    "last_saved_ch s2 = 0" "\<not> kb_shift s2" "is_press s2 = (\<lambda>_. False)" "io_log s2 = []"
    using mem_new_region_rest [of "0x10000" "65536 * 128" "snd (mem_init_master s0)"] k(1)
    unfolding s2_def by (simp_all add: mem_init_master_def heap_state_def s0_def)
  obtain s3 where s3: "initscr s2 = Some (1, s3)" "io_in s3 = rest" "heap_master s3 = heap_master s2"
    "term_ok s3" "last_saved_ch s3 = last_saved_ch s2" "kb_shift s3 = kb_shift s2" "is_press s3 = is_press s2"
    "io_log s3 = io_log s2 @ cursor_log" "view s3 = (view s2)\<lparr>cells := replicate 2000 (blank 7), cattr := 7\<rparr>"
    "same_outside vga_window (ram s2) (ram s3)"
    using initscr_state [OF m(1,2)] by blast
  have nc: "chr CHR ''%'' \<notin> set ?t" "0 \<notin> set ?t" "8 \<notin> set ?t" by simp_all
  let ?s4 = "fold putchar_c ?t s3"
  note f = print_frame [OF s3(4) nc(3)] and r = print_rest [of ?t s3]
  have b4: "boot fp s0 = Some ?s4"
    using s3(1) printf_literal [OF nc(1,2), of fp "[]" s3] by (simp add: boot_def Let_def s2_def)
  have d4: "heap_master ?s4 = heap_master s2" "term_ok ?s4" "io_in ?s4 = rest" "last_saved_ch ?s4 = 0" "\<not> kb_shift ?s4"
    "is_press ?s4 = (\<lambda>_. False)" using f(1,2) r s3(2,3,5,6,7) m(5-7) by (simp_all only:) simp_all
  have f4: "same_outside vga_window (ram s2) (ram ?s4)" using s3(10) f(3) by (rule same_outside_trans)
  have "view s3 = \<lparr>cells = replicate 2000 (blank 7), crow = 0, ccol = 0, cattr = 7\<rparr>"
    using s3(9) m(3,4) by (simp add: view_def)
  then have v4: "view ?s4 = fold char_put ?t \<lparr>cells = replicate 2000 (blank 7), crow = 0, ccol = 0, cattr = 7\<rparr>"
    using print_view [OF s3(4) nc(3)] by simp
  have l4: "io_log ?s4 = cursor_log @ concat (map (serial_echo \<circ> char_to_int) ?t)"
    using print_log [of ?t s3] s3(8) m(8) by (simp only: append_Nil)
  show thesis by (rule that [OF b4 d4(3,1,2) f4 d4(4-6) l4 v4])
qed

subsection \<open>Properties\<close>

text \<open>C11: Booting a machine that answers the two port reads of \<open>enable_cursor\<close> succeeds: the heap is
  one free block of 8290304 bytes at \<open>0x10000\<close>, and the screen is blank but for the greeting.\<close>

theorem boot_prepares_machine:
  "\<exists>s'. boot fp (initial_machine m (a # b # rest)) = Some s' \<and> io_in s' = rest
     \<and> heap_state s' [(False, 8290304)] \<and> heap_base s' = 0x10000 \<and> heap_free s' = 8290304
     \<and> view s' = fold char_put (bytes ''Hello from C\<newline>'')
         \<lparr>cells = replicate 2000 (blank 7), crow = 0, ccol = 0, cattr = 7\<rparr>"
proof -
  note k = kernel_region_state [OF initial_machine_ok, of m "a # b # rest"]
  obtain s' where s': "boot fp (initial_machine m (a # b # rest)) = Some s'" "io_in s' = rest"
    "heap_master s' = heap_master (snd (mem_new_region 0x10000 (65536 * 128) (snd (mem_init_master (initial_machine m (a # b # rest))))))"
    "term_ok s'"
    "same_outside vga_window (ram (snd (mem_new_region 0x10000 (65536 * 128) (snd (mem_init_master (initial_machine m (a # b # rest)))))))
       (ram s')"
    "view s' = fold char_put (bytes ''Hello from C\<newline>'')
       \<lparr>cells = replicate 2000 (blank 7), crow = 0, ccol = 0, cattr = 7\<rparr>"
    by (rule boot_steps)
  have "heap_state s' [(False, 8290304)]" by (rule heap_state_frame [OF k(1) s'(3-5)])
  with s' k(2,3) show ?thesis by (simp add: region_def)
qed

text \<open>For want of \<open>break\<close> a byte-wide \<open>IO_IN\<close> reads the port three times, with a byte, a word and
  a double word access, and stores the value of the last one.\<close>

theorem IO_IN_falls_through:
  assumes "io_in s = a # b # c # rest" "st32 (ram s) d 0 mode = chr CHR ''C''"
  shows "\<exists>s'. IO_IN port mode d s = Some (0, s') \<and> ld32 (ram s') d = c
    \<and> io_log s' = io_log s @ [Inb port, Inw port, Inl port] \<and> io_in s' = rest"
  using assms by (simp add: IO_IN_def read_port_def port_in_def)

theorem IO_IN_falls_through_witness:
  "\<exists>s'. IO_IN 0x60 0x200 0x100 (initial_machine (\<lambda>_. 67) [1, 2, 3]) = Some (0, s')
    \<and> ld32 (ram s') 0x100 = 3
    \<and> io_log s' = io_log (initial_machine (\<lambda>_. 67) [1, 2, 3]) @ [Inb 0x60, Inw 0x60, Inl 0x60]
    \<and> io_in s' = []"
  by (rule IO_IN_falls_through) (simp_all add: st32_def)

text \<open>What \<open>calloc\<close> returns is not null and points to as many zero bytes as the wrapped product
  of its arguments says.\<close>

theorem calloc_zeroes:
  assumes "calloc n sz s = Some (p, s')"
  shows "p \<noteq> 0 \<and> rd (ram s') p (unat (n * sz)) = replicate (unat (n * sz)) 0"
proof -
  from assms obtain s1 where s1: "malloc (n * sz) s = Some (p, s1)"
    "s' = s1\<lparr>ram := snd (memset p 0 (n * sz) (ram s1))\<rparr>"
    by (auto simp: calloc_def bind_eq_Some_conv)
  then have "p \<noteq> 0" by (auto simp: malloc_def bind_eq_Some_conv split: if_splits)
  moreover have "rd (wr (ram s1) p (replicate (unat (n * sz)) 0)) p (unat (n * sz))
      = replicate (unat (n * sz)) (0 :: u8)"
    using rd_wr_same [of "replicate (unat (n * sz)) 0" "ram s1" p] by (simp add: less_imp_le)
  ultimately show ?thesis using s1(2) by (simp add: memset_eq)
qed

theorem calloc_zeroes_witness:
  "\<exists>s'. calloc 4 8 (kernel_heap (\<lambda>_. 1)) = Some (0x7F7FE0, s')
    \<and> rd (ram s') 0x7F7FE0 32 = replicate 32 0"
proof -
  let ?s = "kernel_heap (\<lambda>_. 1)"
  note k = kernel_heap_state [of "\<lambda>_. 1"]
  obtain p s1 where a: "mem_alloc 32 ?s = Some (p, s1)"
    "unat p = heap_base ?s + snd (hd (a_fix [(False, 8290304)])) - unat (32 :: u32)"
    using mem_alloc_taken [OF k(1), of 32] k by auto
  then have "unat p = unat (0x7F7FE0 :: u32)" using k by simp
  then have "p = 0x7F7FE0" by (simp only: word_unat_eq_iff)
  with a(1) have "calloc 4 8 ?s
      = Some (0x7F7FE0, s1\<lparr>ram := snd (memset 0x7F7FE0 0 (4 * 8) (ram s1))\<rparr>)"
    by (simp add: calloc_def malloc_def)
  from calloc_zeroes [OF this] this show ?thesis by simp
qed

end
