(* ===== verification/Libc_Stubs.thy ===== *)
theory Libc_Stubs
  imports Printf_Console Kernel_Main
begin

text \<open>
  The rest of \<open>libc/lib.c\<close>: the ends of the program (\<open>exit\<close>, \<open>abort\<close>), the functions that are
  only stubs, the stream functions that fall back on the console, and \<open>malloc\<close> with its
  report, which needs \<open>mem_print\<close> of \<open>libc/alloc.c\<close>.

  A function that never returns is \<open>None\<close> for its caller; what the screen shows when it has
  stopped is the subject of a definition of its own, the machine in which its last loop runs
  (\<open>exit_screen\<close>, \<open>stub_screen\<close>, \<open>malloc_screen\<close>).  The addresses of string literals and of
  function names are the linker's: the parameter \<open>lit\<close>.
\<close>

type_synonym literals = "string \<Rightarrow> u32"

subsection \<open>Ends of the program\<close>

text \<open>\<open>while (1);\<close>\<close>

definition abort :: "machine \<Rightarrow> 'a option" where
  "abort s = None"

definition assert_fail :: "machine \<Rightarrow> 'a option" where
  "assert_fail s = None"

definition exit_screen :: "'d fpu \<Rightarrow> u32 \<Rightarrow> machine \<Rightarrow> machine option" where
  "exit_screen fp status s = do {
     let s1 = clear s;
     let s2 = snd (move 0 0 s1);
     (_, s3) \<leftarrow> printf fp (bytes ''COBOL runtime finished with CODE %i.\<newline>'') [status] s2;
     Some s3 }"

definition exit_c :: "'d fpu \<Rightarrow> u32 \<Rightarrow> machine \<Rightarrow> machine option" where
  "exit_c fp status s = do {
     s1 \<leftarrow> exit_screen fp status s;
     None }"

text \<open>The macro \<open>STUB_FUNC\<close>: the name of the function, then \<open>abort\<close>.\<close>

definition stub_screen :: "'d fpu \<Rightarrow> literals \<Rightarrow> string \<Rightarrow> machine \<Rightarrow> machine option" where
  "stub_screen fp lit name s = do {
     (_, s1) \<leftarrow> printf fp (bytes ''stub! %s\<newline>'') [lit name] s;
     Some s1 }"

definition STUB_FUNC :: "'d fpu \<Rightarrow> literals \<Rightarrow> string \<Rightarrow> machine \<Rightarrow> machine option" where
  "STUB_FUNC fp lit name s = do {
     s1 \<leftarrow> stub_screen fp lit name s;
     abort s1 }"

subsection \<open>The stubs\<close>

text \<open>Names that are taken in the logic have the suffix \<open>_c\<close>.\<close>

definition EOF :: u32 where "EOF = - 1"

definition ftell :: "'d fpu \<Rightarrow> literals \<Rightarrow> u32 \<Rightarrow> machine \<Rightarrow> (u32 \<times> machine) option" where
  "ftell fp lit f s = do { s1 \<leftarrow> STUB_FUNC fp lit ''ftell'' s; Some (- 1, s1) }"

definition fdopen :: "'d fpu \<Rightarrow> literals \<Rightarrow> u32 \<Rightarrow> u32 \<Rightarrow> machine \<Rightarrow> (u32 \<times> machine) option" where
  "fdopen fp lit fd modes s = do { s1 \<leftarrow> STUB_FUNC fp lit ''fdopen'' s; Some (0, s1) }"

definition lseek :: "'d fpu \<Rightarrow> literals \<Rightarrow> u32 \<Rightarrow> u32 \<Rightarrow> u32 \<Rightarrow> machine \<Rightarrow> (u32 \<times> machine) option" where
  "lseek fp lit fd off whence s = do { s1 \<leftarrow> STUB_FUNC fp lit ''lseek'' s; Some (- 1, s1) }"

definition fstat :: "'d fpu \<Rightarrow> literals \<Rightarrow> u32 \<Rightarrow> u32 \<Rightarrow> machine \<Rightarrow> (u32 \<times> machine) option" where
  "fstat fp lit fd st s = do { s1 \<leftarrow> STUB_FUNC fp lit ''fstat'' s; Some (- 1, s1) }"

definition finite_c :: "'d fpu \<Rightarrow> literals \<Rightarrow> machine \<Rightarrow> (u32 \<times> machine) option" where
  "finite_c fp lit s = do { s1 \<leftarrow> STUB_FUNC fp lit ''finite'' s; Some (0, s1) }"

definition fileno :: "'d fpu \<Rightarrow> literals \<Rightarrow> u32 \<Rightarrow> machine \<Rightarrow> (u32 \<times> machine) option" where
  "fileno fp lit f s = do { s1 \<leftarrow> STUB_FUNC fp lit ''fileno'' s; Some (- 1, s1) }"

definition rewind :: "'d fpu \<Rightarrow> literals \<Rightarrow> u32 \<Rightarrow> machine \<Rightarrow> machine option" where
  "rewind fp lit f s = STUB_FUNC fp lit ''rewind'' s"

definition fclose :: "'d fpu \<Rightarrow> literals \<Rightarrow> u32 \<Rightarrow> machine \<Rightarrow> (u32 \<times> machine) option" where
  "fclose fp lit f s = do { s1 \<leftarrow> STUB_FUNC fp lit ''fclose'' s; Some (0, s1) }"

definition fseek :: "'d fpu \<Rightarrow> literals \<Rightarrow> u32 \<Rightarrow> u32 \<Rightarrow> u32 \<Rightarrow> machine \<Rightarrow> (u32 \<times> machine) option" where
  "fseek fp lit f offset whence s = do { s1 \<leftarrow> STUB_FUNC fp lit ''fseek'' s; Some (- 1, s1) }"

definition strstr :: "'d fpu \<Rightarrow> literals \<Rightarrow> u32 \<Rightarrow> u32 \<Rightarrow> machine \<Rightarrow> (u32 \<times> machine) option" where
  "strstr fp lit haystack needle s = do { s1 \<leftarrow> STUB_FUNC fp lit ''strstr'' s; Some (0, s1) }"

definition setjmp :: "'d fpu \<Rightarrow> literals \<Rightarrow> u32 \<Rightarrow> machine \<Rightarrow> (u32 \<times> machine) option" where
  "setjmp fp lit e s = do { s1 \<leftarrow> STUB_FUNC fp lit ''setjmp'' s; Some (0, s1) }"

definition mktime :: "'d fpu \<Rightarrow> literals \<Rightarrow> u32 \<Rightarrow> machine \<Rightarrow> (u32 \<times> machine) option" where
  "mktime fp lit tp s = do { s1 \<leftarrow> STUB_FUNC fp lit ''mktime'' s; Some (- 1, s1) }"

definition fgets :: "'d fpu \<Rightarrow> literals \<Rightarrow> u32 \<Rightarrow> u32 \<Rightarrow> u32 \<Rightarrow> machine \<Rightarrow> (u32 \<times> machine) option" where
  "fgets fp lit str n f s = do { s1 \<leftarrow> STUB_FUNC fp lit ''fgets'' s; Some (0, s1) }"

definition gmtime :: "'d fpu \<Rightarrow> literals \<Rightarrow> u32 \<Rightarrow> machine \<Rightarrow> (u32 \<times> machine) option" where
  "gmtime fp lit t s = do { s1 \<leftarrow> STUB_FUNC fp lit ''gmtime'' s; Some (0, s1) }"

definition getpid :: "'d fpu \<Rightarrow> literals \<Rightarrow> machine \<Rightarrow> (u32 \<times> machine) option" where
  "getpid fp lit s = do { s1 \<leftarrow> STUB_FUNC fp lit ''getpid'' s; Some (- 1, s1) }"

definition open_c :: "'d fpu \<Rightarrow> literals \<Rightarrow> u32 \<Rightarrow> u32 \<Rightarrow> machine \<Rightarrow> (u32 \<times> machine) option" where
  "open_c fp lit file mode s = do { s1 \<leftarrow> STUB_FUNC fp lit ''open'' s; Some (- 1, s1) }"

definition write_c :: "'d fpu \<Rightarrow> literals \<Rightarrow> u32 \<Rightarrow> u32 \<Rightarrow> u32 \<Rightarrow> machine \<Rightarrow> (u32 \<times> machine) option" where
  "write_c fp lit fd p n s = do { s1 \<leftarrow> STUB_FUNC fp lit ''write'' s; Some (- 1, s1) }"

definition getc :: "'d fpu \<Rightarrow> literals \<Rightarrow> u32 \<Rightarrow> machine \<Rightarrow> (u32 \<times> machine) option" where
  "getc fp lit f s = do { s1 \<leftarrow> STUB_FUNC fp lit ''getc'' s; Some (EOF, s1) }"

definition read_c :: "'d fpu \<Rightarrow> literals \<Rightarrow> u32 \<Rightarrow> u32 \<Rightarrow> u32 \<Rightarrow> machine \<Rightarrow> (u32 \<times> machine) option" where
  "read_c fp lit fd p n s = do { s1 \<leftarrow> STUB_FUNC fp lit ''read'' s; Some (- 1, s1) }"

definition kill :: "'d fpu \<Rightarrow> literals \<Rightarrow> u32 \<Rightarrow> u32 \<Rightarrow> machine \<Rightarrow> (u32 \<times> machine) option" where
  "kill fp lit p signal s = do { s1 \<leftarrow> STUB_FUNC fp lit ''kill'' s; Some (- 1, s1) }"

definition fwrite :: "'d fpu \<Rightarrow> literals \<Rightarrow> u32 \<Rightarrow> u32 \<Rightarrow> u32 \<Rightarrow> u32 \<Rightarrow> machine \<Rightarrow> (u32 \<times> machine) option" where
  "fwrite fp lit p n sz f s = do { s1 \<leftarrow> STUB_FUNC fp lit ''fwrite'' s; Some (0, s1) }"

definition fread :: "'d fpu \<Rightarrow> literals \<Rightarrow> u32 \<Rightarrow> u32 \<Rightarrow> u32 \<Rightarrow> u32 \<Rightarrow> machine \<Rightarrow> (u32 \<times> machine) option" where
  "fread fp lit p n sz f s = do { s1 \<leftarrow> STUB_FUNC fp lit ''fread'' s; Some (0, s1) }"

definition strtol :: "'d fpu \<Rightarrow> literals \<Rightarrow> u32 \<Rightarrow> u32 \<Rightarrow> u32 \<Rightarrow> machine \<Rightarrow> (u32 \<times> machine) option" where
  "strtol fp lit str endptr base s = do { s1 \<leftarrow> STUB_FUNC fp lit ''strtol'' s; Some (0, s1) }"

definition strftime :: "'d fpu \<Rightarrow> literals \<Rightarrow> u32 \<Rightarrow> u32 \<Rightarrow> u32 \<Rightarrow> u32 \<Rightarrow> machine \<Rightarrow> (u32 \<times> machine) option" where
  "strftime fp lit p sz fmt tp s = do { s1 \<leftarrow> STUB_FUNC fp lit ''strftime'' s; Some (0, s1) }"

definition lt_dlsym :: "'d fpu \<Rightarrow> literals \<Rightarrow> machine \<Rightarrow> (u32 \<times> machine) option" where
  "lt_dlsym fp lit s = do { s1 \<leftarrow> STUB_FUNC fp lit ''lt_dlsym'' s; Some (0, s1) }"

definition getcwd :: "'d fpu \<Rightarrow> literals \<Rightarrow> u32 \<Rightarrow> u32 \<Rightarrow> machine \<Rightarrow> (u32 \<times> machine) option" where
  "getcwd fp lit c n s = do { s1 \<leftarrow> STUB_FUNC fp lit ''getcwd'' s; Some (lit ''/'', s1) }"

definition longjmp :: "'d fpu \<Rightarrow> literals \<Rightarrow> u32 \<Rightarrow> u32 \<Rightarrow> machine \<Rightarrow> machine option" where
  "longjmp fp lit e v s = do { s1 \<leftarrow> STUB_FUNC fp lit ''longjmp'' s; None }"

subsection \<open>Constants\<close>

definition longname :: "literals \<Rightarrow> u32" where "longname lit = lit ''a long name''"

definition getlogin :: "literals \<Rightarrow> u32" where "getlogin lit = lit ''LMVX-USER''"

definition strerror :: "literals \<Rightarrow> u32 \<Rightarrow> u32" where "strerror lit errno = lit ''NO STRERRROR''"

definition setlocale :: "u32 \<Rightarrow> u32 \<Rightarrow> u32" where "setlocale category locale_name = 0"

definition time_c :: "u32 \<Rightarrow> u32" where "time_c t = - 1"

text \<open>\<open>localtime\<close> returns the address of its static \<open>struct tm\<close>, which is never written.\<close>

definition localtime :: "u32 \<Rightarrow> u32 \<Rightarrow> u32" where "localtime tm t = tm"

definition init_pair :: "u16 \<Rightarrow> u16 \<Rightarrow> u16 \<Rightarrow> machine \<Rightarrow> machine" where "init_pair num fg bg s = s"

definition fflush :: "u32 \<Rightarrow> machine \<Rightarrow> u32 \<times> machine" where "fflush f s = (0, s)"

definition isoc99_sscanf :: "machine \<Rightarrow> machine" where "isoc99_sscanf s = s"

text \<open>The comparison and the negation of \<open>float\<close> values are the machine's.\<close>

definition fabs :: "('f \<Rightarrow> 'f \<Rightarrow> bool) \<Rightarrow> ('f \<Rightarrow> 'f) \<Rightarrow> 'f \<Rightarrow> 'f \<Rightarrow> 'f" where
  "fabs less_f neg_f zero_f a = (if less_f a zero_f then neg_f a else a)"

subsection \<open>Streams and files\<close>

definition fputs :: "u32 \<Rightarrow> u32 \<Rightarrow> machine \<Rightarrow> (u32 \<times> machine) option" where
  "fputs str f s = puts str s"

definition fputc :: "u32 \<Rightarrow> u32 \<Rightarrow> machine \<Rightarrow> u32 \<times> machine" where
  "fputc c f s = putchar c s"

definition putc :: "u32 \<Rightarrow> u32 \<Rightarrow> machine \<Rightarrow> u32 \<times> machine" where
  "putc c f s = putchar c s"

definition lt_dlopen :: "'d fpu \<Rightarrow> u32 \<Rightarrow> machine \<Rightarrow> (u32 \<times> machine) option" where
  "lt_dlopen fp x s = do {
     (_, s1) \<leftarrow> printf fp (bytes ''lt_dlopen\<newline>'') [] s;
     Some (0, s1) }"

definition sscanf :: "'d fpu \<Rightarrow> u32 \<Rightarrow> u32 \<Rightarrow> machine \<Rightarrow> (u32 \<times> machine) option" where
  "sscanf fp str fmt s = do {
     (_, s1) \<leftarrow> printf fp (bytes ''scanf %s\<newline>'') [fmt] s;
     Some (- 1, s1) }"

definition fopen :: "'d fpu \<Rightarrow> literals \<Rightarrow> u32 \<Rightarrow> u32 \<Rightarrow> machine \<Rightarrow> (u32 \<times> machine) option" where
  "fopen fp lit name mode s = do {
     r \<leftarrow> strcmp (ram s) (lit ''./runtime.cfg'') name;
     if r = 0 then Some (0, s)
     else do {
       (_, s1) \<leftarrow> printf fp (bytes ''open=%s,mode=%s\<newline>'') [name, mode] s;
       s2 \<leftarrow> STUB_FUNC fp lit ''fopen'' s1;
       Some (0, s2) } }"

text \<open>\<open>struct stat\<close> of \<open>all.h\<close>: thirteen words, \<open>st_mode\<close> the third.\<close>

definition sizeof_stat :: u32 where "sizeof_stat = 52"

definition set_st_mode :: "u32 \<Rightarrow> u32 \<Rightarrow> mem \<Rightarrow> mem" where
  "set_st_mode st v m = st32 m (st + 8) v"

definition stat :: "'d fpu \<Rightarrow> literals \<Rightarrow> u32 \<Rightarrow> u32 \<Rightarrow> machine \<Rightarrow> (u32 \<times> machine) option" where
  "stat fp lit filename st s = do {
     r \<leftarrow> strcmp (ram s) filename (lit ''.'');
     if r = 0
     then Some (0, s\<lparr>ram := set_st_mode st 0 (snd (memset st 0 sizeof_stat (ram s)))\<rparr>)
     else do { s1 \<leftarrow> STUB_FUNC fp lit ''stat'' s; Some (- 1, s1) } }"

subsection \<open>The listing of the heap (alloc.c) and a failing malloc\<close>

partial_function (option) print_blocks ::
    "'d fpu \<Rightarrow> literals \<Rightarrow> u32 \<Rightarrow> machine \<Rightarrow> machine option" where
  "print_blocks fp lit block s =
     (if block = 0 then Some s
      else do {
        (_, s1) \<leftarrow> printf fp (bytes ''%s %zu\<newline>'')
          [if blk_type (ram s) block = BLOCK_FREE then lit ''FREE'' else lit ''USED'',
           blk_size (ram s) block] s;
        print_blocks fp lit (blk_next (ram s1) block) s1 })"

definition print_region :: "'d fpu \<Rightarrow> literals \<Rightarrow> nat \<Rightarrow> machine \<Rightarrow> machine option" where
  "print_region fp lit i s = do {
     (_, s1) \<leftarrow> printf fp (bytes ''ram#%zu: %zu\<newline>'') [of_nat i, rg_size (region s i)] s;
     (_, s2) \<leftarrow> printf fp (bytes ''maxblocks: %zu\<newline>'') [rg_max_blocks (region s1 i)] s1;
     (_, s3) \<leftarrow> printf fp (bytes ''free: %zu\<newline>'') [rg_free_size (region s2 i)] s2;
     (_, s4) \<leftarrow> printf fp (bytes ''total size: %zu\<newline>'') [rg_size (region s3 i)] s3;
     print_blocks fp lit (rg_head (region s4 i)) s4 }"

fun print_regions :: "'d fpu \<Rightarrow> literals \<Rightarrow> nat list \<Rightarrow> machine \<Rightarrow> machine option" where
  "print_regions fp lit [] s = Some s"
| "print_regions fp lit (i # is) s =
     (if rg_addr (region s i) = 0 then print_regions fp lit is s
      else do { s1 \<leftarrow> print_region fp lit i s; print_regions fp lit is s1 })"

definition mem_print :: "'d fpu \<Rightarrow> literals \<Rightarrow> machine \<Rightarrow> machine option" where
  "mem_print fp lit s = do {
     (_, s1) \<leftarrow> printf fp (bytes ''master has max. %zu regions\<newline>'') [ms_max_regions (heap_master s)] s;
     print_regions fp lit (region_order s1) s1 }"

text \<open>What \<open>malloc\<close> does when it has got the null pointer, until it halts.\<close>

definition malloc_screen :: "'d fpu \<Rightarrow> literals \<Rightarrow> u32 \<Rightarrow> machine \<Rightarrow> machine option" where
  "malloc_screen fp lit sz s = do {
     total \<leftarrow> mem_total_free s;
     (_, s1) \<leftarrow> printf fp (bytes ''Requested object %zu, but we have %zu?\<newline>'') [sz, total] s;
     s2 \<leftarrow> mem_print fp lit s1;
     stub_screen fp lit ''malloc'' s2 }"

definition malloc_body :: "'d fpu \<Rightarrow> literals \<Rightarrow> u32 \<Rightarrow> machine \<Rightarrow> (u32 \<times> machine) option" where
  "malloc_body fp lit sz s = do {
     (p, s1) \<leftarrow> mem_alloc sz s;
     if p = 0 then do { s2 \<leftarrow> malloc_screen fp lit sz s1; s3 \<leftarrow> abort s2; Some (p, s3) }
     else Some (p, s1) }"

text \<open>For its callers this is the \<open>malloc\<close> of the heap.\<close>

lemma bind_None_rhs: "(\<And>x. f x = None) \<Longrightarrow> Option.bind y f = None"
  by (cases y) simp_all

lemma malloc_body_eq: "malloc_body fp lit sz s = malloc sz s"
  by (cases "mem_alloc sz s") (auto simp: malloc_body_def malloc_def abort_def intro!: bind_None_rhs)

subsection \<open>What the functions show\<close>

lemma stub_screen_shown:
  assumes "off_screen (ram s) (lit name) (bytes name)" "8 \<notin> set (bytes name)" "term_ok s"
  obtains s' where "stub_screen fp lit name s = Some s'" "shown (bytes ''stub! '' @ bytes name @ bytes ''\<newline>'') s s'"
proof (rule printf_shown [OF _ assms(3)])
  show "prints fp (bytes ''stub! %s\<newline>'') [lit name] (ram s) (bytes ''stub! '' @ bytes name @ bytes ''\<newline>'')"
    using assms(1,2) by (simp add: prints_rules)
qed (auto intro: that simp: stub_screen_def)

lemma free_size_le: "free_size_of bs \<le> total_size bs"
  unfolding free_size_of_def by (intro sum_list_mono) (auto split: prod.splits)

lemma shown_view: "shown cs s s' \<Longrightarrow> view s' = fold char_put cs (view s)"
  by (simp add: shown_def)

text \<open>The lines \<open>mem_print\<close> writes about a block and about a region.\<close>

definition block_line :: "ablock \<Rightarrow> u8 list" where
  "block_line b = bytes (if fst b then ''USED '' else ''FREE '') @ decimal (snd b) @ bytes ''\<newline>''"

definition region_lines :: "mem_region \<Rightarrow> u8 list" where
  "region_lines rg = bytes ''ram#0: '' @ decimal (unat (rg_size rg))
     @ bytes ''\<newline>maxblocks: '' @ decimal (unat (rg_max_blocks rg))
     @ bytes ''\<newline>free: '' @ decimal (unat (rg_free_size rg))
     @ bytes ''\<newline>total size: '' @ decimal (unat (rg_size rg)) @ bytes ''\<newline>''"

definition heap_lines :: "mem_region \<Rightarrow> ablock list \<Rightarrow> u8 list" where
  "heap_lines rg bs = bytes ''master has max. 4 regions\<newline>'' @ region_lines rg @ concat (map block_line bs)"

definition type_names :: "literals \<Rightarrow> mem \<Rightarrow> bool" where
  "type_names lit m \<longleftrightarrow> off_screen m (lit ''FREE'') (bytes ''FREE'') \<and> off_screen m (lit ''USED'') (bytes ''USED'')"

lemma type_names_shown: "type_names lit (ram s) \<Longrightarrow> shown cs s s' \<Longrightarrow> type_names lit (ram s')"
  unfolding type_names_def using off_screen_shown by blast

lemma print_block_shown:
  assumes "type_names lit (ram s)" "term_ok s" "blk_type (ram s) d \<in> {BLOCK_FREE, BLOCK_USED}"
  obtains n s' where "printf fp (bytes ''%s %zu\<newline>'')
      [if blk_type (ram s) d = BLOCK_FREE then lit ''FREE'' else lit ''USED'', blk_size (ram s) d] s = Some (n, s')"
    "shown (block_line (abs_block (blk_type (ram s) d, blk_size (ram s) d))) s s'"
proof (rule printf_shown [OF _ assms(2)])
  have t: "prints fp (bytes ''%s %zu\<newline>'') [q, v] m (t @ chr CHR '' '' # decimal (unat v) @ bytes ''\<newline>'')"
    if "off_screen m q t" "8 \<notin> set t" for m q t v
    using that by (simp add: prints_rules)
  show "prints fp (bytes ''%s %zu\<newline>'')
      [if blk_type (ram s) d = BLOCK_FREE then lit ''FREE'' else lit ''USED'', blk_size (ram s) d] (ram s)
      (block_line (abs_block (blk_type (ram s) d, blk_size (ram s) d)))"
    using assms(1,3) t [of "ram s" "lit ''FREE''" "bytes ''FREE''"] t [of "ram s" "lit ''USED''" "bytes ''USED''"]
    by (auto simp: block_line_def abs_block_def type_names_def)
qed (rule that)

lemma print_blocks_shown:
  assumes "chain (blk_next (ram s)) 0 b ds" "\<forall>d \<in> set ds. blk_type (ram s) d \<in> {BLOCK_FREE, BLOCK_USED}"
    and "\<forall>d \<in> set ds. span d 12 \<inter> vga_window = {}" "type_names lit (ram s)" "term_ok s"
  shows "\<exists>s'. print_blocks fp lit b s = Some s'
    \<and> shown (concat (map (\<lambda>d. block_line (abs_block (blk_type (ram s) d, blk_size (ram s) d))) ds)) s s'"
  using assms
proof (induction ds arbitrary: b s)
  case Nil
  then show ?case by (simp add: print_blocks.simps shown_Nil)
next
  case (Cons d ds)
  then have d: "b = d" "d \<noteq> 0" "chain (blk_next (ram s)) 0 (blk_next (ram s) d) ds" by simp_all
  obtain n s1 where s1: "printf fp (bytes ''%s %zu\<newline>'')
      [if blk_type (ram s) d = BLOCK_FREE then lit ''FREE'' else lit ''USED'', blk_size (ram s) d] s = Some (n, s1)"
    "shown (block_line (abs_block (blk_type (ram s) d, blk_size (ram s) d))) s s1"
    using print_block_shown [OF Cons.prems(4,5), of d fp thesis] Cons.prems(2) by auto
  have same: "blk_next (ram s1) x = blk_next (ram s) x \<and> blk_type (ram s1) x = blk_type (ram s) x
      \<and> blk_size (ram s1) x = blk_size (ram s) x" if "x \<in> set (d # ds)" for x
    using that Cons.prems(3) s1(2) blk_fields_frame [of vga_window "ram s" "ram s1" x]
    unfolding shown_def by blast
  have "\<exists>s'. print_blocks fp lit (blk_next (ram s1) d) s1 = Some s'
    \<and> shown (concat (map (\<lambda>d. block_line (abs_block (blk_type (ram s1) d, blk_size (ram s1) d))) ds)) s1 s'"
  proof (rule Cons.IH)
    show "chain (blk_next (ram s1)) 0 (blk_next (ram s1) d) ds"
      using d(3) same chain_cong [of ds "blk_next (ram s1)" "blk_next (ram s)"] by simp
  qed (use Cons.prems same shown_ok [OF s1(2)] type_names_shown [OF _ s1(2)] in auto)
  then obtain s' where s': "print_blocks fp lit (blk_next (ram s1) d) s1 = Some s'"
    "shown (concat (map (\<lambda>d. block_line (abs_block (blk_type (ram s1) d, blk_size (ram s1) d))) ds)) s1 s'" by blast
  have "map (\<lambda>d. block_line (abs_block (blk_type (ram s1) d, blk_size (ram s1) d))) ds
      = map (\<lambda>d. block_line (abs_block (blk_type (ram s) d, blk_size (ram s) d))) ds"
    using same by simp
  with s1 s' d(1,2) shown_trans [OF s1(2) s'(2)] show ?case
    by (simp add: print_blocks.simps [of fp lit d s])
qed

text \<open>Text after text, as the sources print it.\<close>

lemma heap_state_shown: "heap_state s bs \<Longrightarrow> shown cs s s' \<Longrightarrow> heap_state s' bs"
  unfolding shown_def by (blast intro: heap_state_frame)

lemma region_shown: "shown cs s s' \<Longrightarrow> region s' i = region s i"
  by (simp add: shown_def region_def)

lemma heap_state_term: "heap_state s bs \<Longrightarrow> term_ok s"
  by (simp add: heap_state_def)

lemma print_size_line:
  assumes "set lit1 \<inter> {chr CHR ''%'', 0, 8} = {}" "term_ok s"
  obtains n s' where "printf fp (lit1 @ bytes ''%zu\<newline>'') [v] s = Some (n, s')"
    "shown (lit1 @ decimal (unat v) @ bytes ''\<newline>'') s s'"
proof (rule printf_shown [OF _ assms(2)])
  show "prints fp (lit1 @ bytes ''%zu\<newline>'') [v] (ram s) (lit1 @ decimal (unat v) @ bytes ''\<newline>'')"
    using assms(1) by (intro prints_literal) (simp_all add: prints_rules)
qed (rule that)

lemma print_region_shown:
  assumes "heap_state s bs" "type_names lit (ram s)"
  obtains s' where "print_region fp lit 0 s = Some s'"
    "shown (region_lines (region s 0) @ concat (map block_line bs)) s s'"
proof -
  let ?rg = "region s 0"
  note t = heap_state_term [OF assms(1)]
  have p1: "prints fp (bytes ''ram#%zu: %zu\<newline>'') [i, rg_size ?rg] (ram s)
      (bytes ''ram#'' @ decimal (unat i) @ bytes '': '' @ decimal (unat (rg_size ?rg)) @ bytes ''\<newline>'')" for i
    by (simp add: prints_rules)
  have z: "bytes ''ram#'' @ decimal (unat (of_nat 0 :: u32)) @ bytes '': '' @ r = bytes ''ram#0: '' @ r" for r
    by (simp add: decimal_def radix_text_def digits_def radix_char_def)
  obtain n1 s1 where s1: "printf fp (bytes ''ram#%zu: %zu\<newline>'') [of_nat 0, rg_size ?rg] s = Some (n1, s1)"
    "shown (bytes ''ram#0: '' @ decimal (unat (rg_size ?rg)) @ bytes ''\<newline>'') s s1"
    using printf_shown [OF p1 [of "of_nat 0", unfolded z] t] by blast
  obtain n2 s2 where s2: "printf fp (bytes ''maxblocks: %zu\<newline>'') [rg_max_blocks ?rg] s1 = Some (n2, s2)"
    "shown (bytes ''maxblocks: '' @ decimal (unat (rg_max_blocks ?rg)) @ bytes ''\<newline>'') s1 s2"
    using print_size_line [of "bytes ''maxblocks: ''" s1 fp "rg_max_blocks ?rg" thesis] shown_ok [OF s1(2)] by auto
  obtain n3 s3 where s3: "printf fp (bytes ''free: %zu\<newline>'') [rg_free_size ?rg] s2 = Some (n3, s3)"
    "shown (bytes ''free: '' @ decimal (unat (rg_free_size ?rg)) @ bytes ''\<newline>'') s2 s3"
    using print_size_line [of "bytes ''free: ''" s2 fp "rg_free_size ?rg" thesis] shown_ok [OF s2(2)] by auto
  obtain n4 s4 where s4: "printf fp (bytes ''total size: %zu\<newline>'') [rg_size ?rg] s3 = Some (n4, s4)"
    "shown (bytes ''total size: '' @ decimal (unat (rg_size ?rg)) @ bytes ''\<newline>'') s3 s4"
    using print_size_line [of "bytes ''total size: ''" s3 fp "rg_size ?rg" thesis] shown_ok [OF s3(2)] by auto
  note r = region_shown [OF s1(2)] region_shown [OF s2(2)] region_shown [OF s3(2)] region_shown [OF s4(2)]
  have h: "shown (region_lines ?rg) s s4"
    using shown_trans [OF shown_trans [OF shown_trans [OF s1(2) s2(2)] s3(2)] s4(2)]
    by (simp add: region_lines_def)
  have hs: "heap_state s4 bs" using heap_state_shown [OF assms(1) h] .
  then obtain ds es where ok: "heap_ok (ram s4) (region s4 0) ds es" and bs: "bs = map abs_block es"
    and vga: "\<forall>d \<in> slots (region s4 0). span d 12 \<inter> vga_window = {}" by (auto simp: heap_state_def)
  note parts = heap_ok_parts [OF ok]
  have "\<exists>s'. print_blocks fp lit (rg_head ?rg) s4 = Some s'
    \<and> shown (concat (map (\<lambda>d. block_line (abs_block (blk_type (ram s4) d, blk_size (ram s4) d))) ds)) s4 s'"
    using parts(1,2,6) vga r shown_ok [OF h] type_names_shown [OF assms(2) h]
    by (intro print_blocks_shown) auto
  then obtain s' where s': "print_blocks fp lit (rg_head ?rg) s4 = Some s'"
    "shown (concat (map block_line bs)) s4 s'" unfolding bs parts(3) by (auto simp: comp_def)
  have "print_region fp lit 0 s = Some s'"
    using s1(1) s2(1) s3(1) s4(1) s'(1) r by (simp add: print_region_def)
  with that shown_trans [OF h s'(2)] show thesis by blast
qed

lemma mem_print_shown:
  assumes "heap_state s bs" "type_names lit (ram s)"
  obtains s' where "mem_print fp lit s = Some s'" "shown (heap_lines (region s 0) bs) s s'"
proof -
  have max: "ms_max_regions (heap_master s) = 4" using assms(1) by (simp add: heap_state_def)
  have four: "bytes ''master has max. '' @ decimal (unat (4 :: u32)) @ r = bytes ''master has max. 4'' @ r" for r
    by (simp add: decimal_def radix_text_def digits_def radix_char_def rdigits.simps)
  have "prints fp (bytes ''master has max. %zu regions\<newline>'') [v] (ram s)
      (bytes ''master has max. '' @ decimal (unat v) @ bytes '' regions\<newline>'')" for v
    by (simp add: prints_rules)
  from printf_shown [OF this [of 4, unfolded four] heap_state_term [OF assms(1)]] obtain n s1 where
    s1: "printf fp (bytes ''master has max. %zu regions\<newline>'') [4] s = Some (n, s1)"
      "shown (bytes ''master has max. 4'' @ bytes '' regions\<newline>'') s s1" by blast
  note hs = heap_state_shown [OF assms(1) s1(2)] and r = region_shown [OF s1(2)]
  obtain s' where s': "print_region fp lit 0 s1 = Some s'"
    "shown (region_lines (region s1 0) @ concat (map block_line bs)) s1 s'"
    using print_region_shown [OF hs type_names_shown [OF assms(2) s1(2)]] by blast
  have "rg_addr (region s1 0) \<noteq> 0" using hs by (simp add: heap_state_def)
  moreover have "rg_addr (region s' i) = 0" if "i \<in> {1, 2, 3}" for i
    using that hs region_shown [OF s'(2)] by (auto simp: heap_state_def mem_region_0_def)
  ultimately have "mem_print fp lit s = Some s'"
    using s1(1) s'(1) max by (simp add: mem_print_def region_order_4 [OF hs])
  with that shown_trans [OF s1(2) s'(2)] r show thesis by (simp add: heap_lines_def)
qed

text \<open>A machine that has the literals in memory.\<close>

definition sample_lit :: literals where
  "sample_lit name = (if name = ''FREE'' then 0x100 else if name = ''USED'' then 0x110 else 0x120)"

definition sample_machine :: machine where
  "sample_machine = (kernel_heap (\<lambda>_. 0))\<lparr>ram :=
     wr (wr (wr (ram (kernel_heap (\<lambda>_. 0))) 0x100 (bytes ''FREE'' @ [0])) 0x110 (bytes ''USED'' @ [0]))
       0x120 (bytes ''malloc'' @ [0])\<rparr>"

lemma sample_state:
  "heap_state sample_machine [(False, 8290304)]" "heap_free sample_machine = 8290304"
  "type_names sample_lit (ram sample_machine)"
  "off_screen (ram sample_machine) (sample_lit ''malloc'') (bytes ''malloc'')" "term_ok sample_machine"
proof -
  let ?k = "kernel_heap (\<lambda>_. 0)"
  have sub: "span 0x100 5 \<subseteq> span (0x100 :: u32) 64" "span 0x110 5 \<subseteq> span (0x100 :: u32) 64"
    "span 0x120 7 \<subseteq> span (0x100 :: u32) 64"
    using span_shift [of "0x100 :: u32" 0 5] span_shift [of "0x100 :: u32" 16 5] span_shift [of "0x100 :: u32" 32 7]
      span_mono [of 5 64 "0x100"] span_mono [of 21 64 "0x100"] span_mono [of 39 64 "0x100"] by auto
  have "same_outside (span 0x100 64) (ram ?k) (ram sample_machine)"
  proof -
    have l: "length (bytes ''FREE'' @ [0]) = 5" "length (bytes ''USED'' @ [0]) = 5"
      "length (bytes ''malloc'' @ [0]) = 7" by simp_all
    have "ram (r\<lparr>ram := x\<rparr>) = x" for r :: machine and x by simp
    then have "ram sample_machine = wr (wr (wr (ram ?k) 0x100 (bytes ''FREE'' @ [0])) 0x110 (bytes ''USED'' @ [0]))
        0x120 (bytes ''malloc'' @ [0])" unfolding sample_machine_def .
    then show ?thesis by (simp only:) (intro same_outside_wr same_outside_refl, simp_all only: l sub)
  qed
  moreover have "span (0x100 :: u32) 64 \<inter> span 0x10000 98304 = {}" by (rule span_apart) simp_all
  then have "table (region ?k 0) \<inter> span 0x100 64 = {}" using kernel_table [of "\<lambda>_. 0"] by blast
  ultimately have "heap_state (?k\<lparr>ram := ram sample_machine\<rparr>) [(False, 8290304)]"
    by (rule heap_state_write [OF kernel_heap_state(1)])
  then show hs: "heap_state sample_machine [(False, 8290304)]" by (simp add: sample_machine_def)
  then show "term_ok sample_machine" by (rule heap_state_term)
  show "heap_free sample_machine = 8290304" using kernel_heap_state(3) by (simp add: sample_machine_def)
  have v: "span (0x100 :: u32) 64 \<inter> vga_window = {}" by (rule span_apart) simp_all
  have o: "off_screen (ram sample_machine) q t"
    if "cstr (ram sample_machine) q t" "span q (Suc (length t)) \<subseteq> span 0x100 64" for q t
    using that v unfolding off_screen_def by blast
  have l: "Suc (length (bytes ''FREE'')) = 5" "Suc (length (bytes ''USED'')) = 5"
    "Suc (length (bytes ''malloc'')) = 7" "sample_lit ''FREE'' = 0x100" "sample_lit ''USED'' = 0x110"
    "sample_lit ''malloc'' = 0x120" by (simp_all add: sample_lit_def)
  have "cstr (ram sample_machine) 0x100 (bytes ''FREE'')" "cstr (ram sample_machine) 0x110 (bytes ''USED'')"
    "cstr (ram sample_machine) 0x120 (bytes ''malloc'')"
    by (simp_all add: sample_machine_def)
  then show "type_names sample_lit (ram sample_machine)"
    "off_screen (ram sample_machine) (sample_lit ''malloc'') (bytes ''malloc'')"
    unfolding type_names_def l by (intro conjI o; simp only: l sub)+
qed

subsection \<open>Properties\<close>

text \<open>What is left on the screen by \<open>exit\<close>.\<close>

definition exit_line :: "u32 \<Rightarrow> u8 list" where
  "exit_line status = bytes ''COBOL runtime finished with CODE ''
     @ c_integer [] (chr CHR ''i'') 0 None status @ bytes ''.''"

lemma exit_line_plain: "length (exit_line status) < 80" "c \<in> set (exit_line status) \<Longrightarrow> 32 \<le> c"
proof -
  have "length (c_integer [] (chr CHR ''i'') 0 None status) \<le> 34"
    using length_c_integer_le [of "[]" "chr CHR ''i''" 0 None status] by simp
  then show "length (exit_line status) < 80" by (simp add: exit_line_def)
  assume c: "c \<in> set (exit_line status)"
  have "\<forall>d \<in> set (bytes ''COBOL runtime finished with CODE ''). 32 \<le> d" "32 \<le> (chr CHR ''.'')" by simp_all
  moreover have "32 \<le> d" if "d \<in> set (c_integer [] (chr CHR ''i'') 0 None status)" for d
    using that c_integer_printable [of d] by (meson not_le)
  ultimately show "32 \<le> c" using c unfolding exit_line_def set_append by auto
qed

text \<open>C15: \<open>mem_print\<close> returns and lists the heap: the figures of the region, then a line for every
  block in address order, in use or free, with its size; the heap is as before.\<close>

theorem mem_print_lists_heap:
  assumes "heap_state s bs" "type_names lit (ram s)"
  shows "\<exists>s'. mem_print fp lit s = Some s' \<and> view s' = fold char_put (heap_lines (region s 0) bs) (view s)
    \<and> heap_state s' bs \<and> same_outside vga_window (ram s) (ram s')"
proof (rule mem_print_shown [OF assms])
  fix s' assume "mem_print fp lit s = Some s'" and sh: "shown (heap_lines (region s 0) bs) s s'"
  then show ?thesis using heap_state_shown [OF assms(1) sh] unfolding shown_def by blast
qed

theorem mem_print_lists_heap_witness:
  "\<exists>s'. mem_print int_fpu sample_lit sample_machine = Some s'
    \<and> view s' = fold char_put (heap_lines (region sample_machine 0) [(False, 8290304)]) (view sample_machine)"
  using mem_print_lists_heap [OF sample_state(1,3), of int_fpu] by blast

text \<open>C16: A \<open>malloc\<close> that asks for more than the budget of the region never returns: it shows the
  request, the sum of the free blocks (which may be larger), the listing of the heap, and
  the name of the function, and stops.\<close>

theorem malloc_failure_is_reported:
  assumes "heap_state s bs" "heap_free s < unat sz" "type_names lit (ram s)"
    and "off_screen (ram s) (lit ''malloc'') (bytes ''malloc'')"
  shows "malloc sz s = None \<and> (\<exists>s'. malloc_screen fp lit sz s = Some s'
    \<and> view s' = fold char_put (bytes ''Requested object '' @ decimal (unat sz) @ bytes '', but we have ''
        @ decimal (free_size_of bs) @ bytes ''?\<newline>'' @ heap_lines (region s 0) bs @ bytes ''stub! malloc\<newline>'') (view s))"
proof -
  have none: "malloc sz s = None"
    using mem_alloc_refused [OF assms(1,2)] by (simp add: malloc_def)
  have "heap_base s + total_size bs < 2 ^ 32" using assms(1) by (simp add: heap_state_def)
  then have u: "unat (of_nat (free_size_of bs) :: u32) = free_size_of bs"
    using free_size_le [of bs] by (intro unat_of_nat_u32) simp
  have "prints fp (bytes ''Requested object %zu, but we have %zu?\<newline>'') [v, w] (ram s)
      (bytes ''Requested object '' @ decimal (unat v) @ bytes '', but we have '' @ decimal (unat w)
        @ bytes ''?\<newline>'')" for v w
    by (simp add: prints_rules)
  from printf_shown [OF this [of sz "of_nat (free_size_of bs)", unfolded u] heap_state_term [OF assms(1)]]
  obtain n s1 where s1: "printf fp (bytes ''Requested object %zu, but we have %zu?\<newline>'')
        [sz, of_nat (free_size_of bs)] s = Some (n, s1)"
      "shown (bytes ''Requested object '' @ decimal (unat sz) @ bytes '', but we have ''
        @ decimal (free_size_of bs) @ bytes ''?\<newline>'') s s1" by blast
  obtain s2 where s2: "mem_print fp lit s1 = Some s2" "shown (heap_lines (region s1 0) bs) s1 s2"
    using mem_print_shown [OF heap_state_shown [OF assms(1) s1(2)] type_names_shown [OF assms(3) s1(2)]] by blast
  have "off_screen (ram s2) (lit ''malloc'') (bytes ''malloc'')"
    using off_screen_shown [OF off_screen_shown [OF assms(4) s1(2)] s2(2)] .
  from stub_screen_shown [of s2 lit "''malloc''" fp, OF this _ shown_ok [OF s2(2)]] obtain s3 where
    s3: "stub_screen fp lit ''malloc'' s2 = Some s3" "shown (bytes ''stub! malloc\<newline>'') s2 s3" by auto
  have "malloc_screen fp lit sz s = Some s3"
    using s1(1) s2(1) s3(1) mem_total_free_sum [OF assms(1)] by (simp add: malloc_screen_def)
  moreover have "region s1 0 = region s 0" by (rule region_shown [OF s1(2)])
  note shown_view [OF shown_trans [OF shown_trans [OF s1(2) s2(2)] s3(2)], unfolded this append_assoc]
  ultimately show ?thesis using none by blast
qed

theorem malloc_failure_is_reported_witness:
  "\<exists>s'. malloc 10000000 sample_machine = None
    \<and> malloc_screen int_fpu sample_lit 10000000 sample_machine = Some s'"
  using malloc_failure_is_reported [OF sample_state(1), of 10000000 sample_lit int_fpu] sample_state by auto

text \<open>C17: \<open>exit\<close> never returns: it clears the screen, leaves one line on it, with the status as a
  signed number, and stops with the cursor on the next line.\<close>

theorem exit_shows_code:
  assumes "term_ok s" "line = exit_line status"
  shows "exit_c fp status s = None \<and> (\<exists>s'. exit_screen fp status s = Some s'
    \<and> view s' = \<lparr>cells = map (\<lambda>c. vga_entry c (term_color s)) line
                   @ replicate (2000 - length line) (blank (term_color s)),
                 crow = 1, ccol = 0, cattr = term_color s\<rparr>
    \<and> same_outside vga_window (ram s) (ram s'))"
proof -
  let ?s = "snd (move 0 0 (clear s))"
  have m: "?s = (clear s)\<lparr>term_col := 0, term_row := 0\<rparr>" by (simp add: move_def word_sless_alt word_sle_eq)
  have v: "view ?s = \<lparr>cells = replicate 2000 (blank (term_color s)), crow = 0, ccol = 0, cattr = term_color s\<rparr>"
    unfolding m using clear_view [of s] by (simp add: view_def)
  have ok: "term_ok ?s" by (simp add: m term_ok_def)
  have fr: "same_outside vga_window (ram s) (ram ?s)" using clear_frame [of _ s] by (simp add: m same_outside_def)
  have "prints fp (bytes ''COBOL runtime finished with CODE %i.\<newline>'') [status] (ram ?s) (line @ bytes ''\<newline>'')"
    unfolding assms(2) exit_line_def by (simp add: prints_rules)
  from printf_shown [OF this ok] obtain n s' where
    s': "printf fp (bytes ''COBOL runtime finished with CODE %i.\<newline>'') [status] ?s = Some (n, s')"
      "shown (line @ bytes ''\<newline>'') ?s s'" by blast
  have len: "length line < 80" and pr: "\<forall>c \<in> set line. 32 \<le> c" using exit_line_plain assms(2) by auto
  have "view s' = char_put 10 (fold char_put line (view ?s))" using shown_view [OF s'(2)] by simp
  also have "fold char_put line (view ?s) = \<lparr>cells = map (\<lambda>c. vga_entry c (term_color s)) line
      @ replicate (2000 - length line) (blank (term_color s)), crow = 0, ccol = length line, cattr = term_color s\<rparr>"
    using put_line [OF pr, of "view ?s"] len by (simp add: v drop_replicate)
  finally have "view s' = \<lparr>cells = map (\<lambda>c. vga_entry c (term_color s)) line
      @ replicate (2000 - length line) (blank (term_color s)), crow = 1, ccol = 0, cattr = term_color s\<rparr>"
    by (simp add: tty_put_def tty_char_def tty_settle_def Let_def char_to_int_def)
  moreover have "same_outside vga_window (ram s) (ram s')"
    using fr s'(2) unfolding shown_def by (blast intro: same_outside_trans)
  ultimately show ?thesis using s'(1) by (simp add: exit_c_def exit_screen_def bind_None_rhs)
qed

theorem exit_shows_code_witness:
  "exit_c int_fpu (- 2) (initial_machine (\<lambda>_. 0) []) = None \<and> (\<exists>s'.
    exit_screen int_fpu (- 2) (initial_machine (\<lambda>_. 0) []) = Some s' \<and> crow (view s') = 1)"
  using exit_shows_code [of "initial_machine (\<lambda>_. 0) []" "exit_line (- 2)" "- 2" int_fpu] by auto

text \<open>\<open>fopen\<close> never opens a file: it returns the null pointer for the prefixes and the
  extensions of \<open>./runtime.cfg\<close>, and halts for every other name.\<close>

lemma fopen_result:
  assumes "cstr (ram s) name xs" "cstr (ram s) (lit ''./runtime.cfg'') (bytes ''./runtime.cfg'')"
  shows "fopen fp lit name mode s
    = (if prefix xs (bytes ''./runtime.cfg'') \<or> prefix (bytes ''./runtime.cfg'') xs then Some (0, s) else None)"
  using strcmp_cstr [OF assms(2,1)]
  by (auto simp: fopen_def STUB_FUNC_def abort_def intro!: bind_None_rhs)

text \<open>\<open>stat\<close> looks at the name with \<open>strcmp\<close>, which is content with a prefix: it fills in a zero
  \<open>struct stat\<close> and returns 0 exactly for the empty name and the names that start with a dot;
  for every other name it reports itself and halts.\<close>

theorem stat_accepts_dot_prefix:
  assumes "cstr (ram s) name xs" "cstr (ram s) (lit ''.'') (bytes ''.'')"
  shows "stat fp lit name st s
    = (if xs = [] \<or> hd xs = chr CHR ''.''
       then Some (0, s\<lparr>ram := wr (ram s) st (replicate 52 0)\<rparr>) else None)"
proof -
  obtain r where r: "strcmp (ram s) name (lit ''.'') = Some r"
    "r = 0 \<longleftrightarrow> prefix xs (bytes ''.'') \<or> prefix (bytes ''.'') xs"
    using strcmp_cstr [OF assms] by auto
  have "prefix xs (bytes ''.'') \<or> prefix (bytes ''.'') xs \<longleftrightarrow> xs = [] \<or> hd xs = chr CHR ''.''"
    by (cases xs) auto
  moreover have "wr (ram s) st (replicate 52 0) (st + of_nat i) = 0" if "i < 52" for i
    using that wr_nth [of i "replicate 52 0" "ram s" st] by simp
  from this [of 8] this [of 9] this [of 10] this [of 11]
  have "set_st_mode st 0 (wr (ram s) st (replicate 52 0)) = wr (ram s) st (replicate 52 0)"
    by (simp add: set_st_mode_def st32_def add.assoc fun_upd_idem del: wr.simps)
  ultimately show ?thesis
    using r by (auto simp: stat_def memset_eq sizeof_stat_def STUB_FUNC_def abort_def intro!: bind_None_rhs)
qed

theorem stat_accepts_dot_prefix_witness:
  "stat int_fpu (\<lambda>_. 8) 0 64 (initial_machine ((\<lambda>_. 0)(8 := 46)) [])
    = Some (0, (initial_machine ((\<lambda>_. 0)(8 := 46)) [])\<lparr>ram := wr ((\<lambda>_. 0)(8 := 46)) 64 (replicate 52 0)\<rparr>)"
  using stat_accepts_dot_prefix [of "initial_machine ((\<lambda>_. 0)(8 := 46)) []" 0 "[]" "\<lambda>_. 8" int_fpu 64] by simp

end
