(* ===== verification/Heap_Resize.thy ===== *)
theory Heap_Resize
  imports Heap
begin

text \<open>
  The operations that change the blocks in other ways than \<open>mem_alloc\<close> and \<open>mem_free\<close>:
  \<open>mem_align_alloc\<close>, and the branches of \<open>mem_realloc\<close> that move the border between a block
  and its neighbours.
\<close>

subsection \<open>Blocks put in and borders moved\<close>

text \<open>The border between two neighbours.\<close>

lemma heap_ok_border:
  assumes ok: "heap_ok m rg (pre @ d # x # post) (ps @ (t, k) # (t', w) # qs)" and len: "length ps = length pre"
    and "unat k' + unat w' \<le> unat k + unat w"
    and f: "\<And>y. y \<in> slots rg \<Longrightarrow> blk_next m' y = blk_next m y \<and> blk_type m' y = blk_type m y
      \<and> blk_size m' y = (if y = d then k' else if y = x then w' else blk_size m y)"
  shows "heap_ok m' rg (pre @ d # x # post) (ps @ (t, k') # (t', w') # qs)"
proof -
  let ?ds = "pre @ d # x # post"
  note D = heap_okD [OF ok len]
  have c: "chain (blk_next m) 0 (rg_head rg) ?ds"
    and es: "ps @ (t, k) # (t', w) # qs = map (\<lambda>d. (blk_type m d, blk_size m d)) ?ds"
    using ok by (simp_all only: heap_ok_def descriptors.linked_def slots_def)
  have f': "blk_next m' y = blk_next m y" "blk_type m' y = blk_type m y"
    "blk_size m' y = (if y = d then k' else if y = x then w' else blk_size m y)" if "y \<in> set ?ds" for y
    using f that D(4) by blast+
  have "chain (blk_next m') 0 (rg_head rg) ?ds"
    using c chain_cong [of ?ds "blk_next m'" "blk_next m"] f'(1) by blast
  moreover have "ps @ (t, k') # (t', w') # qs = map (\<lambda>d. (blk_type m' d, blk_size m' d)) ?ds"
  proof -
    have "ps = map (\<lambda>d. (blk_type m d, blk_size m d)) pre" "t = blk_type m d" "t' = blk_type m x"
      "qs = map (\<lambda>d. (blk_type m d, blk_size m d)) post" using es len by simp_all
    then show ?thesis using f' D(3) by (auto intro!: map_cong)
  qed
  moreover have "blk_type m' y = BLOCK_NOT_PRESENT" if "y \<in> slots rg - set ?ds" for y
    using that f [of y] ok by (auto simp: heap_ok_def)
  ultimately have "heap_ok m' rg ?ds (ps @ (t, k') # (t', w') # qs)
      \<longleftrightarrow> fst ` set (ps @ (t, k') # (t', w') # qs) \<subseteq> {BLOCK_FREE, BLOCK_USED}
        \<and> total_size (map abs_block (ps @ (t, k') # (t', w') # qs)) < 2 ^ 32"
    using ok by (auto simp only: heap_ok_def descriptors.linked_def slots_def)
  then show ?thesis using ok assms(3) by (auto simp: heap_ok_def abs_block_def)
qed

subsection \<open>Aligned allocation\<close>

definition heap_blocks :: "machine \<Rightarrow> ablock list \<Rightarrow> bool" where
  "heap_blocks s bs \<longleftrightarrow> (\<exists>ds es. heap_ok (ram s) (region s 0) ds es \<and> bs = map abs_block es)"

text \<open>A free descriptor, as \<open>mem_new_block\<close> finds it.\<close>

lemma new_descriptor:
  assumes ok: "heap_ok (ram s) (region s 0) ds es" and room: "length es < heap_table s"
  obtains nb where "mem_new_block (region s 0) s = (nb, s)" "nb \<in> slots (region s 0)" "nb \<noteq> 0"
    "blk_type (ram s) nb = BLOCK_NOT_PRESENT"
proof -
  from heap_ok_full [OF ok] room obtain nb where
    nb: "scan_not_present (heap_table s) (rg_blocks (region s 0)) (ram s) = Some nb" by auto
  have "region_wf (region s 0)" using ok by (simp add: heap_ok_def)
  from scan_slots(1) [OF this nb] that nb show thesis by (simp add: mem_new_block_def)
qed

text \<open>The largest multiple of the alignment that leaves \<open>align\<close> bytes in the block.\<close>

lemma align_target:
  fixes addr k sz align :: u32
  assumes "0 < unat align" "unat sz \<le> unat align" "2 * unat align \<le> unat k" "unat addr + unat k < 2 ^ 32"
  defines "target \<equiv> addr + k - align - (addr + k - align) mod align"
  shows "unat target mod unat align = 0" "unat addr \<le> unat target" "unat target + unat sz \<le> unat addr + unat k"
    "unat (target - addr) = unat target - unat addr" "\<not> k < target - addr + sz"
    "sz + addr mod align \<le> k"
proof -
  let ?t = "addr + k - align"
  have "unat (addr + k) = unat addr + unat k" using assms(4) by (rule unat_add_no_wrap)
  then have t: "unat ?t = unat addr + unat k - unat align"
    using assms(3) by (subst unat_sub_no_wrap) (simp_all add: word_le_nat_alt)
  have m: "unat (?t mod align) = unat ?t mod unat align" by (rule unat_mod)
  have "?t mod align \<le> ?t" by (simp add: word_le_nat_alt m)
  then have T: "unat target = unat ?t - unat ?t mod unat align"
    unfolding target_def by (simp add: unat_sub_no_wrap m)
  have lt: "unat ?t mod unat align < unat align" using assms(1) by simp
  show "unat target mod unat align = 0" unfolding T by (simp add: minus_mod_eq_mult_div)
  show le: "unat addr \<le> unat target" using T t lt assms(3) by linarith
  show up: "unat target + unat sz \<le> unat addr + unat k" using T t assms(2,3) by linarith
  show off: "unat (target - addr) = unat target - unat addr"
    using le by (simp add: unat_sub_no_wrap word_le_nat_alt)
  have fit: "unat (target - addr) + unat sz \<le> unat k" using off le up by linarith
  have "unat (target - addr + sz) = unat (target - addr) + unat sz"
    by (rule unat_add_no_wrap) (use le_less_trans [OF fit unat_u32_less] in simp)
  with fit show "\<not> k < target - addr + sz" by (simp add: word_less_nat_alt)
  have mm: "unat (addr mod align) < unat align" using assms(1) by (simp add: unat_mod)
  then have le_k: "unat sz + unat (addr mod align) \<le> unat k" using assms(2,3) by linarith
  have "unat (sz + addr mod align) = unat sz + unat (addr mod align)"
    by (rule unat_add_no_wrap) (use le_less_trans [OF le_k unat_u32_less] in simp)
  then show "sz + addr mod align \<le> k" using le_k by (simp add: word_le_nat_alt)
qed

lemma align_split_taken:
  assumes ok: "heap_ok (ram s) (region s 0) ([] @ d # post) ([] @ (BLOCK_FREE, k) # qs)"
    and room: "length (d # post) < heap_table s" and fit: "\<not> k < off + sz"
    and off: "off = addr + k - align - (addr + k - align) mod align - addr" and c: "unat off + unat sz \<le> unat k"
  shows "\<exists>m' nb. align_split 0 d addr sz align s = (addr + off, s\<lparr>ram := m'\<rparr>)
    \<and> heap_ok m' (region s 0) (d # nb # post) ((BLOCK_FREE, off) # (BLOCK_USED, sz) # qs)
    \<and> same_outside (table (region s 0)) (ram s) m'"
proof -
  note D = heap_okD [OF ok no_blocks]
  have dk: "blk_type (ram s) d = BLOCK_FREE" "blk_size (ram s) d = k" using D(5) by simp_all
  have "length ([] @ (BLOCK_FREE, k) # qs) < heap_table s" using room D(8) by simp
  with ok obtain nb where nb: "mem_new_block (region s 0) s = (nb, s)" "nb \<in> slots (region s 0)" "nb \<noteq> 0"
    "blk_type (ram s) nb = BLOCK_NOT_PRESENT" by (rule new_descriptor)
  have dn: "d \<noteq> nb" using dk(1) nb(4) by auto
  let ?m' = "set_next d nb (set_next nb (blk_next (ram s) d) (set_type nb BLOCK_USED
      (set_size nb sz (set_size d off (ram s)))))"
  have "align_split 0 d addr sz align s = (addr + off, s\<lparr>ram := ?m'\<rparr>)"
    using fit nb D(1) dn dk unfolding align_split_def align_after_def Let_def dk(2) off [symmetric]
    by (simp add: field_simps_slots Let_def)
  moreover have "heap_ok ?m' (region s 0) ([] @ d # nb # post) ([] @ (BLOCK_FREE, off) # (BLOCK_USED, sz) # qs)"
    using nb(2) D(1) dn c by (intro heap_ok_insert [OF ok no_blocks nb(2,4,3)]) (simp_all add: field_simps_slots)
  moreover have "same_outside (table (region s 0)) (ram s) ?m'"
    using nb(2) D(1) by (intro field_frames same_outside_refl)
  ultimately show ?thesis by (intro exI [of _ ?m'] exI [of _ nb]) simp
qed

text \<open>The walk stops at the first block, which is free.\<close>

lemma mem_align_alloc_split:
  assumes hs: "heap_state s bs" and al: "0 < unat align" "unat sz \<le> unat align" "2 * unat align \<le> snd (hd bs)"
    and sz: "unat sz \<le> heap_free s" and room: "length bs < heap_table s"
  shows "\<exists>p m'. mem_align_alloc sz align s = Some (p, s\<lparr>ram := m'\<rparr>)
    \<and> p = (let t = rg_addr (region s 0) + of_nat (snd (hd bs)) - align in t - t mod align)
    \<and> unat p mod unat align = 0 \<and> heap_base s \<le> unat p \<and> unat p + unat sz \<le> heap_base s + snd (hd bs)
    \<and> heap_blocks (s\<lparr>ram := m'\<rparr>) ((False, unat p - heap_base s) # (True, unat sz) # tl bs)
    \<and> same_outside (table (region s 0)) (ram s) m'"
proof -
  obtain d post e qs where ok: "heap_ok (ram s) (region s 0) ([] @ d # post) ([] @ e # qs)"
    and bs: "bs = map abs_block (e # qs)" and d: "rg_head (region s 0) = d" "d \<noteq> 0"
    using hs by (rule heap_stateE)
  note D = heap_okD [OF ok no_blocks]
  have "fst e \<noteq> BLOCK_USED" using hs bs by (simp add: heap_state_def)
  then obtain k where e: "e = (BLOCK_FREE, k)" using D(5,7) by (cases e) auto
  have k: "snd (hd bs) = unat k" using bs e by (simp add: abs_block_def)
  let ?addr = "rg_addr (region s 0)"
  let ?target = "?addr + k - align - (?addr + k - align) mod align"
  let ?off = "?target - ?addr"
  have addr: "?addr \<noteq> 0" "\<not> rg_free_size (region s 0) < sz"
    using hs sz by (simp_all add: heap_state_def word_less_nat_alt)
  have "heap_base s + unat k < 2 ^ 32" using hs bs e by (simp add: heap_state_def abs_block_def)
  note T = align_target [OF al(1,2) al(3) [unfolded k] this]
  have "length (d # post) < heap_table s" using room bs D(8) by simp
  moreover have "unat ?off + unat sz \<le> unat k" using T(2,3,4) by linarith
  ultimately obtain m' nb where sp: "align_split 0 d ?addr sz align s = (?addr + ?off, s\<lparr>ram := m'\<rparr>)"
    "heap_ok m' (region s 0) (d # nb # post) ((BLOCK_FREE, ?off) # (BLOCK_USED, sz) # qs)"
    "same_outside (table (region s 0)) (ram s) m'"
    using align_split_taken [OF ok [unfolded e] _ T(5) refl] by blast
  have "align_fits d ?addr sz align (ram s) = Some True"
    using al(1) T(6) D(5) e by (auto simp: align_fits_def)
  then have "align_walk 0 sz align d ?addr s = Some (Some ?target, s\<lparr>ram := m'\<rparr>)"
    using d(2) addr(1) sp(1) by (subst align_walk.simps) simp
  then have "mem_align_alloc sz align s = Some (?target, s\<lparr>ram := m'\<rparr>)"
    using addr d(1) by (simp add: mem_align_alloc_def region_order_4 [OF hs] Let_def)
  moreover have "heap_blocks (s\<lparr>ram := m'\<rparr>) ((False, unat ?target - heap_base s) # (True, unat sz) # tl bs)"
    using sp(2) T(4) bs unfolding heap_blocks_def
    by (intro exI [of _ "d # nb # post"] exI [of _ "(BLOCK_FREE, ?off) # (BLOCK_USED, sz) # qs"])
      (simp add: abs_block_def)
  moreover have "?target = (let t = ?addr + of_nat (snd (hd bs)) - align in t - t mod align)"
    unfolding Let_def k of_nat_unat ucast_id ..
  ultimately show ?thesis using T(1-3) sp(3) unfolding k
    by (intro exI [of _ ?target] exI [of _ m'] conjI)
qed

text \<open>An allocation from a free first block, without regard to its size.\<close>

lemma mem_alloc_head:
  assumes ok: "heap_ok (ram s) (region s 0) (d # x # post) ((BLOCK_FREE, k) # (BLOCK_USED, w) # qs)"
    and r: "region_order s = [0, 1, 2, 3]" "rg_addr (region s 0) \<noteq> 0" "n \<le> rg_free_size (region s 0)"
    and room: "length (d # x # post) < heap_table s"
  shows "\<exists>s'. mem_alloc n s = Some (rg_addr (region s 0) + (k - n), s')"
proof -
  have ok': "heap_ok (ram s) (region s 0) ([] @ d # x # post) ([] @ (BLOCK_FREE, k) # (BLOCK_USED, w) # qs)"
    using ok by simp
  note D = heap_okD [OF ok' no_blocks] and X = heap_okD2 [OF ok' no_blocks]
  have head: "rg_head (region s 0) = d"
    using ok by (simp add: heap_ok_def descriptors.linked_def slots_def)
  have dk: "blk_type (ram s) d = BLOCK_FREE" "blk_size (ram s) d = k" using D(5) by simp_all
  have "mem_fix_block d (ram s) = ram s" using D(6) X(3) by (intro mem_fix_block_same) simp
  then have fx: "fix_block d s = s" by (simp add: fix_block_def)
  have "length ((BLOCK_FREE, k) # (BLOCK_USED, w) # qs) < heap_table s" using room D(8) by simp
  with ok obtain nb where nb: "mem_new_block (region s 0) s = (nb, s)" "nb \<in> slots (region s 0)" "nb \<noteq> 0"
    "blk_type (ram s) nb = BLOCK_NOT_PRESENT" by (rule new_descriptor)
  have dn: "d \<noteq> nb" using dk(1) nb(4) by auto
  have "\<exists>s'. alloc_take 0 n d (rg_addr (region s 0)) s = (rg_addr (region s 0) + (k - n), s')"
    using nb D(1) dn dk by (simp add: alloc_take_def Let_def field_simps_slots)
  then have "\<exists>s'. alloc_walk 0 n d (rg_addr (region s 0)) s = Some (Some (rg_addr (region s 0) + (k - n)), s')"
    using D(2) dk(1) fx by (subst alloc_walk.simps) (auto simp: Let_def)
  then show ?thesis using r head by (auto simp: mem_alloc_def Let_def not_less)
qed

subsection \<open>Resizing the latest block\<close>

text \<open>The block behind a free first block is found in two steps.\<close>

lemma realloc_latest:
  assumes hs: "heap_state s ((False, k) # (True, w) # bs)" and ptr: "unat ptr = heap_base s + k"
    and sz: "unat sz \<le> heap_free s"
  obtains d x post K W qs where
    "heap_ok (ram s) (region s 0) ([] @ d # x # post) ([] @ (BLOCK_FREE, K) # (BLOCK_USED, W) # qs)"
    "unat K = k" "unat W = w" "bs = map abs_block qs" "mem_realloc ptr sz s = realloc_found 0 ptr sz x d ptr s"
proof -
  obtain d post0 e qs0 where ok: "heap_ok (ram s) (region s 0) ([] @ d # post0) ([] @ e # qs0)"
    and bs: "(False, k) # (True, w) # bs = map abs_block (e # qs0)" and d: "rg_head (region s 0) = d" "d \<noteq> 0"
    using hs by (rule heap_stateE)
  note D = heap_okD [OF ok no_blocks]
  from bs obtain e' qs where qs0: "qs0 = e' # qs" by auto
  then obtain x post where post0: "post0 = x # post" using D(8) by (cases post0) auto
  have "fst e \<noteq> BLOCK_USED" "fst e' = BLOCK_USED" using bs qs0 by (auto simp: abs_block_def)
  then obtain K W where e: "e = (BLOCK_FREE, K)" "e' = (BLOCK_USED, W)"
    using D(5,7) by (cases e; cases e') auto
  have kw: "unat K = k" "unat W = w" "bs = map abs_block qs" using bs e qs0 by (simp_all add: abs_block_def)
  have ok': "heap_ok (ram s) (region s 0) ([] @ d # x # post) ([] @ (BLOCK_FREE, K) # (BLOCK_USED, W) # qs)"
    using ok unfolding qs0 post0 e .
  note D = heap_okD [OF ok' no_blocks] and X = heap_okD2 [OF ok' no_blocks]
  have dk: "blk_type (ram s) d = BLOCK_FREE" "blk_size (ram s) d = K" using D(5) by simp_all
  have xw: "blk_type (ram s) x = BLOCK_USED" "blk_size (ram s) x = W" using X(3) by simp_all
  have "mem_fix_block d (ram s) = ram s" "mem_fix_block x (ram s) = ram s"
    using D(6) dk xw by (intro mem_fix_block_same; simp)+
  then have fx: "fix_block d s = s" "fix_block x s = s" by (simp_all add: fix_block_def)
  have bound: "heap_base s + (k + w) < 2 ^ 32" using hs by (simp add: heap_state_def)
  have "unat (rg_addr (region s 0) + K) = heap_base s + unat K"
    using bound kw(1) by (intro unat_add_no_wrap) simp
  then have pos: "rg_addr (region s 0) + K = ptr" using ptr kw(1) by (simp add: word_unat_eq_iff)
  have "unat (ptr + W) = unat ptr + unat W" using bound ptr kw(2) by (intro unat_add_no_wrap) simp
  then have target: "is_target (ram s) x ptr ptr" "\<not> is_target (ram s) d a b" for a b
    using dk xw by (simp_all add: is_target_def word_le_nat_alt)
  have "realloc_walk 0 ptr sz d 0 (rg_addr (region s 0)) s = realloc_walk 0 ptr sz x d ptr s"
    using d(2) fx target D(6) dk pos by (subst realloc_walk.simps) (simp add: Let_def)
  also have "\<dots> = map_option (\<lambda>(p, s'). (Some p, s')) (realloc_found 0 ptr sz x d ptr s)"
    using X(2) fx target by (subst realloc_walk.simps) (simp add: Let_def split: option.splits prod.splits)
  finally have walk: "realloc_walk 0 ptr sz d 0 (rg_addr (region s 0)) s
    = map_option (\<lambda>(p, s'). (Some p, s')) (realloc_found 0 ptr sz x d ptr s)" .
  have "rg_addr (region s 0) \<noteq> 0" "\<not> rg_free_size (region s 0) < sz"
    using hs sz by (simp_all add: heap_state_def word_less_nat_alt)
  then have "mem_realloc ptr sz s = realloc_found 0 ptr sz x d ptr s"
    using walk d(1) by (cases "realloc_found 0 ptr sz x d ptr s")
      (auto simp: mem_realloc_def region_order_4 [OF hs] Let_def)
  with that ok' kw show thesis by blast
qed

lemma heap_ok_third:
  assumes "heap_ok m rg ([] @ d # x # y # post) ([] @ e # e' # qs)"
  shows "\<exists>qs1. qs = (blk_type m y, blk_size m y) # qs1"
proof -
  have "length qs = Suc (length post)" using heap_ok_parts(5) [OF assms] by simp
  then obtain e1 qs1 where qs: "qs = e1 # qs1" by (cases qs) auto
  then show ?thesis using heap_okD(5) [of m rg "[d, x]" y post "[e, e']" e1 qs1] assms by simp
qed

lemma take_free_0 [simp]: "take_free i 0 s = s"
  by (simp add: take_free_def set_region_def region_def)

lemma unat_add_sub: "unat (a :: u32) + unat b < 2 ^ 32 \<Longrightarrow> c \<le> a \<Longrightarrow> unat (a - (c - b)) = unat a + unat b - unat c"
proof -
  assume ab: "unat a + unat b < 2 ^ 32" and ca: "c \<le> a"
  have u: "unat (a + b) = unat a + unat b" using ab by (rule unat_add_no_wrap)
  have "c \<le> a + b" using ca u by (simp add: word_le_nat_alt)
  then have "unat (a + b - c) = unat a + unat b - unat c" using u by (simp add: unat_sub_no_wrap)
  then show ?thesis by (simp add: algebra_simps)
qed

text \<open>Moving the border between the free first block and the one behind it, with the budget.\<close>

lemma heap_state_border:
  assumes hs: "heap_state s ((False, k) # (True, w) # bs)" and sz: "unat sz \<le> heap_free s"
    and ok: "heap_ok (ram s) (region s 0) ([] @ d # x # post) ([] @ (BLOCK_FREE, K) # (BLOCK_USED, W) # qs)"
    and kw: "unat K = k" "unat W = w" "bs = map abs_block qs"
    and f: "\<And>y. y \<in> slots (region s 0) \<Longrightarrow> blk_next m' y = blk_next (ram s) y
      \<and> blk_type m' y = blk_type (ram s) y
      \<and> blk_size m' y = (if y = d then K - (sz - W) else if y = x then sz else blk_size (ram s) y)"
  defines "s' \<equiv> take_free 0 (sz - W) (s\<lparr>ram := m'\<rparr>)"
  shows "heap_state s' ((False, k + w - unat sz) # (True, unat sz) # bs)"
    "heap_free s' = heap_free s + w - unat sz"
proof -
  have le: "heap_free s \<le> k" and bound: "heap_base s + (k + (w + total_size bs)) < 2 ^ 32"
    using hs by (simp_all add: heap_state_def)
  have "sz \<le> rg_free_size (region s 0)" "sz \<le> K" using sz le kw by (simp_all add: word_le_nat_alt)
  then have u: "unat (K - (sz - W)) = k + w - unat sz"
    "unat (rg_free_size (region s 0) - (sz - W)) = heap_free s + w - unat sz"
    using bound le kw by (simp_all add: unat_add_sub)
  then show hf: "heap_free s' = heap_free s + w - unat sz" by (simp add: s'_def)
  have "heap_ok m' (region s 0) ([] @ d # x # post) ([] @ (BLOCK_FREE, K - (sz - W)) # (BLOCK_USED, sz) # qs)"
    using u(1) sz le kw by (intro heap_ok_border [OF ok no_blocks _ f]) simp_all
  then have "\<exists>ds es. heap_ok (ram s') (region s' 0) ds es
      \<and> (False, k + w - unat sz) # (True, unat sz) # bs = map abs_block es"
    using u(1) kw(3) by (intro exI [of _ "d # x # post"] exI [of _ "(BLOCK_FREE, K - (sz - W)) # (BLOCK_USED, sz) # qs"])
      (simp add: s'_def abs_block_def)
  then show "heap_state s' ((False, k + w - unat sz) # (True, unat sz) # bs)"
    using hs hf sz le bound by (simp add: heap_state_def) (simp add: s'_def)
qed

text \<open>What \<open>mem_realloc\<close> does with the block when it takes from, or gives to, the block before.\<close>

lemma realloc_found_border:
  assumes ok: "heap_ok (ram s) (region s 0) ([] @ d # x # post) ([] @ (BLOCK_FREE, K) # (BLOCK_USED, W) # qs)"
    and sz: "unat sz < 2 ^ 31" "unat W < 2 ^ 31" "sz \<le> K"
    and tight: "unat W < unat sz \<Longrightarrow> \<not> (blk_next (ram s) x \<noteq> 0
      \<and> blk_type (ram s) (blk_next (ram s) x) = BLOCK_FREE \<and> sz - W \<le> blk_size (ram s) (blk_next (ram s) x))"
  obtains m' where
    "realloc_found 0 ptr sz x d ptr s = Some (ptr - (sz - W), take_free 0 (sz - W) (s\<lparr>ram := m'\<rparr>))"
    "same_outside (table (region s 0)) (ram s) m'"
    "\<And>y. y \<in> slots (region s 0) \<Longrightarrow> blk_next m' y = blk_next (ram s) y \<and> blk_type m' y = blk_type (ram s) y
      \<and> blk_size m' y = (if y = d then K - (sz - W) else if y = x then sz else blk_size (ram s) y)"
proof
  note D = heap_okD [OF ok no_blocks] and X = heap_okD2 [OF ok no_blocks]
  have dk: "blk_type (ram s) d = BLOCK_FREE" "blk_size (ram s) d = K"
    and xw: "blk_type (ram s) x = BLOCK_USED" "blk_size (ram s) x = W" using D(5) X(3) by simp_all
  let ?D = "sz - W"
  let ?m = "if unat W < unat sz then set_size d (K - ?D) (set_size x sz (ram s))
    else if unat sz < unat W then set_size x sz (set_size d (K - ?D) (ram s)) else ram s"
  note sgn = signed_difference [OF sz(1,2)]
  have prev: "?D \<le> blk_size (ram s) d" if "unat W < unat sz"
    using that sz(3) dk(2) by (simp add: unat_sub_no_wrap word_le_nat_alt)
  have minus: "blk_size (ram s) d + - ?D = K - ?D" "blk_size (ram s) x + ?D = sz" "blk_size (ram s) x - - ?D = sz"
    "ptr + - ?D = ptr - ?D" using dk(2) xw(2) by simp_all
  have eq: "sz = W" if "\<not> unat W < unat sz" "\<not> unat sz < unat W" using that by (simp add: word_unat_eq_iff)
  note fields = field_simps_slots [OF D(1) X(1)] field_simps_slots [OF X(1) D(1)]
  consider "unat W < unat sz" | "unat sz < unat W" | "\<not> unat W < unat sz" "\<not> unat sz < unat W" by blast
  then show "realloc_found 0 ptr sz x d ptr s = Some (ptr - ?D, take_free 0 ?D (s\<lparr>ram := ?m\<rparr>))"
  proof cases
    case 1
    then have "realloc_expand 0 ptr sz x d ptr ?D s = Some (ptr - ?D, take_free 0 ?D (s\<lparr>ram := ?m\<rparr>))"
      using tight prev D(2) dk X(6)
      unfolding realloc_expand_def Let_def by (simp only: if_False fields minus) simp
    with 1 sgn(1) show ?thesis unfolding realloc_found_def Let_def xw(2) by simp
  next
    case 2
    then have "realloc_shrink 0 x d ptr (- ?D) s = (ptr - ?D, take_free 0 ?D (s\<lparr>ram := ?m\<rparr>))"
      using D(2) dk(1) X(6)
      unfolding realloc_shrink_def Let_def by (simp only: fields minus minus_minus) (simp add: xw(2))
    with 2 sgn show ?thesis unfolding realloc_found_def Let_def xw(2) by simp
  next
    case 3
    then show ?thesis using sgn eq unfolding realloc_found_def Let_def xw(2) by simp
  qed
  show "blk_next ?m y = blk_next (ram s) y \<and> blk_type ?m y = blk_type (ram s) y
      \<and> blk_size ?m y = (if y = d then K - ?D else if y = x then sz else blk_size (ram s) y)"
    if "y \<in> slots (region s 0)" for y
  proof (cases "sz = W")
    case True
    then show ?thesis using dk(2) xw(2) by simp
  next
    case False
    then show ?thesis using that D(1) X(1,6) eq by (auto simp: field_simps_slots)
  qed
  show "same_outside (table (region s 0)) (ram s) ?m"
    using D(1) X(1) by (auto intro!: field_frames same_outside_refl)
qed

subsection \<open>Properties of the aligned allocation\<close>

text \<open>C23: An aligned allocation from the first block, when that is at least twice the alignment and
  the size does not exceed the alignment, returns an aligned address of a new block inside
  the first one; what is left of the first block behind the new one is given up.\<close>

theorem mem_align_alloc_aligned:
  assumes "heap_state s bs" "0 < unat align" "unat sz \<le> unat align" "2 * unat align \<le> snd (hd bs)"
    and "unat sz \<le> heap_free s" "length bs < heap_table s"
  shows "\<exists>p s'. mem_align_alloc sz align s = Some (p, s') \<and> unat p mod unat align = 0
    \<and> heap_base s \<le> unat p \<and> unat p + unat sz \<le> heap_base s + snd (hd bs)
    \<and> heap_blocks s' ((False, unat p - heap_base s) # (True, unat sz) # tl bs)
    \<and> same_outside (table (region s 0)) (ram s) (ram s')"
  using mem_align_alloc_split [OF assms] by fastforce

theorem mem_align_alloc_aligned_witness:
  "\<exists>p s'. mem_align_alloc 100 4096 (kernel_heap (\<lambda>_. 0)) = Some (p, s') \<and> unat p mod 4096 = 0
    \<and> heap_blocks s' [(False, unat p - 0x10000), (True, 100)]"
  using mem_align_alloc_aligned [OF kernel_heap_state(1) [of "\<lambda>_. 0"], of 4096 100]
  by (auto simp: kernel_heap_state)

text \<open>C24: An aligned allocation is not charged to the budget of the region.  After one of 4096 bytes on
  the heap of \<open>main\<close>, an allocation of all that the budget still allows returns an address
  below the heap.\<close>

theorem aligned_allocation_not_charged:
  "\<exists>s1 s2. mem_align_alloc 0x1000 0x1000 (kernel_heap m) = Some (0x7F7000, s1)
    \<and> heap_free s1 = heap_free (kernel_heap m)
    \<and> mem_alloc 0x7E8000 s1 = Some (0xF000, s2) \<and> unat (0xF000 :: u32) < heap_base s1"
proof -
  let ?s = "kernel_heap m"
  note K = kernel_heap_state [of m]
  have a: "rg_addr (region ?s 0) = 0x10000" using K(2) by (simp add: word_unat_eq_iff)
  have c: "0 < unat (0x1000 :: u32)" "unat (0x1000 :: u32) \<le> unat (0x1000 :: u32)"
    "2 * unat (0x1000 :: u32) \<le> snd (hd [(False, 8290304)])" "unat (0x1000 :: u32) \<le> heap_free ?s"
    "length [(False, 8290304 :: nat)] < heap_table ?s" by (simp_all add: K)
  from mem_align_alloc_split [OF K(1) c] obtain p m' where
    p: "mem_align_alloc 0x1000 0x1000 ?s = Some (p, ?s\<lparr>ram := m'\<rparr>)"
      "p = (let t = rg_addr (region ?s 0) + of_nat (snd (hd [(False, 8290304)])) - 0x1000 in t - t mod 0x1000)"
      "heap_blocks (?s\<lparr>ram := m'\<rparr>) ((False, unat p - heap_base ?s) # (True, unat (0x1000 :: u32)) # tl [(False, 8290304)])"
    by blast
  have p': "p = 0x7F7000" using p(2) by (simp add: a Let_def)
  let ?s1 = "?s\<lparr>ram := m'\<rparr>"
  from p(3) obtain ds es where ok: "heap_ok (ram ?s1) (region ?s1 0) ds es"
    and es: "map abs_block es = [(False, 8286208), (True, 4096)]"
    by (auto simp: heap_blocks_def p' K)
  have ty: "fst ` set es \<subseteq> {BLOCK_FREE, BLOCK_USED}" "length es = length ds"
    using heap_ok_parts [OF ok] by blast+
  from es obtain k w where es': "es = [(BLOCK_FREE, k), (BLOCK_USED, w)]" "unat k = 8286208"
    using ty(1) by (auto simp: abs_block_def map_eq_Cons_conv)
  then obtain d x where ds: "ds = [d, x]" using ty(2) by (cases ds; cases "tl ds") auto
  have k: "k = 8286208" using es'(2) by (simp add: word_unat_eq_iff)
  have "0x7E8000 \<le> rg_free_size (region ?s1 0)" using K(3) by (simp add: word_le_nat_alt)
  moreover have "region_order ?s1 = [0, 1, 2, 3]"
    using region_order_4 [OF K(1)] by (simp add: region_order_def)
  ultimately obtain s2 where "mem_alloc 0x7E8000 ?s1 = Some (rg_addr (region ?s1 0) + (k - 0x7E8000), s2)"
    using mem_alloc_head [of ?s1 d x "[]" k w "[]" "0x7E8000"] ok a K(4) unfolding ds es' by auto
  then have "mem_alloc 0x7E8000 ?s1 = Some (0xF000, s2)" by (simp add: a k)
  then show ?thesis using p(1) p' K(2) by (intro exI [of _ ?s1] exI [of _ s2]) simp
qed

subsection \<open>Properties of resizing\<close>

text \<open>C22: Resizing the latest block, when it shrinks or has no free room behind it, moves the border to
  the free block before it: the pointer that is returned has moved by the difference, but no
  byte of the block has been copied, so that the data are not where the pointer points.\<close>

theorem realloc_moves_pointer_not_data:
  assumes hs: "heap_state s ((False, k) # (True, w) # bs)" and ptr: "unat ptr = heap_base s + k"
    and sz: "unat sz \<le> heap_free s" "w < 2 ^ 31" "unat sz < 2 ^ 31"
    and tight: "w < unat sz \<Longrightarrow> bs = [] \<or> fst (hd bs) \<or> snd (hd bs) < unat sz - w"
  shows "\<exists>p s'. mem_realloc ptr sz s = Some (p, s') \<and> unat p = unat ptr + w - unat sz
    \<and> heap_state s' ((False, k + w - unat sz) # (True, unat sz) # bs)
    \<and> heap_free s' = heap_free s + w - unat sz
    \<and> same_outside (table (region s 0)) (ram s) (ram s')"
proof -
  obtain d x post K W qs where
    ok: "heap_ok (ram s) (region s 0) ([] @ d # x # post) ([] @ (BLOCK_FREE, K) # (BLOCK_USED, W) # qs)"
    and kw: "unat K = k" "unat W = w" "bs = map abs_block qs"
    and re: "mem_realloc ptr sz s = realloc_found 0 ptr sz x d ptr s"
    using realloc_latest [OF hs ptr sz(1)] .
  have le: "heap_free s \<le> k" and bound: "heap_base s + (k + (w + total_size bs)) < 2 ^ 32"
    using hs by (simp_all add: heap_state_def)
  have "sz \<le> ptr" "sz \<le> K" using sz(1) le ptr kw(1) by (simp_all add: word_le_nat_alt)
  then have p: "unat (ptr - (sz - W)) = unat ptr + w - unat sz"
    using ptr kw bound by (simp add: unat_add_sub)
  have tight': "\<not> (blk_next (ram s) x \<noteq> 0 \<and> blk_type (ram s) (blk_next (ram s) x) = BLOCK_FREE
      \<and> sz - W \<le> blk_size (ram s) (blk_next (ram s) x))" if less: "unat W < unat sz"
  proof (cases post)
    case (Cons y post1)
    from heap_ok_third [OF ok [unfolded Cons]] obtain qs1 where
      "qs = (blk_type (ram s) y, blk_size (ram s) y) # qs1" by blast
    moreover have "unat (sz - W) = unat sz - w"
      using less kw(2) by (simp add: unat_sub_no_wrap word_le_nat_alt)
    ultimately show ?thesis using heap_okD2(4) [OF ok no_blocks] tight less Cons kw(2,3)
      by (auto simp: abs_block_def word_le_nat_alt)
  qed (use heap_okD2(4) [OF ok no_blocks] in simp)
  from realloc_found_border [OF ok _ _ \<open>sz \<le> K\<close> this] obtain m' where
    m': "realloc_found 0 ptr sz x d ptr s = Some (ptr - (sz - W), take_free 0 (sz - W) (s\<lparr>ram := m'\<rparr>))"
      "same_outside (table (region s 0)) (ram s) m'"
      "\<And>y. y \<in> slots (region s 0) \<Longrightarrow> blk_next m' y = blk_next (ram s) y \<and> blk_type m' y = blk_type (ram s) y
        \<and> blk_size m' y = (if y = d then K - (sz - W) else if y = x then sz else blk_size (ram s) y)"
    using sz kw(2) by blast
  then show ?thesis
    using heap_state_border [OF hs sz(1) ok kw m'(3)] p re
    by (intro exI [of _ "ptr - (sz - W)"] exI [of _ "take_free 0 (sz - W) (s\<lparr>ram := m'\<rparr>)"] conjI) simp_all
qed

text \<open>The heap of \<open>main\<close> after one allocation.\<close>

lemma kernel_heap_one_block:
  obtains s where "heap_state s [(False, 8290240), (True, 64)]" "heap_base s = 0x10000"
    "heap_free s = 8290240" "heap_table s = 8192"
proof -
  note k = kernel_heap_state [of "\<lambda>_. 0"]
  obtain p s where s: "heap_state s (a_alloc (unat (64 :: u32)) [(False, 8290304)])"
    "region s 0 = (region (kernel_heap (\<lambda>_. 0)) 0)\<lparr>rg_free_size := rg_free_size (region (kernel_heap (\<lambda>_. 0)) 0) - 64\<rparr>"
    using mem_alloc_taken [OF k(1), of 64] k by auto
  have "(64 :: u32) \<le> rg_free_size (region (kernel_heap (\<lambda>_. 0)) 0)" using k(3) by (simp add: word_le_nat_alt)
  with s(2) k have "heap_free s = 8290240" "heap_table s = 8192" "heap_base s = 0x10000"
    by (simp_all add: unat_sub_no_wrap)
  with s(1) that show thesis by (simp add: a_alloc_def)
qed

theorem realloc_moves_pointer_not_data_witness:
  "\<exists>s s' p. mem_realloc 0x7F7FC0 16 s = Some (p, s') \<and> unat p = unat (0x7F7FC0 :: u32) + 48
    \<and> heap_state s' [(False, 8290288), (True, 16)]"
proof -
  obtain s where s: "heap_state s [(False, 8290240), (True, 64)]" "heap_base s = 0x10000"
    "heap_free s = 8290240" "heap_table s = 8192" by (rule kernel_heap_one_block)
  from realloc_moves_pointer_not_data [OF s(1), of "0x7F7FC0" 16] s show ?thesis by auto
qed

end
