(* ===== verification/Heap_Realloc.thy ===== *)
theory Heap_Realloc
  imports Heap_Resize
begin

text \<open>
  \<open>mem_realloc\<close> on the abstract heap: the block that it takes for its own, wherever that is, and
  how the border to a neighbour moves when one of them is free.
\<close>

subsection \<open>The abstract operation\<close>

text \<open>
  The walk to the first block in use at or above \<open>p\<close>: what is before its left neighbour, that
  neighbour, the position and the size of the block, and what is behind.
\<close>

function a_find :: "nat \<Rightarrow> nat \<Rightarrow> ablock \<Rightarrow> ablock list \<Rightarrow> (ablock list \<times> ablock \<times> nat \<times> nat \<times> ablock list) option" where
  "a_find p pos h bs =
     (case a_fix bs of [] \<Rightarrow> None
      | b # r \<Rightarrow>
        if fst b \<and> p \<le> pos then Some ([], h, pos, snd b, r)
        else map_option (apfst ((#) h)) (a_find p (pos + snd b) b r))"
  by pat_completeness auto
termination
proof (relation "measure (\<lambda>(p, pos, h, bs). length bs)", goal_cases)
  case (2 p pos h bs b r)
  then show ?case using length_a_fix [of bs] by simp
qed simp

declare a_find.simps [simp del]

definition free_before :: "nat \<Rightarrow> ablock \<Rightarrow> bool" where
  "free_before n h \<longleftrightarrow> \<not> fst h \<and> n \<le> snd h"

definition free_after :: "nat \<Rightarrow> ablock list \<Rightarrow> bool" where
  "free_after n r \<longleftrightarrow> r \<noteq> [] \<and> free_before n (hd r)"

text \<open>The new address of a block of \<open>w\<close> bytes at \<open>pos\<close> that shall have \<open>sz\<close>, and the blocks from its left
  neighbour on; nothing when no neighbour can help.\<close>

definition a_border :: "nat \<Rightarrow> nat \<Rightarrow> ablock \<Rightarrow> nat \<Rightarrow> ablock list \<Rightarrow> (nat \<times> ablock list) option" where
  "a_border sz pos h w r =
     (if w < sz
      then if free_after (sz - w) r
           then Some (pos, h # (True, sz) # (False, snd (hd r) - (sz - w)) # tl r)
           else if free_before (sz - w) h
           then Some (pos - (sz - w), (False, snd h - (sz - w)) # (True, sz) # r)
           else None
      else if sz < w
      then if free_before 0 h
           then Some (pos + (w - sz), (False, snd h + (w - sz)) # (True, sz) # r)
           else if free_after 0 r
           then Some (pos, h # (True, sz) # (False, snd (hd r) + (w - sz)) # tl r)
           else None
      else Some (pos, h # (True, w) # r))"

definition a_realloc :: "nat \<Rightarrow> nat \<Rightarrow> nat \<Rightarrow> ablock list \<Rightarrow> (nat \<times> nat \<times> ablock list) option" where
  "a_realloc base p sz bs =
     (case a_fix bs of [] \<Rightarrow> None
      | h # r \<Rightarrow> (case a_find p (base + snd h) h r of None \<Rightarrow> None
         | Some (pr, g, pos, w, r') \<Rightarrow> map_option (\<lambda>(q, bs'). (q, w, pr @ bs')) (a_border sz pos g w r')))"

text \<open>What the walk finds, on the addresses of the blocks in use.\<close>

lemma a_find_live:
  assumes "a_find p pos h bs = Some (pr, g, pos', w, r)" "pos = base + snd h"
  shows "p \<le> pos' \<and> pos' = base + total_size (pr @ [g])
    \<and> live base (h # bs) = live base (pr @ [g]) @ (pos', w) # live (pos' + w) r
    \<and> total_size (h # bs) = total_size (pr @ [g]) + w + total_size r \<and> hd (pr @ [g]) = h"
  using assms
proof (induction p pos h bs arbitrary: base pr rule: a_find.induct)
  case (1 p pos h bs)
  obtain uh kh where h: "h = (uh, kh)" by fastforce
  from 1(2) obtain u k bs' where f: "a_fix bs = (u, k) # bs'"
    by (subst (asm) a_find.simps) (auto split: list.splits)
  have l: "live q bs = live q ((u, k) # bs')" for q using live_a_fix [of q bs] f by simp
  have t: "total_size bs = k + total_size bs'" using total_a_fix [of bs] f by simp
  show ?case
  proof (cases "u \<and> p \<le> pos")
    case True
    with 1(2) have "pr = []" "g = h" "pos' = pos" "w = k" "r = bs'"
      by (subst (asm) a_find.simps; simp add: f)+
    with True 1(3) l t show ?thesis by (simp add: h)
  next
    case False
    with 1(2) obtain pr' where r: "a_find p (pos + k) (u, k) bs' = Some (pr', g, pos', w, r)" "pr = h # pr'"
      by (subst (asm) a_find.simps) (auto simp: f)
    from 1(1) [OF f, of pr' pos] False r(1) have
      "p \<le> pos' \<and> pos' = pos + total_size (pr' @ [g])
        \<and> live pos ((u, k) # bs') = live pos (pr' @ [g]) @ (pos', w) # live (pos' + w) r
        \<and> total_size ((u, k) # bs') = total_size (pr' @ [g]) + w + total_size r" by simp
    with r(2) l t 1(3) show ?thesis by (simp add: h)
  qed
qed

text \<open>Moving a border changes the address and the size of this block and nothing else.\<close>

lemma a_border_live:
  assumes "a_border sz pos g w r = Some (q, bs)" "pos = base + snd g"
  shows "live base bs = live base [g] @ (q, sz) # live (pos + w) r" "total_size bs = snd g + w + total_size r"
    "base \<le> q" "q + sz \<le> pos + w + total_size r"
proof -
  obtain u k where g: "g = (u, k)" by fastforce
  have "live base bs = live base [g] @ (q, sz) # live (pos + w) r \<and> total_size bs = snd g + w + total_size r
    \<and> base \<le> q \<and> q + sz \<le> pos + w + total_size r"
    using assms by (cases r; cases "hd r")
      (auto simp: a_border_def g free_after_def free_before_def ac_simps split: if_splits)
  then show "live base bs = live base [g] @ (q, sz) # live (pos + w) r" "total_size bs = snd g + w + total_size r"
    "base \<le> q" "q + sz \<le> pos + w + total_size r" by blast+
qed

lemma live_append: "live base (xs @ ys) = live base xs @ live (base + total_size xs) ys"
  by (induction xs arbitrary: base) (auto simp: add.assoc)

lemma a_realloc_live:
  assumes "a_realloc base p sz bs = Some (q, w, bs')"
  obtains xs ys pos where "live base bs = xs @ (pos, w) # ys" "live base bs' = xs @ (q, sz) # ys"
    "p \<le> pos" "total_size bs' = total_size bs" "base \<le> q" "q + sz \<le> base + total_size bs"
proof -
  from assms obtain h r pr g pos r' bs1 where
    f: "a_fix bs = h # r" "a_find p (base + snd h) h r = Some (pr, g, pos, w, r')"
    "a_border sz pos g w r' = Some (q, bs1)" "bs' = pr @ bs1"
    by (auto simp: a_realloc_def split: list.splits option.splits)
  note A = a_find_live [OF f(2) refl]
  have pos: "pos = base + total_size pr + snd g" using A by simp
  note B = a_border_live [OF f(3) pos]
  have l: "live base bs = live base (h # r)" "total_size bs = total_size (h # r)"
    using live_a_fix [of base bs] total_a_fix [of bs] f(1) by simp_all
  show thesis
  proof (rule that)
    show "live base bs = live base (pr @ [g]) @ (pos, w) # live (pos + w) r'" using l A by simp
    show "live base bs' = live base (pr @ [g]) @ (q, sz) # live (pos + w) r'"
      using B(1) f(4) by (simp add: live_append)
    show "p \<le> pos" using A by simp
    show "total_size bs' = total_size bs" using l A B(2) f(4) by simp
    show "base \<le> q" using B(3) by simp
    show "q + sz \<le> base + total_size bs" using B(4) l A pos by simp
  qed
qed

subsection \<open>The walk\<close>

text \<open>The walk on memory stops at the block that the abstract one finds, with all merges done.\<close>

lemma realloc_walk_finds:
  assumes "heap_ok (ram s) rg (pre @ h # post) (ps @ eh # qs)" "length ps = length pre"
    and "unat bptr + total_size (map abs_block qs) < 2 ^ 32"
    and "a_find (unat ptr) (unat bptr) (abs_block eh) (map abs_block qs) = Some (pr, g, pos, w, r)"
  shows "\<exists>m' pre' h' x post' ps' eh' W qs' b.
    realloc_walk i ptr sz (hd (post @ [0])) h bptr s = map_option (apfst Some) (realloc_found i ptr sz x h' b (s\<lparr>ram := m'\<rparr>))
    \<and> heap_ok m' rg (pre' @ h' # x # post') (ps' @ eh' # (BLOCK_USED, W) # qs') \<and> length ps' = length pre'
    \<and> same_outside (table rg) (ram s) m' \<and> map abs_block ps' = map abs_block ps @ pr \<and> abs_block eh' = g
    \<and> unat b = pos \<and> unat W = w \<and> map abs_block qs' = r"
  using assms
proof (induction "length post" arbitrary: s pre h post ps eh qs bptr pr rule: less_induct)
  case less
  note ok = less.prems(1) and len = less.prems(2) and bound = less.prems(3) and find = less.prems(4)
  show ?case
  proof (cases post)
    case Nil
    then have "qs = []" using heap_okD(8) [OF ok len] by simp
    with find show ?thesis by (simp add: a_find.simps)
  next
    case (Cons x post1)
    then obtain e qs1 where qs: "qs = e # qs1" using heap_okD(8) [OF ok len] by (cases qs) auto
    let ?m = "mem_fix_block x (ram s)" and ?s = "fix_block x s"
    have "heap_ok (ram s) rg ((pre @ [h]) @ x # post1) ((ps @ [eh]) @ e # qs1)"
      "length (ps @ [eh]) = length (pre @ [h])" using ok len Cons qs by simp_all
    from heap_ok_fix [OF this] obtain post' e' qs' where
      fx: "heap_ok ?m rg ((pre @ [h]) @ x # post') ((ps @ [eh]) @ e' # qs')"
      "map abs_block (e' # qs') = a_fix (map abs_block qs)" "length post' \<le> length post1"
      unfolding qs by auto
    then have okx: "heap_ok ?m rg (pre @ h # x # post') (ps @ eh # e' # qs')" by simp
    note X = heap_okD2 [OF okx len]
    have fr: "same_outside (table rg) (ram s) ?m"
      using ok len Cons qs mem_fix_block_frame [of "ram s" rg "pre @ [h]" x post1 "ps @ [eh]" e qs1]
      by simp
    obtain t W where e': "e' = (t, W)" by fastforce
    have tw: "blk_type ?m x = t" "blk_size ?m x = W" using X(3) e' by simp_all
    have tot: "total_size (map abs_block qs) = unat W + total_size (map abs_block qs')"
      using total_a_fix [of "map abs_block qs"] fx(2) e' by (simp flip: fx(2) add: abs_block_def)
    then have nxt: "unat (bptr + W) = unat bptr + unat W" using bound by (intro unat_add_no_wrap) simp
    have target: "is_target ?m x bptr ptr \<longleftrightarrow> t = BLOCK_USED \<and> unat ptr \<le> unat bptr"
      using tw nxt by (auto simp: is_target_def word_le_nat_alt)
    have rec: "a_find (unat ptr) (unat bptr) (abs_block eh) (map abs_block qs)
      = (if t = BLOCK_USED \<and> unat ptr \<le> unat bptr then Some ([], abs_block eh, unat bptr, unat W, map abs_block qs')
         else map_option (apfst ((#) (abs_block eh)))
           (a_find (unat ptr) (unat (bptr + W)) (abs_block e') (map abs_block qs')))"
      by (subst a_find.simps) (simp add: e' nxt abs_block_def flip: fx(2))
    show ?thesis
    proof (cases "is_target ?m x bptr ptr")
      case True
      then have t: "t = BLOCK_USED" "unat ptr \<le> unat bptr" using target by simp_all
      with rec find have r: "pr = []" "g = abs_block eh" "pos = unat bptr" "w = unat W" "r = map abs_block qs'" by simp_all
      have "realloc_walk i ptr sz (hd (post @ [0])) h bptr s
          = map_option (apfst Some) (realloc_found i ptr sz x h bptr (s\<lparr>ram := ?m\<rparr>))"
        using True X(2) Cons
        by (subst realloc_walk.simps) (auto simp: Let_def fix_block_def split: option.splits prod.splits)
      then show ?thesis using okx len fr r t(1) e'
        by (intro exI [of _ ?m] exI [of _ pre] exI [of _ h] exI [of _ x] exI [of _ post'] exI [of _ ps] exI [of _ eh]
          exI [of _ W] exI [of _ qs'] exI [of _ bptr]) simp
    next
      case False
      have nx: "blk_next ?m x = hd (post' @ [0])" by (rule X(4))
      have walk: "realloc_walk i ptr sz (hd (post @ [0])) h bptr s
          = realloc_walk i ptr sz (hd (post' @ [0])) x (bptr + W) ?s"
        using False X(2) Cons tw nx by (subst realloc_walk.simps) (simp add: Let_def)
      have "\<not> (t = BLOCK_USED \<and> unat ptr \<le> unat bptr)" using False target by blast
      from find [unfolded rec if_not_P [OF this]] obtain pr' where
        pr': "a_find (unat ptr) (unat (bptr + W)) (abs_block e') (map abs_block qs') = Some (pr', g, pos, w, r)"
        "pr = abs_block eh # pr'" by (auto simp: map_option_eq_Some)
      have l: "length post' < length post" using fx(3) Cons by simp
      have o: "heap_ok (ram ?s) rg ((pre @ [h]) @ x # post') ((ps @ [eh]) @ e' # qs')" using fx(1) by simp
      have n: "length (ps @ [eh]) = length (pre @ [h])" using len by simp
      have b: "unat (bptr + W) + total_size (map abs_block qs') < 2 ^ 32" using bound tot nxt by simp
      have s: "?s\<lparr>ram := m'\<rparr> = s\<lparr>ram := m'\<rparr>" for m' by (simp add: fix_block_def)
      have "same_outside (table rg) (ram s) m'" if "same_outside (table rg) (ram ?s) m'" for m'
        using fr that by (auto intro: same_outside_trans)
      moreover obtain m' pre1 h1 x1 post2 ps1 eh1 W1 qs2 b1 where
        "realloc_walk i ptr sz (hd (post' @ [0])) x (bptr + W) ?s
          = map_option (apfst Some) (realloc_found i ptr sz x1 h1 b1 (?s\<lparr>ram := m'\<rparr>))"
        "heap_ok m' rg (pre1 @ h1 # x1 # post2) (ps1 @ eh1 # (BLOCK_USED, W1) # qs2)" "length ps1 = length pre1"
        "same_outside (table rg) (ram ?s) m'" "map abs_block ps1 = map abs_block (ps @ [eh]) @ pr'" "abs_block eh1 = g"
        "unat b1 = pos" "unat W1 = w" "map abs_block qs2 = r"
        using less.hyps [OF l o n b pr'(1)] by blast
      ultimately show ?thesis unfolding walk s pr'(2)
        by (intro exI [of _ m'] exI [of _ pre1] exI [of _ h1] exI [of _ x1] exI [of _ post2] exI [of _ ps1]
          exI [of _ eh1] exI [of _ W1] exI [of _ qs2] exI [of _ b1]) simp
    qed
  qed
qed

subsection \<open>The border\<close>

lemma neighbour_free:
  assumes ok: "heap_ok m rg (pre @ h # x # post) (ps @ eh # e # qs)" and len: "length ps = length pre"
  shows "blk_next m x \<noteq> 0 \<and> blk_type m (blk_next m x) = BLOCK_FREE \<and> n \<le> blk_size m (blk_next m x)
      \<longleftrightarrow> free_after (unat n) (map abs_block qs)"
    "h \<noteq> 0 \<and> blk_type m h = BLOCK_FREE \<and> n \<le> blk_size m h \<longleftrightarrow> free_before (unat n) (abs_block eh)"
proof -
  note H = heap_okD [OF ok len] and X = heap_okD2 [OF ok len]
  show "h \<noteq> 0 \<and> blk_type m h = BLOCK_FREE \<and> n \<le> blk_size m h \<longleftrightarrow> free_before (unat n) (abs_block eh)"
    using H(2,5,7) by (auto simp: free_before_def abs_block_def word_le_nat_alt)
  show "blk_next m x \<noteq> 0 \<and> blk_type m (blk_next m x) = BLOCK_FREE \<and> n \<le> blk_size m (blk_next m x)
      \<longleftrightarrow> free_after (unat n) (map abs_block qs)"
  proof (cases post)
    case Nil
    moreover from this have "qs = []" using H(8) by simp
    ultimately show ?thesis using X(4) by (simp add: free_after_def)
  next
    case (Cons y post1)
    moreover from this obtain e1 qs1 where qs: "qs = e1 # qs1" using H(8) by (cases qs) auto
    ultimately have "heap_ok m rg ((pre @ [h, x]) @ y # post1) ((ps @ [eh, e]) @ e1 # qs1)"
      "length (ps @ [eh, e]) = length (pre @ [h, x])" using ok len by simp_all
    note Y = heap_okD [OF this]
    show ?thesis using X(4) Y(2,5,7) Cons qs
      by (auto simp: free_after_def free_before_def abs_block_def word_le_nat_alt)
  qed
qed

text \<open>The arithmetic of a border, for either sign of the difference.\<close>

lemma unat_border:
  assumes "unat (k :: u32) + unat w < 2 ^ 32" "unat sz \<le> unat k + unat w"
  shows "unat (k - (sz - w)) = unat k + unat w - unat sz"
proof -
  have u: "unat (k + w) = unat k + unat w" using assms(1) by (rule unat_add_no_wrap)
  then have "sz \<le> k + w" using assms(2) by (simp add: word_le_nat_alt)
  then have "unat (k + w - sz) = unat k + unat w - unat sz" by (simp add: unat_sub_no_wrap u)
  then show ?thesis by (simp add: algebra_simps)
qed

text \<open>The block and its left neighbour.\<close>

lemma border_before:
  assumes ok: "heap_ok m rg (pre @ h # x # post) (ps @ (BLOCK_FREE, K) # (BLOCK_USED, W) # qs)"
    and len: "length ps = length pre" and le: "unat sz \<le> unat K + unat W"
    and m': "m' = set_size h (K - (sz - W)) (set_size x sz m) \<or> m' = set_size x sz (set_size h (K - (sz - W)) m)"
  shows "heap_ok m' rg (pre @ h # x # post) (ps @ (BLOCK_FREE, K - (sz - W)) # (BLOCK_USED, sz) # qs)"
    "same_outside (table rg) m m'" "unat (K - (sz - W)) = unat K + unat W - unat sz"
proof -
  note H = heap_okD [OF ok len] and X = heap_okD2 [OF ok len]
  have kw: "unat K + unat W < 2 ^ 32" using ok by (simp add: heap_ok_def abs_block_def)
  then show u: "unat (K - (sz - W)) = unat K + unat W - unat sz" using le by (rule unat_border)
  show "heap_ok m' rg (pre @ h # x # post) (ps @ (BLOCK_FREE, K - (sz - W)) # (BLOCK_USED, sz) # qs)"
    using m' H(1) X(1,6) u le by (intro heap_ok_border [OF ok len]) (auto simp: field_simps_slots)
  show "same_outside (table rg) m m'" using m' H(1) X(1) by (auto intro!: field_frames same_outside_refl)
qed

text \<open>The block and its right neighbour.\<close>

lemma border_after:
  assumes ok: "heap_ok m rg (pre @ x # y # post) (ps @ (BLOCK_USED, W) # (BLOCK_FREE, J) # qs)"
    and len: "length ps = length pre" and le: "unat sz \<le> unat W + unat J"
    and m': "m' = set_size y (J - (sz - W)) (set_size x sz m) \<or> m' = set_size x sz (set_size y (J - (sz - W)) m)"
  shows "heap_ok m' rg (pre @ x # y # post) (ps @ (BLOCK_USED, sz) # (BLOCK_FREE, J - (sz - W)) # qs)"
    "same_outside (table rg) m m'" "unat (J - (sz - W)) = unat W + unat J - unat sz"
proof -
  note H = heap_okD [OF ok len] and X = heap_okD2 [OF ok len]
  have kw: "unat J + unat W < 2 ^ 32" using ok by (simp add: heap_ok_def abs_block_def)
  then show u: "unat (J - (sz - W)) = unat W + unat J - unat sz" using le by (simp add: unat_border add.commute)
  show "heap_ok m' rg (pre @ x # y # post) (ps @ (BLOCK_USED, sz) # (BLOCK_FREE, J - (sz - W)) # qs)"
    using m' H(1) X(1,6) u le by (intro heap_ok_border [OF ok len]) (auto simp: field_simps_slots)
  show "same_outside (table rg) m m'" using m' H(1) X(1) by (auto intro!: field_frames same_outside_refl)
qed

text \<open>What \<open>mem_realloc\<close> does with the block it has found.\<close>

lemma free_afterE:
  assumes ok: "heap_ok m rg (pre @ h # x # post) (ps @ eh # e # qs)" and len: "length ps = length pre"
    and "free_after n (map abs_block qs)"
  obtains y post1 J qs1 where "post = y # post1" "qs = (BLOCK_FREE, J) # qs1" "n \<le> unat J" "y \<noteq> x"
    "blk_next m x = y" "y \<noteq> 0" "blk_type m y = BLOCK_FREE" "blk_size m y = J" "y \<in> slots rg"
proof -
  have X: "blk_next m x = hd (post @ [0])" using heap_okD2 [OF ok len] by simp
  from assms(3) obtain e1 qs1 where qs: "qs = e1 # qs1" "\<not> fst (abs_block e1)" "n \<le> snd (abs_block e1)"
    by (cases qs) (auto simp: free_after_def free_before_def)
  moreover obtain y post1 where post: "post = y # post1" using heap_okD(8) [OF ok len] qs(1) by (cases post) auto
  ultimately have o: "heap_ok m rg ((pre @ [h, x]) @ y # post1) ((ps @ [eh, e]) @ e1 # qs1)"
    and l: "length (ps @ [eh, e]) = length (pre @ [h, x])" using ok len by simp_all
  note Y = heap_okD [OF o l]
  have "e1 = (BLOCK_FREE, blk_size m y)" using Y(5,7) qs(2) by (auto simp: abs_block_def)
  with that [of y post1 "blk_size m y" qs1] post qs X Y show thesis by (auto simp: abs_block_def)
qed

lemma realloc_found_after:
  assumes ok: "heap_ok (ram s) (region s 0) (pre @ h # x # post) (ps @ eh # (BLOCK_USED, W) # qs)"
    and len: "length ps = length pre" and sz: "unat sz < 2 ^ 31" "unat W < 2 ^ 31"
    and fr: "free_after (unat sz - unat W) (map abs_block qs)"
      "unat sz < unat W \<Longrightarrow> \<not> free_before 0 (abs_block eh)" and ne: "unat sz \<noteq> unat W"
  shows "\<exists>m' ds es. realloc_found 0 ptr sz x h b s = Some (b, take_free 0 (sz - W) (s\<lparr>ram := m'\<rparr>))
    \<and> heap_ok m' (region s 0) ds es \<and> same_outside (table (region s 0)) (ram s) m'
    \<and> map abs_block es = map abs_block ps @ abs_block eh # (True, unat sz)
        # (False, unat W + snd (hd (map abs_block qs)) - unat sz) # tl (map abs_block qs)"
proof -
  from free_afterE [OF ok len fr(1)] obtain y post1 J qs1 where
    y: "post = y # post1" "qs = (BLOCK_FREE, J) # qs1" "unat sz - unat W \<le> unat J" "y \<noteq> x"
    "blk_next (ram s) x = y" "y \<noteq> 0" "blk_type (ram s) y = BLOCK_FREE" "blk_size (ram s) y = J" "y \<in> slots (region s 0)"
    by blast
  have o: "heap_ok (ram s) (region s 0) ((pre @ [h]) @ x # y # post1) ((ps @ [eh]) @ (BLOCK_USED, W) # (BLOCK_FREE, J) # qs1)"
    and l: "length (ps @ [eh]) = length (pre @ [h])" using ok len y by simp_all
  note X = heap_okD2 [OF ok len] and sgn = signed_difference [OF sz]
  have xw: "blk_size (ram s) x = W" using X(3) by simp
  have le: "unat sz \<le> unat W + unat J" using y(3) by simp
  let ?D = "sz - W"
  define m' where "m' = (if unat W < unat sz then set_size y (J - ?D) (set_size x sz (ram s))
    else set_size x sz (set_size y (J - ?D) (ram s)))"
  have m: "m' = set_size y (J - ?D) (set_size x sz (ram s)) \<or> m' = set_size x sz (set_size y (J - ?D) (ram s))"
    by (simp add: m'_def)
  note B = border_after [OF o l le m]
  note fields = field_simps_slots [OF X(1) y(9)] field_simps_slots [OF y(9) X(1)]
  have "realloc_found 0 ptr sz x h b s = Some (b, take_free 0 ?D (s\<lparr>ram := m'\<rparr>))"
  proof (cases "unat W < unat sz")
    case True
    then have "?D \<le> J" using y(3) by (simp add: word_le_nat_alt unat_sub_no_wrap)
    then have "realloc_expand 0 ptr sz x h b ?D s = Some (b, take_free 0 ?D (s\<lparr>ram := m'\<rparr>))"
      using y xw X(1) True unfolding realloc_expand_def Let_def m'_def by (simp add: field_simps_slots)
    with True sgn(1) show ?thesis unfolding realloc_found_def Let_def xw by simp
  next
    case False
    with ne have lt: "unat sz < unat W" by simp
    from neighbour_free(2) [OF ok len, of 0] fr(2) [OF lt] have "\<not> (h \<noteq> 0 \<and> blk_type (ram s) h = BLOCK_FREE)" by simp
    then have "realloc_shrink 0 x h b (- ?D) s = (b, take_free 0 ?D (s\<lparr>ram := m'\<rparr>))"
      using y xw X(1) lt unfolding realloc_shrink_def Let_def m'_def by (auto simp: field_simps_slots diff_diff_eq2 add_diff_eq)
    with lt sgn show ?thesis unfolding realloc_found_def Let_def xw by simp
  qed
  moreover have "map abs_block ((ps @ [eh]) @ (BLOCK_USED, sz) # (BLOCK_FREE, J - ?D) # qs1)
    = map abs_block ps @ abs_block eh # (True, unat sz)
        # (False, unat W + snd (hd (map abs_block qs)) - unat sz) # tl (map abs_block qs)"
    using y(2) B(3) by (simp add: abs_block_def)
  ultimately show ?thesis using B(1,2) by blast
qed

lemma realloc_found_before:
  assumes ok: "heap_ok (ram s) (region s 0) (pre @ h # x # post) (ps @ eh # (BLOCK_USED, W) # qs)"
    and len: "length ps = length pre" and sz: "unat sz < 2 ^ 31" "unat W < 2 ^ 31"
    and fr: "free_before (unat sz - unat W) (abs_block eh)"
      "unat W < unat sz \<Longrightarrow> \<not> free_after (unat sz - unat W) (map abs_block qs)" and ne: "unat sz \<noteq> unat W"
  shows "\<exists>m' ds es. realloc_found 0 ptr sz x h b s = Some (b - (sz - W), take_free 0 (sz - W) (s\<lparr>ram := m'\<rparr>))
    \<and> heap_ok m' (region s 0) ds es \<and> same_outside (table (region s 0)) (ram s) m'
    \<and> map abs_block es = map abs_block ps @ (False, snd (abs_block eh) + unat W - unat sz) # (True, unat sz) # map abs_block qs"
proof -
  note H = heap_okD [OF ok len] and X = heap_okD2 [OF ok len] and sgn = signed_difference [OF sz]
  obtain K where eh: "eh = (BLOCK_FREE, K)" using fr(1) H(5,7) by (cases eh) (auto simp: free_before_def abs_block_def)
  have K: "unat sz - unat W \<le> unat K" using fr(1) by (simp add: eh free_before_def abs_block_def)
  have o: "heap_ok (ram s) (region s 0) (pre @ h # x # post) (ps @ (BLOCK_FREE, K) # (BLOCK_USED, W) # qs)"
    using ok eh by simp
  have hk: "blk_type (ram s) h = BLOCK_FREE" "blk_size (ram s) h = K" and xw: "blk_size (ram s) x = W"
    using H(5) X(3) eh by simp_all
  have le: "unat sz \<le> unat K + unat W" using K by simp
  let ?D = "sz - W"
  define m' where "m' = (if unat W < unat sz then set_size h (K - ?D) (set_size x sz (ram s))
    else set_size x sz (set_size h (K - ?D) (ram s)))"
  have m: "m' = set_size h (K - ?D) (set_size x sz (ram s)) \<or> m' = set_size x sz (set_size h (K - ?D) (ram s))"
    by (simp add: m'_def)
  note B = border_before [OF o len le m]
  have "realloc_found 0 ptr sz x h b s = Some (b - ?D, take_free 0 ?D (s\<lparr>ram := m'\<rparr>))"
  proof (cases "unat W < unat sz")
    case True
    have D: "unat ?D = unat sz - unat W" using True by (simp add: unat_sub_no_wrap word_le_nat_alt)
    from neighbour_free(1) [OF ok len, of ?D] fr(2) [OF True] D
    have "\<not> (blk_next (ram s) x \<noteq> 0 \<and> blk_type (ram s) (blk_next (ram s) x) = BLOCK_FREE
      \<and> ?D \<le> blk_size (ram s) (blk_next (ram s) x))" by simp
    moreover have "?D \<le> K" using K D by (simp add: word_le_nat_alt)
    ultimately have "realloc_expand 0 ptr sz x h b ?D s = Some (b - ?D, take_free 0 ?D (s\<lparr>ram := m'\<rparr>))"
      using H(1,2) X(1,6) hk xw True unfolding realloc_expand_def Let_def m'_def
      by (simp only: if_False) (simp add: field_simps_slots)
    with True sgn(1) show ?thesis unfolding realloc_found_def Let_def xw by simp
  next
    case False
    with ne have lt: "unat sz < unat W" by simp
    have "realloc_shrink 0 x h b (- ?D) s = (b - ?D, take_free 0 ?D (s\<lparr>ram := m'\<rparr>))"
      using H(1,2) X(1,6) hk xw lt unfolding realloc_shrink_def Let_def m'_def
      by (simp add: field_simps_slots diff_diff_eq2 add_diff_eq)
    with lt sgn show ?thesis unfolding realloc_found_def Let_def xw by simp
  qed
  moreover have "map abs_block (ps @ (BLOCK_FREE, K - ?D) # (BLOCK_USED, sz) # qs)
    = map abs_block ps @ (False, snd (abs_block eh) + unat W - unat sz) # (True, unat sz) # map abs_block qs"
    using B(3) by (simp add: abs_block_def eh)
  ultimately show ?thesis using B(1,2) by blast
qed

lemma realloc_found_border_moved:
  assumes ok: "heap_ok (ram s) (region s 0) (pre @ h # x # post) (ps @ eh # (BLOCK_USED, W) # qs)"
    and len: "length ps = length pre" and sz: "unat sz < 2 ^ 31" "unat W < 2 ^ 31"
    and b: "snd (abs_block eh) \<le> unat b" "unat b + unat W < 2 ^ 32"
    and a: "a_border (unat sz) (unat b) (abs_block eh) (unat W) (map abs_block qs) = Some (q, bs')"
  shows "\<exists>p m' ds es. realloc_found 0 ptr sz x h b s = Some (p, take_free 0 (sz - W) (s\<lparr>ram := m'\<rparr>)) \<and> unat p = q
    \<and> heap_ok m' (region s 0) ds es \<and> same_outside (table (region s 0)) (ram s) m'
    \<and> map abs_block es = map abs_block ps @ bs'"
proof -
  let ?after = "free_after (unat sz - unat W) (map abs_block qs)" and ?before = "free_before (unat sz - unat W) (abs_block eh)"
  consider (same) "unat sz = unat W" | (after) "unat sz \<noteq> unat W" "?after" "unat sz < unat W \<longrightarrow> \<not> free_before 0 (abs_block eh)"
    | (before) "unat sz \<noteq> unat W" "?before" "unat W < unat sz \<longrightarrow> \<not> ?after"
    using a by (auto simp: a_border_def split: if_splits)
  then show ?thesis
  proof cases
    case same
    then have e: "sz = W" by (simp add: word_unat_eq_iff)
    have "blk_size (ram s) x = W" using heap_okD2(3) [OF ok len] by simp
    then have "realloc_found 0 ptr sz x h b s = Some (b, take_free 0 (sz - W) (s\<lparr>ram := ram s\<rparr>))"
      using e by (simp add: realloc_found_def)
    moreover have "q = unat b" "map abs_block (ps @ eh # (BLOCK_USED, W) # qs) = map abs_block ps @ bs'"
      using a same by (simp_all add: a_border_def abs_block_def)
    ultimately show ?thesis using ok
      by (intro exI [of _ b] exI [of _ "ram s"] exI [of _ "pre @ h # x # post"] exI [of _ "ps @ eh # (BLOCK_USED, W) # qs"])
        (simp add: same_outside_refl)
  next
    case after
    then have "q = unat b" "bs' = abs_block eh # (True, unat sz)
        # (False, unat W + snd (hd (map abs_block qs)) - unat sz) # tl (map abs_block qs)"
      using a by (auto simp: a_border_def free_after_def free_before_def split: if_splits)
    with realloc_found_after [OF ok len sz after(2) _ after(1), of ptr b] after(3) show ?thesis by blast
  next
    case before
    have "unat sz - unat W \<le> unat b" using b(1) before(2) unfolding free_before_def by linarith
    then have le: "unat sz \<le> unat b + unat W" by linarith
    have "q = unat b + unat W - unat sz"
      "bs' = (False, snd (abs_block eh) + unat W - unat sz) # (True, unat sz) # map abs_block qs"
      using a before by (auto simp: a_border_def free_after_def free_before_def split: if_splits)
    with realloc_found_before [OF ok len sz before(2) _ before(1), of ptr b] before(3) unat_border [OF b(2) le]
    show ?thesis by blast
  qed
qed

subsection \<open>The whole operation\<close>

lemma a_realloc_head:
  assumes "a_realloc base p sz bs = Some (q, w, bs')" "bs \<noteq> []" "\<not> fst (hd bs)" "f \<le> snd (hd bs)" "w \<le> sz" "sz - w \<le> f"
  shows "bs' \<noteq> []" "\<not> fst (hd bs')" "f - (sz - w) \<le> snd (hd bs')"
proof -
  from assms(1) obtain h r pr g pos r' bs1 where
    f: "a_fix bs = h # r" "a_find p (base + snd h) h r = Some (pr, g, pos, w, r')"
    "a_border sz pos g w r' = Some (q, bs1)" "bs' = pr @ bs1"
    by (auto simp: a_realloc_def split: list.splits option.splits)
  have h: "\<not> fst h" "f \<le> snd h" using a_fix_head [OF assms(2)] assms(3,4) f(1) by auto
  have "hd (pr @ [g]) = h" using a_find_live [OF f(2) refl] by simp
  moreover have "bs1 \<noteq> [] \<and> (fst (hd bs1) \<longrightarrow> fst g) \<and> snd g - (sz - w) \<le> snd (hd bs1)"
    using f(3) assms(5) by (auto simp: a_border_def free_before_def split: if_splits)
  ultimately have "bs' \<noteq> [] \<and> \<not> fst (hd bs') \<and> f - (sz - w) \<le> snd (hd bs')"
    using h f(4) by (cases pr) auto
  then show "bs' \<noteq> []" "\<not> fst (hd bs')" "f - (sz - w) \<le> snd (hd bs')" by blast+
qed

text \<open>The operation finds the block and goes on from the merged heap.\<close>

lemma mem_realloc_at:
  assumes hs: "heap_state s bs" and sz: "unat sz \<le> heap_free s" and f: "a_fix bs = a # r0"
    and fnd: "a_find (unat ptr) (heap_base s + snd a) a r0 = Some (pr, g, pos, w, r)"
  obtains m' pre h x post ps eh W qs b where
    "mem_realloc ptr sz s = realloc_found 0 ptr sz x h b (s\<lparr>ram := m'\<rparr>)"
    "heap_ok m' (region s 0) (pre @ h # x # post) (ps @ eh # (BLOCK_USED, W) # qs)" "length ps = length pre"
    "same_outside (table (region s 0)) (ram s) m'"
    "map abs_block ps = pr" "abs_block eh = g" "unat b = pos" "unat W = w" "map abs_block qs = r"
proof -
  obtain d post e qs where
    ok: "heap_ok (mem_fix_block d (ram s)) (region s 0) ([] @ d # post) ([] @ e # qs)"
    and fx: "a_fix bs = map abs_block (e # qs)" "rg_head (region s 0) = d" "d \<noteq> 0"
    and e: "fst e = BLOCK_FREE" "heap_free s \<le> unat (snd e)"
    using hs by (rule heap_state_fix)
  let ?m = "mem_fix_block d (ram s)" and ?rg = "region s 0" and ?s = "fix_block d s"
  obtain k where ek: "e = (BLOCK_FREE, k)" using e(1) by (cases e) auto
  note D = heap_okD [OF ok no_blocks]
  have ar: "a = abs_block e" "r0 = map abs_block qs" using f fx(1) by simp_all
  have dk: "blk_type ?m d = BLOCK_FREE" "blk_size ?m d = k" using D(5) ek by simp_all
  have bound: "heap_base s + total_size bs < 2 ^ 32" using hs by (simp add: heap_state_def)
  have tot: "total_size bs = unat k + total_size (map abs_block qs)"
    using total_a_fix [of bs] fx(1) ek by (simp add: abs_block_def)
  then have pos: "unat (rg_addr ?rg + k) = heap_base s + unat k"
    using bound by (intro unat_add_no_wrap) simp
  have step: "realloc_walk 0 ptr sz (rg_head ?rg) 0 (rg_addr ?rg) s
      = realloc_walk 0 ptr sz (hd (post @ [0])) d (rg_addr ?rg + k) ?s"
    using fx(2,3) dk D(6) by (subst realloc_walk.simps) (simp add: is_target_def Let_def)
  have fnd': "a_find (unat ptr) (unat (rg_addr ?rg + k)) (abs_block e) (map abs_block qs) = Some (pr, g, pos, w, r)"
    using fnd unfolding ar pos by (simp add: ek abs_block_def)
  have ok': "heap_ok (ram ?s) ?rg ([] @ d # post) ([] @ e # qs)" using ok by simp
  have bq: "unat (rg_addr ?rg + k) + total_size (map abs_block qs) < 2 ^ 32" using pos tot bound by simp
  obtain m' pre' h' x post' ps' eh' W qs' b where
    w: "realloc_walk 0 ptr sz (hd (post @ [0])) d (rg_addr ?rg + k) ?s
      = map_option (apfst Some) (realloc_found 0 ptr sz x h' b (?s\<lparr>ram := m'\<rparr>))"
    and okm: "heap_ok m' ?rg (pre' @ h' # x # post') (ps' @ eh' # (BLOCK_USED, W) # qs')" "length ps' = length pre'"
    and fr: "same_outside (table ?rg) (ram ?s) m'"
    and abs: "map abs_block ps' = pr" "abs_block eh' = g" "unat b = pos" "unat W = w" "map abs_block qs' = r"
    using realloc_walk_finds [OF ok' no_blocks bq fnd', of 0 sz] by (auto simp only: list.map append_Nil)
  have t: "?s\<lparr>ram := m'\<rparr> = s\<lparr>ram := m'\<rparr>" by (simp add: fix_block_def)
  have "rg_addr ?rg \<noteq> 0" "\<not> rg_free_size ?rg < sz"
    using hs sz by (simp_all add: heap_state_def word_less_nat_alt)
  then have "mem_realloc ptr sz s = realloc_found 0 ptr sz x h' b (s\<lparr>ram := m'\<rparr>)"
    using step w by (cases "realloc_found 0 ptr sz x h' b (s\<lparr>ram := m'\<rparr>)")
      (simp_all add: mem_realloc_def region_order_4 [OF hs] Let_def t apfst_def map_prod_def case_prod_beta)
  moreover obtain e0 qs0 post0 where "heap_ok (ram s) ?rg ([] @ d # post0) ([] @ e0 # qs0)"
    using hs fx(2) by (auto elim: heap_stateE)
  from mem_fix_block_frame [OF this no_blocks] fr have "same_outside (table ?rg) (ram s) m'"
    by (auto intro: same_outside_trans)
  ultimately show thesis using that okm abs by blast
qed

lemma mem_realloc_border:
  assumes hs: "heap_state s bs" and sz: "unat sz \<le> heap_free s" "unat sz < 2 ^ 31" "w < 2 ^ 31"
    and a: "a_realloc (heap_base s) (unat ptr) (unat sz) bs = Some (q, w, bs')"
  shows "\<exists>p s'. mem_realloc ptr sz s = Some (p, s') \<and> unat p = q \<and> heap_blocks s' bs'
    \<and> heap_free s' = heap_free s + w - unat sz \<and> same_outside (table (region s 0)) (ram s) (ram s')
    \<and> region_order s' = region_order s \<and> heap_base s' = heap_base s \<and> heap_table s' = heap_table s
    \<and> (w \<le> unat sz \<longrightarrow> heap_state s' bs')"
proof -
  note hd0 = heap_state_D [OF hs]
  from a obtain h r0 pr g pos r bs1 where f: "a_fix bs = h # r0"
    and fnd: "a_find (unat ptr) (heap_base s + snd h) h r0 = Some (pr, g, pos, w, r)"
    and bd: "a_border (unat sz) pos g w r = Some (q, bs1)" "bs' = pr @ bs1"
    by (auto simp: a_realloc_def split: list.splits option.splits)
  note A = a_find_live [OF fnd refl]
  have bound: "heap_base s + total_size bs < 2 ^ 32" using hs by (simp add: heap_state_def)
  have tot: "total_size bs = total_size (h # r0)" using total_a_fix [of bs] f by simp
  obtain m' pre h' x post ps eh W qs b where
    re: "mem_realloc ptr sz s = realloc_found 0 ptr sz x h' b (s\<lparr>ram := m'\<rparr>)"
    and okm: "heap_ok m' (region s 0) (pre @ h' # x # post) (ps @ eh # (BLOCK_USED, W) # qs)" "length ps = length pre"
    and fr: "same_outside (table (region s 0)) (ram s) m'"
    and abs: "map abs_block ps = pr" "abs_block eh = g" "unat b = pos" "unat W = w" "map abs_block qs = r"
    using mem_realloc_at [OF hs sz(1) f fnd] .
  let ?rg = "region s 0" and ?t = "s\<lparr>ram := m'\<rparr>"
  have t: "region ?t 0 = ?rg" "ram ?t = m'" by (simp_all add: region_def)
  have okt: "heap_ok (ram ?t) (region ?t 0) (pre @ h' # x # post) (ps @ eh # (BLOCK_USED, W) # qs)"
    using okm(1) by (simp only: t)
  have b: "snd (abs_block eh) \<le> unat b" "unat b + unat W < 2 ^ 32" "unat W < 2 ^ 31"
    using A bound tot sz(3) abs by simp_all
  from realloc_found_border_moved [OF okt okm(2) sz(2) b(3) b(1,2), of q bs1 ptr] bd(1) obtain p m2 ds es where
    p: "realloc_found 0 ptr sz x h' b ?t = Some (p, take_free 0 (sz - W) (?t\<lparr>ram := m2\<rparr>))" "unat p = q"
    "heap_ok m2 ?rg ds es" "same_outside (table ?rg) m' m2" "map abs_block es = map abs_block ps @ bs1"
    unfolding abs t by blast
  let ?s' = "take_free 0 (sz - W) (s\<lparr>ram := m2\<rparr>)"
  have "mem_realloc ptr sz s = Some (p, ?s')" using re p(1) by simp
  moreover have hb: "\<exists>ds es. heap_ok (ram ?s') (region ?s' 0) ds es \<and> bs' = map abs_block es"
    using p(3) abs(1) bd(2) p(5) [symmetric] by (intro exI [of _ ds] exI [of _ es]) simp
  moreover have live: "heap_free ?s' = heap_free s + w - unat sz"
  proof -
    have "snd h \<le> total_size (pr @ [g])" using A by (cases pr) auto
    moreover have "heap_free s \<le> snd h" using a_fix_head [OF hd0(1)] hd0(2,3) f by simp
    ultimately have "heap_free s + unat W < 2 ^ 32" using A bound tot abs(4) by simp
    from unat_border [OF this] sz(1) abs(4) show ?thesis by simp
  qed
  moreover have "same_outside (table ?rg) (ram s) (ram ?s')"
    using fr p(4) by (auto intro: same_outside_trans)
  moreover have "heap_state ?s' bs'" if "w \<le> unat sz"
  proof -
    note h = a_realloc_head [OF a hd0(1-3) that]
    obtain xs ys pos where "total_size bs' = total_size bs" using a_realloc_live [OF a] by metis
    with h hb live hs sz(1) that show ?thesis by (simp add: heap_state_def)
  qed
  moreover have "region_order ?s' = region_order s \<and> heap_base ?s' = heap_base s \<and> heap_table ?s' = heap_table s"
    by (simp add: region_order_def)
  ultimately show ?thesis using p(2)
    by (intro exI [of _ p] exI [of _ ?s']) (simp add: heap_blocks_def)
qed

subsection \<open>Properties\<close>

text \<open>C19: Resizing within the room of the neighbours.  \<open>mem_realloc\<close> takes the first block in use at or
  above the pointer; where \<open>a_realloc\<close> finds a neighbour that can give or take the difference, the
  list of the blocks in use is the old one with this block at its new address and with its new size, the
  budget changes by the difference, the region keeps its extent and nothing outside the table of the
  descriptors is written.  The heap stays well-formed when the block does not shrink.\<close>

theorem mem_realloc_resizes:
  assumes hs: "heap_state s bs" and sz: "unat sz \<le> heap_free s" "unat sz < 2 ^ 31" "w < 2 ^ 31"
    and a: "a_realloc (heap_base s) (unat ptr) (unat sz) bs = Some (q, w, bs')"
  shows "\<exists>p s' xs ys pos. mem_realloc ptr sz s = Some (p, s') \<and> unat p = q \<and> heap_blocks s' bs'
    \<and> live (heap_base s) bs = xs @ (pos, w) # ys \<and> unat ptr \<le> pos
    \<and> live (heap_base s) bs' = xs @ (q, unat sz) # ys
    \<and> total_size bs' = total_size bs \<and> heap_base s \<le> q \<and> q + unat sz \<le> heap_base s + total_size bs
    \<and> heap_free s' = heap_free s + w - unat sz
    \<and> region_order s' = region_order s \<and> heap_base s' = heap_base s \<and> heap_table s' = heap_table s
    \<and> same_outside (table (region s 0)) (ram s) (ram s')
    \<and> (w \<le> unat sz \<longrightarrow> heap_state s' bs')"
proof -
  obtain xs ys pos where "live (heap_base s) bs = xs @ (pos, w) # ys"
    "live (heap_base s) bs' = xs @ (q, unat sz) # ys" "unat ptr \<le> pos" "total_size bs' = total_size bs"
    "heap_base s \<le> q" "q + unat sz \<le> heap_base s + total_size bs"
    using a by (rule a_realloc_live)
  with mem_realloc_border [OF assms] show ?thesis by blast
qed

text \<open>The heap of \<open>main\<close> after allocations of 64 and of 32 bytes.\<close>

lemma kernel_heap_two_blocks:
  obtains s where "heap_state s [(False, 8290208), (True, 32), (True, 64)]" "heap_base s = 0x10000"
    "heap_free s = 8290208" "heap_table s = 8192" "table (region s 0) \<subseteq> span 0x10000 98304"
proof -
  let ?k = "kernel_heap (\<lambda>_. 0)"
  note k = kernel_heap_state [of "\<lambda>_. 0"]
  obtain p s1 where s1: "heap_state s1 (a_alloc (unat (64 :: u32)) [(False, 8290304)])"
    "region s1 0 = (region ?k 0)\<lparr>rg_free_size := rg_free_size (region ?k 0) - 64\<rparr>"
    using mem_alloc_taken [OF k(1), of 64] k by auto
  have "(64 :: u32) \<le> rg_free_size (region ?k 0)" using k(3) by (simp add: word_le_nat_alt)
  with s1(2) k have r1: "heap_free s1 = 8290240" "heap_table s1 = 8192" "heap_base s1 = 0x10000"
    by (simp_all add: unat_sub_no_wrap)
  have h1: "heap_state s1 [(False, 8290240), (True, 64)]" using s1(1) by (simp add: a_alloc_def)
  obtain p s where s: "heap_state s (a_alloc (unat (32 :: u32)) [(False, 8290240), (True, 64)])"
    "region s 0 = (region s1 0)\<lparr>rg_free_size := rg_free_size (region s1 0) - 32\<rparr>"
    using mem_alloc_taken [OF h1, of 32] r1 by auto
  have "(32 :: u32) \<le> rg_free_size (region s1 0)" using r1(1) by (simp add: word_le_nat_alt)
  with s(2) r1 have "heap_free s = 8290208" "heap_table s = 8192" "heap_base s = 0x10000"
    by (simp_all add: unat_sub_no_wrap)
  moreover have "heap_state s [(False, 8290208), (True, 32), (True, 64)]" using s(1) by (simp add: a_alloc_def)
  moreover have "table (region s 0) = table (region ?k 0)" unfolding s(2) s1(2) by (simp add: table_def slots_def)
  ultimately show thesis using that kernel_table [of "\<lambda>_. 0"] by simp
qed

text \<open>The same after the release of the first.\<close>

lemma kernel_heap_hole:
  obtains s where "heap_state s [(False, 8290208), (True, 32), (False, 64)]" "heap_base s = 0x10000"
    "heap_free s = 8290208" "heap_table s = 8192"
proof -
  obtain s2 where s2: "heap_state s2 [(False, 8290208), (True, 32), (True, 64)]" "heap_base s2 = 0x10000"
    "heap_free s2 = 8290208" "heap_table s2 = 8192" by (rule kernel_heap_two_blocks)
  obtain s3 where s3: "heap_state s3 (a_free 0x10000 (unat (0x7F7FC0 :: u32)) [(False, 8290208), (True, 32), (True, 64)])"
    "region s3 0 = region s2 0" using mem_free_frees [OF s2(1), of "0x7F7FC0"] s2(2) by metis
  have "a_free 0x10000 (unat (0x7F7FC0 :: u32)) [(False, 8290208), (True, 32), (True, 64)]
      = [(False, 8290208), (True, 32), (False, 64)]"
    by (simp add: a_free_def a_free_after.simps)
  with s3(1) have "heap_state s3 [(False, 8290208), (True, 32), (False, 64)]" by simp
  from that [OF this] s3(2) s2 show thesis by simp
qed

text \<open>A block that is not the latest, between one in use and a free one: it grows where it is.\<close>

lemma a_realloc_hole:
  "a_realloc 0x10000 0x7F7FA0 64 [(False, 8290208), (True, 32), (False, 64)]
    = Some (0x7F7FA0, 32, [(False, 8290208), (True, 64), (False, 32)])"
  by (simp add: a_realloc_def a_find.simps a_border_def free_after_def free_before_def)

theorem mem_realloc_resizes_witness:
  "\<exists>s s' p. mem_realloc 0x7F7FA0 64 s = Some (p, s') \<and> unat p = 0x7F7FA0
    \<and> heap_state s' [(False, 8290208), (True, 64), (False, 32)] \<and> heap_free s' = 8290176"
proof -
  obtain s where s: "heap_state s [(False, 8290208), (True, 32), (False, 64)]" "heap_base s = 0x10000"
    "heap_free s = 8290208" "heap_table s = 8192" by (rule kernel_heap_hole)
  have n: "unat (0x7F7FA0 :: u32) = 0x7F7FA0" "unat (64 :: u32) = 64" by simp_all
  from mem_realloc_resizes [OF s(1), of 64 32 "0x7F7FA0", unfolded s(2,3) n, OF _ _ _ a_realloc_hole] show ?thesis
    by auto
qed

text \<open>Shrinking a block that is not the latest gives the bytes to the free block behind it and to the
  budget, which is then larger than the first block, from which alone \<open>mem_alloc\<close> takes: an allocation
  of the whole budget returns an address below the heap.\<close>

lemma shrink_lifts_budget:
  "\<exists>s p s1 s2 q. heap_state s [(False, 8290192), (True, 16), (True, 32), (False, 64)] \<and> heap_base s = 0x10000
    \<and> mem_realloc 0x7F7FA0 16 s = Some (p, s1) \<and> unat p = 0x7F7FA0
    \<and> heap_blocks s1 [(False, 8290192), (True, 16), (True, 16), (False, 80)] \<and> heap_free s1 = 8290208
    \<and> mem_alloc 8290208 s1 = Some (q, s2) \<and> unat q = heap_base s - 16"
proof -
  obtain s0 where s0: "heap_state s0 [(False, 8290208), (True, 32), (False, 64)]" "heap_base s0 = 0x10000"
    "heap_free s0 = 8290208" "heap_table s0 = 8192" by (rule kernel_heap_hole)
  obtain p0 s where s: "heap_state s (a_alloc (unat (16 :: u32)) [(False, 8290208), (True, 32), (False, 64)])"
    "region s 0 = (region s0 0)\<lparr>rg_free_size := rg_free_size (region s0 0) - 16\<rparr>"
    using mem_alloc_taken [OF s0(1), of 16] s0 by auto
  have "(16 :: u32) \<le> rg_free_size (region s0 0)" using s0(3) by (simp add: word_le_nat_alt)
  then have r: "heap_free s = 8290192" "heap_base s = 0x10000" "heap_table s = 8192"
    using s(2) s0 by (simp_all add: unat_sub_no_wrap)
  have hs: "heap_state s [(False, 8290192), (True, 16), (True, 32), (False, 64)]"
    using s(1) by (simp add: a_alloc_def)
  have a: "a_realloc 0x10000 0x7F7FA0 16 [(False, 8290192), (True, 16), (True, 32), (False, 64)]
    = Some (0x7F7FA0, 32, [(False, 8290192), (True, 16), (True, 16), (False, 80)])"
    by (simp add: a_realloc_def a_find.simps a_border_def free_after_def free_before_def)
  have n: "unat (0x7F7FA0 :: u32) = 0x7F7FA0" "unat (16 :: u32) = 16" by simp_all
  from mem_realloc_border [OF hs, of 16 32 "0x7F7FA0", unfolded r n, OF _ _ _ a] obtain p s1 where
    p: "mem_realloc 0x7F7FA0 16 s = Some (p, s1)" "unat p = 0x7F7FA0"
      "heap_blocks s1 [(False, 8290192), (True, 16), (True, 16), (False, 80)]" "heap_free s1 = 8290208"
      "region_order s1 = region_order s" "heap_base s1 = 0x10000" "heap_table s1 = 8192" by auto
  from p(3) obtain ds es where ok: "heap_ok (ram s1) (region s1 0) ds es"
    and es: "map abs_block es = [(False, 8290192), (True, 16), (True, 16), (False, 80)]"
    by (auto simp: heap_blocks_def)
  have ty: "fst ` set es \<subseteq> {BLOCK_FREE, BLOCK_USED}" "length es = length ds"
    using heap_ok_parts [OF ok] by blast+
  from es obtain k w qs where es': "es = (BLOCK_FREE, k) # (BLOCK_USED, w) # qs" "unat k = 8290192" "length qs = 2"
    using ty(1) by (auto simp: abs_block_def map_eq_Cons_conv)
  then obtain d x post where ds: "ds = d # x # post" "length post = 2" using ty(2) by (cases ds; cases "tl ds") auto
  have k: "k = 8290192" "rg_addr (region s1 0) = 0x10000" using es'(2) p(6) by (simp_all add: word_unat_eq_iff)
  have "8290208 \<le> rg_free_size (region s1 0)" using p(4) by (simp add: word_le_nat_alt)
  moreover have "region_order s1 = [0, 1, 2, 3]" using region_order_4 [OF hs] p(5) by simp
  ultimately obtain s2 where "mem_alloc 8290208 s1 = Some (rg_addr (region s1 0) + (k - 8290208), s2)"
    using mem_alloc_head [of s1 d x post k w qs 8290208] ok p(7) k(2) ds(2) unfolding ds(1) es' by auto
  moreover have "unat (rg_addr (region s1 0) + (k - 8290208)) = heap_base s - 16" by (simp add: k r)
  ultimately show ?thesis using hs r(2) p(1-4) by blast
qed

end
