(* ===== verification/Heap_Copy.thy ===== *)
theory Heap_Copy
  imports Heap_Realloc
begin

text \<open>
  \<open>mem_realloc\<close> of a block that has to grow and has no neighbour with room: a new block is taken,
  the bytes are copied, and the old block is released.
\<close>

subsection \<open>The block that is found\<close>

text \<open>All blocks in use before the one found, but the first block, are below the pointer.\<close>

lemma a_find_below:
  assumes "a_find p pos h bs = Some (pr, g, pos', w, r)" "pos = base + snd h"
  shows "\<exists>low. live base (pr @ [g]) = live base [h] @ low \<and> (\<forall>x \<in> set low. fst x < p)
    \<and> length (pr @ g # (True, w) # r) \<le> length (h # bs)"
  using assms
proof (induction p pos h bs arbitrary: base pr rule: a_find.induct)
  case (1 p pos h bs)
  obtain uh kh where h: "h = (uh, kh)" by fastforce
  from 1(2) obtain u k bs' where f: "a_fix bs = (u, k) # bs'"
    by (subst (asm) a_find.simps) (auto split: list.splits)
  then have len: "length ((u, k) # bs') \<le> length bs" using length_a_fix [of bs] by simp
  show ?case
  proof (cases "u \<and> p \<le> pos")
    case True
    with 1(2) have "pr = []" "g = h" "r = bs'"
      by (subst (asm) a_find.simps; simp add: f)+
    with len show ?thesis by simp
  next
    case False
    with 1(2) obtain pr' where r: "a_find p (pos + k) (u, k) bs' = Some (pr', g, pos', w, r)" "pr = h # pr'"
      by (subst (asm) a_find.simps) (auto simp: f)
    from 1(1) [OF f, of pr' pos] False r(1) obtain low where
      "live pos (pr' @ [g]) = live pos [(u, k)] @ low" "\<forall>x \<in> set low. fst x < p"
      "length (pr' @ g # (True, w) # r) \<le> length ((u, k) # bs')" by auto
    with r(2) len False 1(3) show ?thesis by (intro exI [of _ "live pos [(u, k)] @ low"]) (auto simp: h)
  qed
qed

text \<open>Merging at the head does not reach the block found.\<close>

lemma a_fix_head_le: "xs \<noteq> [] \<Longrightarrow> snd (hd (a_fix (xs @ (True, w) # ys))) \<le> total_size xs"
  by (cases xs rule: a_fix.cases) auto

subsection \<open>The operation\<close>

lemma realloc_found_copied:
  assumes ok: "heap_ok (ram s) (region s 0) (pre @ h # x # post) (ps @ eh # (BLOCK_USED, W) # qs)"
    and len: "length ps = length pre" and sz: "unat sz < 2 ^ 31" "unat W < unat sz"
    and no: "\<not> free_after (unat sz - unat W) (map abs_block qs)" "\<not> free_before (unat sz - unat W) (abs_block eh)"
    and al: "mem_alloc sz s = Some (p, s1)" "p \<noteq> 0"
    and keep: "\<forall>x \<in> slots (region s 0). blk_type (ram s) x = BLOCK_USED \<longrightarrow> blk_size (ram s1) x = blk_size (ram s) x"
    and fr: "mem_free ptr (s1\<lparr>ram := snd (memcpy p ptr W (ram s1))\<rparr>) = Some s'"
  shows "realloc_found 0 ptr sz x h b s = Some (p, s')"
proof -
  note X = heap_okD2 [OF ok len]
  have x: "blk_size (ram s) x = W" "blk_type (ram s) x = BLOCK_USED" using X(3) by simp_all
  then have x1: "blk_size (ram s1) x = W" using keep X(1) by simp
  let ?D = "sz - W"
  have D: "unat ?D = unat sz - unat W" using sz(2) by (simp add: unat_sub_no_wrap word_le_nat_alt)
  note N = neighbour_free [OF ok len, of ?D, unfolded D]
  have "realloc_expand 0 ptr sz x h b ?D s = Some (p, s')"
    using N no al fr by (auto simp: realloc_expand_def Let_def x1)
  then show ?thesis using signed_difference(1) [of sz W] sz by (simp add: realloc_found_def x)
qed

text \<open>The block is found on the merged heap, which is as well-formed as the old one.\<close>

lemma heap_state_found:
  assumes hs: "heap_state s bs" and f: "a_fix bs = a # r0"
    and fnd: "a_find q (heap_base s + snd a) a r0 = Some (pr, g, pos, w, r)"
    and ok: "heap_ok m (region s 0) ds es" "map abs_block es = pr @ g # (True, w) # r"
  shows "heap_state (s\<lparr>ram := m\<rparr>) (pr @ g # (True, w) # r)"
proof -
  note hd0 = heap_state_D [OF hs]
  note A = a_find_live [OF fnd refl]
  have a: "\<not> fst a" "heap_free s \<le> snd a" using a_fix_head [OF hd0(1)] hd0(2,3) f by simp_all
  have "hd (pr @ g # (True, w) # r) = a" using A by (cases pr) auto
  moreover have "total_size (pr @ g # (True, w) # r) = total_size bs" using A total_a_fix [of bs] f by simp
  moreover have "\<exists>ds es. heap_ok m (region s 0) ds es \<and> pr @ g # (True, w) # r = map abs_block es"
    using ok by (intro exI [of _ ds] exI [of _ es]) simp
  ultimately show ?thesis using hs a by (simp add: heap_state_def)
qed

text \<open>C20: Growing a block that has no neighbour with room.  For a pointer to the start of a block in use,
  with enough budget and a free descriptor, \<open>mem_realloc\<close> returns a new block at the end of the first
  one: the other blocks in use stay, the old block is released, the bytes of the old block stand at the
  new address, and nothing is written but the table of the descriptors and these bytes.  The whole new
  size is charged to the budget, and the old one is not given back.\<close>

theorem mem_realloc_copies:
  assumes hs: "heap_state s bs" and sz: "unat sz \<le> heap_free s" "unat sz < 2 ^ 31" "w < unat sz"
    and f: "a_fix bs = a # r0" and fnd: "a_find (unat ptr) (heap_base s + snd a) a r0 = Some (pr, g, unat ptr, w, r)"
    and no: "a_border (unat sz) (unat ptr) g w r = None" and room: "length bs < heap_table s"
    and apart: "span q w \<inter> table (region s 0) = {}" "span ptr w \<inter> table (region s 0) = {}"
    and q: "unat q = heap_base s + snd (hd (a_fix (pr @ g # (True, w) # r))) - unat sz"
  shows "\<exists>s' bs' xs ys. mem_realloc ptr sz s = Some (q, s') \<and> heap_state s' bs'
    \<and> live (heap_base s) bs = xs @ (unat ptr, w) # ys
    \<and> live (heap_base s) bs' = (unat q, unat sz) # xs @ ys
    \<and> rd (ram s') q w = rd (ram s) ptr w
    \<and> heap_free s' = heap_free s - unat sz
    \<and> same_outside (table (region s 0) \<union> span q w) (ram s) (ram s')"
proof -
  let ?bs = "pr @ g # (True, w) # r" and ?T = "table (region s 0)"
  obtain m' pre h x post ps eh W qs b where
    re: "mem_realloc ptr sz s = realloc_found 0 ptr sz x h b (s\<lparr>ram := m'\<rparr>)"
    and ok: "heap_ok m' (region s 0) (pre @ h # x # post) (ps @ eh # (BLOCK_USED, W) # qs)" "length ps = length pre"
    and fr: "same_outside ?T (ram s) m'"
    and abs: "map abs_block ps = pr" "abs_block eh = g" "unat b = unat ptr" "unat W = w" "map abs_block qs = r"
    using mem_realloc_at [OF hs sz(1) f fnd] .
  let ?t = "s\<lparr>ram := m'\<rparr>"
  have t: "region ?t 0 = region s 0" "ram ?t = m'" by (simp_all add: region_def)
  have ht: "heap_state ?t ?bs"
    by (rule heap_state_found [OF hs f fnd ok(1)]) (use abs in \<open>simp add: abs_block_def\<close>)
  note A = a_find_live [OF fnd refl] and D = heap_state_D [OF ht]
  from a_find_below [OF fnd refl] obtain low where low: "live (heap_base s) (pr @ [g]) = live (heap_base s) [a] @ low"
    "\<forall>x \<in> set low. fst x < unat ptr" and len: "length ?bs \<le> length bs"
    using length_a_fix [of bs] f by auto
  have nf: "\<not> fst a" using a_fix_head [OF heap_state_D(1) [OF hs]] heap_state_D(2) [OF hs] f by simp
  have l: "live (heap_base s) bs = low @ (unat ptr, w) # live (unat ptr + w) r"
    using A low(1) nf live_a_fix [of "heap_base s" bs] f by (cases a) simp
  have rm: "length (a_fix ?bs) < heap_table s" using length_a_fix [of ?bs] len room by linarith
  from mem_alloc_takes [OF ht, of sz] sz(1) rm obtain p s1 where
    al: "mem_alloc sz ?t = Some (p, s1)" "heap_state s1 (a_alloc (unat sz) ?bs)"
      "unat p = unat q" "same_outside ?T m' (ram s1)"
      "region s1 0 = (region s 0)\<lparr>rg_free_size := rg_free_size (region s 0) - sz\<rparr>"
      "\<forall>x \<in> slots (region s 0). blk_type m' x = BLOCK_USED \<longrightarrow> blk_size (ram s1) x = blk_size m' x"
    unfolding t q by auto
  have pq: "p = q" using al(3) by (simp add: word_unat_eq_iff)
  have "heap_free s \<le> snd (hd (a_fix ?bs))" using D(3) a_fix_head [OF D(1)] by simp
  then have u: "unat q + unat sz = heap_base s + snd (hd (a_fix ?bs))" "heap_base s \<le> unat q" using q sz(1) by simp_all
  have lt: "unat q + unat sz \<le> unat ptr" using a_fix_head_le [of "pr @ [g]" w r] A u by simp
  then have le: "unat q + w \<le> unat ptr" using sz(3) by simp
  let ?m2 = "snd (memcpy q ptr W (ram s1))"
  have "unat ptr + w < 2 ^ 32" using A hs f total_a_fix [of bs] by (simp add: heap_state_def)
  then have cp: "?m2 = wr (ram s1) q (rd (ram s1) ptr w)" using memcpy_apart [of q W ptr] span_apart [OF le] abs(4) by simp
  then have fr2: "same_outside (span q w) (ram s1) ?m2" by (simp add: same_outside_def wr_other)
  have h2: "heap_state (s1\<lparr>ram := ?m2\<rparr>) (a_alloc (unat sz) ?bs)"
    using apart(1) al(5) by (intro heap_state_write [OF al(2) fr2]) (auto simp: table_def slots_def)
  from mem_free_frees [OF h2, of ptr] al(5) obtain s' where
    s': "mem_free ptr (s1\<lparr>ram := ?m2\<rparr>) = Some s'" "heap_state s' (a_free (heap_base s) (unat ptr) (a_alloc (unat sz) ?bs))"
      "region s' 0 = region s1 0" "same_outside ?T ?m2 (ram s')" by (auto simp: table_def slots_def)
  have nob: "\<not> free_after (unat sz - unat W) (map abs_block qs)" "\<not> free_before (unat sz - unat W) (abs_block eh)"
    using no sz(3) abs by (auto simp: a_border_def split: if_splits)
  have "rg_addr (region s 0) \<noteq> 0" using hs by (simp add: heap_state_def)
  then have "q \<noteq> 0" using u(2) by (auto simp: word_unat_eq_iff)
  then have "realloc_found 0 ptr sz x h b ?t = Some (q, s')"
    using realloc_found_copied [of ?t pre h x post ps eh W qs sz q s1 ptr s' b] ok sz nob al s'(1) abs(4) pq t by simp
  moreover have "live (heap_base s) (a_free (heap_base s) (unat ptr) (a_alloc (unat sz) ?bs))
    = (unat q, unat sz) # low @ live (unat ptr + w) r"
  proof -
    note D1 = heap_state_D [OF al(2)]
    have "live (heap_base s) ?bs = low @ (unat ptr, w) # live (unat ptr + w) r"
      using live_append [of "heap_base s" "pr @ [g]" "(True, w) # r"] A low(1) nf by (cases a) simp
    then    have "live (heap_base s) (a_alloc (unat sz) ?bs) = ((unat q, unat sz) # low) @ (unat ptr, w) # live (unat ptr + w) r"
      using live_a_alloc [OF D(1,2), of "unat sz" "heap_base s"] D(3) sz(1) q by simp
    moreover have "\<forall>x \<in> set ((unat q, unat sz) # low). fst x < unat ptr" using low(2) lt sz(3) by auto
    ultimately show ?thesis using remove_first_below [OF _ le_refl] live_a_free [OF D1(1,2)] by (metis append_Cons)
  qed
  moreover have "rd (ram s') q w = rd (ram s) ptr w"
  proof -
    have "rd (ram s') q w = rd ?m2 q w" using s'(4) apart(1) by (intro rd_cong) (auto simp: same_outside_def)
    also have "\<dots> = rd (ram s1) ptr w" using rd_wr_same [of "rd (ram s1) ptr w" "ram s1" q] sz(2,3) cp by simp
    also have "\<dots> = rd (ram s) ptr w"
      using al(4) fr apart(2) by (intro rd_cong) (auto simp: same_outside_def)
    finally show ?thesis .
  qed
  moreover have "heap_free s' = heap_free s - unat sz" using s'(3) al(5) sz(1)
    by (simp add: unat_sub_no_wrap word_le_nat_alt)
  moreover have "same_outside (?T \<union> span q w) (ram s) (ram s')"
    using fr al(4) fr2 s'(4) by (simp add: same_outside_def)
  ultimately show ?thesis using re s'(2) l
    by (intro exI [of _ s'] exI [of _ "a_free (heap_base s) (unat ptr) (a_alloc (unat sz) ?bs)"]
      exI [of _ low] exI [of _ "live (unat ptr + w) r"]) simp
qed

theorem mem_realloc_copies_witness:
  "\<exists>s s' bs'. mem_realloc 0x7F7FC0 96 s = Some (0x7F7F40, s') \<and> heap_state s' bs'
    \<and> live 0x10000 bs' = [(0x7F7F40, 96), (0x7F7FA0, 32)] \<and> rd (ram s') 0x7F7F40 64 = rd (ram s) 0x7F7FC0 64"
proof -
  obtain s where s: "heap_state s [(False, 8290208), (True, 32), (True, 64)]" "heap_base s = 0x10000"
    "heap_free s = 8290208" "heap_table s = 8192" "table (region s 0) \<subseteq> span 0x10000 98304"
    by (rule kernel_heap_two_blocks)
  have n: "unat (0x7F7FC0 :: u32) = 8355776" "unat (96 :: u32) = 96" "unat (0x7F7F40 :: u32) = 8355648"
    "unat (0x10000 :: u32) = 65536" by simp_all
  have ap: "span q 64 \<inter> table (region s 0) = {}" if "unat (0x10000 :: u32) + 98304 \<le> unat q" "unat q + 64 \<le> 2 ^ 32" for q
    using span_apart [OF that] s(5) by blast
  have f: "a_find 8355776 (heap_base s + snd (False, 8290208 :: nat)) (False, 8290208) [(True, 32), (True, 64)]
      = Some ([(False, 8290208)], (True, 32), 8355776, 64, [])"
    by (simp add: s(2) a_find.simps)
  have b: "a_border (unat (96 :: u32)) (unat (0x7F7FC0 :: u32)) (True, 32) 64 [] = None"
    by (simp add: a_border_def free_after_def free_before_def)
  have "\<exists>s' bs' xs ys. mem_realloc 0x7F7FC0 96 s = Some (0x7F7F40, s') \<and> heap_state s' bs'
    \<and> live (heap_base s) [(False, 8290208), (True, 32), (True, 64)] = xs @ (unat (0x7F7FC0 :: u32), 64) # ys
    \<and> live (heap_base s) bs' = (unat (0x7F7F40 :: u32), unat (96 :: u32)) # xs @ ys
    \<and> rd (ram s') 0x7F7F40 64 = rd (ram s) 0x7F7FC0 64
    \<and> heap_free s' = heap_free s - unat (96 :: u32)
    \<and> same_outside (table (region s 0) \<union> span 0x7F7F40 64) (ram s) (ram s')"
    by (rule mem_realloc_copies [OF s(1) _ _ _ _ f [folded n(1)] b]) (simp_all add: s ap n)
  moreover have "live 0x10000 [(False, 8290208), (True, 32), (True, 64)] = [(0x7F7FA0, 32), (0x7F7FC0, 64)]" by simp
  moreover have "xs = [(0x7F7FA0, 32)] \<and> ys = []"
    if "[(0x7F7FA0, 32), (0x7F7FC0 :: nat, 64 :: nat)] = xs @ (0x7F7FC0, 64) # ys" for xs ys
    using that by (auto simp: Cons_eq_append_conv)
  ultimately show ?thesis unfolding n s(2) by fastforce
qed

end
