(* ===== verification/Heap_Split.thy ===== *)
theory Heap_Split
  imports Heap_Copy
begin

text \<open>
  \<open>mem_realloc\<close> of a block that shrinks between blocks in use: the bytes that are left over get a
  descriptor of their own, which is never linked.
\<close>

text \<open>The blocks that the code finds from the head of the region, whatever the other descriptors hold.\<close>

definition heap_chain :: "machine \<Rightarrow> ablock list \<Rightarrow> bool" where
  "heap_chain s bs \<longleftrightarrow> (\<exists>ds es. descriptors.linked (rg_blocks (region s 0)) (heap_table s) (ram s)
     (rg_head (region s 0)) ds es \<and> bs = map abs_block es)"

lemma live_shift: "d \<le> pos \<Longrightarrow> live (pos - d) bs = map (apfst (\<lambda>q. q - d)) (live pos bs)"
proof (induction pos bs rule: live.induct)
  case (2 pos u k bs)
  then show ?case by simp
qed simp

lemma heap_ok_type: "heap_ok m rg ds es \<Longrightarrow> y \<in> set ds \<Longrightarrow> blk_type m y \<in> {BLOCK_FREE, BLOCK_USED}"
  by (force simp: heap_ok_def descriptors.linked_def slots_def image_subset_iff)

lemma realloc_found_split:
  assumes ok: "heap_ok (ram s) (region s 0) (pre @ h # x # post) (ps @ eh # (BLOCK_USED, W) # qs)"
    and len: "length ps = length pre" and sz: "unat sz < 2 ^ 31" "unat W < 2 ^ 31" "unat sz < unat W"
    and no: "\<not> free_after 0 (map abs_block qs)" "\<not> free_before 0 (abs_block eh)"
    and room: "length (ps @ eh # (BLOCK_USED, W) # qs) < heap_table s"
  shows "\<exists>m'. realloc_found 0 ptr sz x h b s = Some (b, take_free 0 (sz - W) (s\<lparr>ram := m'\<rparr>))
    \<and> heap_chain (s\<lparr>ram := m'\<rparr>) (map abs_block (ps @ eh # (BLOCK_USED, sz) # qs))
    \<and> same_outside (table (region s 0)) (ram s) m'"
proof -
  note H = heap_okD [OF ok len] and X = heap_okD2 [OF ok len]
  let ?m = "ram s" and ?D = "- (sz - W)"
  have x: "blk_size ?m x = W" "blk_type ?m x = BLOCK_USED" using X(3) by simp_all
  obtain nb where nb: "mem_new_block (region s 0) s = (nb, s)" "nb \<in> slots (region s 0)" "nb \<noteq> 0"
    "blk_type ?m nb = BLOCK_NOT_PRESENT" using new_descriptor [OF ok room] .
  let ?m1 = "set_size x sz ?m"
  let ?m' = "set_size x sz (set_size nb ?D (set_type nb BLOCK_FREE ?m))"
  have nx: "nb \<noteq> x" using nb(4) x(2) by auto
  have N: "\<not> (blk_next ?m x \<noteq> 0 \<and> blk_type ?m (blk_next ?m x) = BLOCK_FREE)"
    "\<not> (h \<noteq> 0 \<and> blk_type ?m h = BLOCK_FREE)"
    using neighbour_free [OF ok len, of 0] no by simp_all
  have "realloc_shrink 0 x h b ?D s = (b, take_free 0 (sz - W) (s\<lparr>ram := ?m'\<rparr>))"
    using N nb nx X(1) x unfolding realloc_shrink_def Let_def by (auto simp: field_simps_slots)
  then have re: "realloc_found 0 ptr sz x h b s = Some (b, take_free 0 (sz - W) (s\<lparr>ram := ?m'\<rparr>))"
    using signed_difference [of sz W] sz by (simp add: realloc_found_def Let_def x)
  have o: "heap_ok ?m (region s 0) (pre @ h # x # post) (ps @ (blk_type ?m h, blk_size ?m h) # (BLOCK_USED, W) # qs)"
    using ok H(5) by simp
  have "heap_ok ?m1 (region s 0) (pre @ h # x # post) (ps @ (blk_type ?m h, blk_size ?m h) # (BLOCK_USED, sz) # qs)"
    using sz(3) X(1,6) by (intro heap_ok_border [OF o len]) (auto simp: field_simps_slots)
  then have ok1: "heap_ok ?m1 (region s 0) (pre @ h # x # post) (ps @ eh # (BLOCK_USED, sz) # qs)"
    using H(5) by simp
  have "blk_next ?m' y = blk_next ?m1 y \<and> blk_type ?m' y = blk_type ?m1 y \<and> blk_size ?m' y = blk_size ?m1 y"
    if "y \<in> set (pre @ h # x # post)" for y
  proof -
    have "y \<in> slots (region s 0)" using that H(4) by blast
    moreover have "blk_type ?m y \<noteq> BLOCK_NOT_PRESENT"
      using heap_ok_type [OF ok that] by auto
    ultimately show ?thesis using nb(2,4) X(1) by (auto simp: field_simps_slots)
  qed
  then have "descriptors.linked (rg_blocks (region s 0)) (heap_table s) ?m' (rg_head (region s 0))
      (pre @ h # x # post) (ps @ eh # (BLOCK_USED, sz) # qs)"
    using ok1 descriptors.linked_cong [of "pre @ h # x # post" ?m' ?m1] by (simp add: heap_ok_def slots_def)
  moreover have "region (s\<lparr>ram := ?m'\<rparr>) 0 = region s 0" by (simp add: region_def)
  ultimately have "heap_chain (s\<lparr>ram := ?m'\<rparr>) (map abs_block (ps @ eh # (BLOCK_USED, sz) # qs))"
    unfolding heap_chain_def by (intro exI [of _ "pre @ h # x # post"] exI [of _ "ps @ eh # (BLOCK_USED, sz) # qs"]) simp
  moreover have "same_outside (table (region s 0)) ?m ?m'"
    using X(1) nb(2) by (intro field_frames same_outside_refl)
  ultimately show ?thesis using re by blast
qed

text \<open>C21: Shrinking a block between blocks in use.  \<open>mem_realloc\<close> returns the same pointer, but the
  bytes that are left over are in no block that can be found: the blocks that follow are from now on
  taken for blocks that lie lower by that number of bytes, so that \<open>mem_free\<close> does not find them
  under their addresses any more; the budget rises all the same.\<close>

theorem realloc_shrink_shifts_blocks:
  assumes hs: "heap_state s bs" and sz: "unat sz \<le> heap_free s" "unat sz < w" "w < 2 ^ 31"
    and f: "a_fix bs = a # r0" and fnd: "a_find (unat ptr) (heap_base s + snd a) a r0 = Some (pr, g, unat ptr, w, r)"
    and no: "\<not> free_before 0 g" "\<not> free_after 0 r" and room: "length bs < heap_table s"
  shows "\<exists>s' bs' xs ys. mem_realloc ptr sz s = Some (ptr, s') \<and> heap_chain s' bs'
    \<and> live (heap_base s) bs = xs @ (unat ptr, w) # ys
    \<and> live (heap_base s) bs' = xs @ (unat ptr, unat sz) # map (apfst (\<lambda>q. q - (w - unat sz))) ys
    \<and> total_size bs' = total_size bs - (w - unat sz)
    \<and> heap_free s' = heap_free s + (w - unat sz)
    \<and> same_outside (table (region s 0)) (ram s) (ram s')"
proof -
  obtain m' pre h x post ps eh W qs b where
    re: "mem_realloc ptr sz s = realloc_found 0 ptr sz x h b (s\<lparr>ram := m'\<rparr>)"
    and ok: "heap_ok m' (region s 0) (pre @ h # x # post) (ps @ eh # (BLOCK_USED, W) # qs)" "length ps = length pre"
    and fr: "same_outside (table (region s 0)) (ram s) m'"
    and abs: "map abs_block ps = pr" "abs_block eh = g" "unat b = unat ptr" "unat W = w" "map abs_block qs = r"
    using mem_realloc_at [OF hs sz(1) f fnd] .
  let ?t = "s\<lparr>ram := m'\<rparr>" and ?bs = "pr @ g # (True, unat sz) # r"
  have t: "region ?t 0 = region s 0" "ram ?t = m'" by (simp_all add: region_def)
  have b: "b = ptr" using abs(3) by (simp add: word_unat_eq_iff)
  note A = a_find_live [OF fnd refl] and hd0 = heap_state_D [OF hs]
  have len: "length (ps @ eh # (BLOCK_USED, W) # qs) < heap_table s"
    using a_find_below [OF fnd refl] length_a_fix [of bs] f room abs by auto
  have sz': "unat sz < 2 ^ 31" "unat W < 2 ^ 31" "unat sz < unat W" using sz abs(4) by simp_all
  from realloc_found_split [of ?t, unfolded t, OF ok sz'] no len abs(2,5) obtain m2 where
    m2: "realloc_found 0 ptr sz x h b ?t = Some (b, take_free 0 (sz - W) (?t\<lparr>ram := m2\<rparr>))"
      "heap_chain (?t\<lparr>ram := m2\<rparr>) (map abs_block (ps @ eh # (BLOCK_USED, sz) # qs))"
      "same_outside (table (region s 0)) m' m2" by blast
  let ?s' = "take_free 0 (sz - W) (s\<lparr>ram := m2\<rparr>)"
  have "mem_realloc ptr sz s = Some (ptr, ?s')" using re m2(1) b by simp
  moreover have "heap_chain ?s' ?bs" using m2(2) abs by (simp add: heap_chain_def abs_block_def)
  moreover have tot: "total_size bs = total_size pr + snd g + w + total_size r"
    and l: "live (heap_base s) bs = live (heap_base s) (pr @ [g]) @ (unat ptr, w) # live (unat ptr + w) r"
    using A total_a_fix [of bs] live_a_fix [of "heap_base s" bs] f by simp_all
  moreover have "live (unat ptr + unat sz) r = map (apfst (\<lambda>q. q - (w - unat sz))) (live (unat ptr + w) r)"
    using live_shift [of "w - unat sz" "unat ptr + w" r] sz(2) by simp
  moreover from this have "live (heap_base s) ?bs = live (heap_base s) (pr @ [g]) @ (unat ptr, unat sz)
      # map (apfst (\<lambda>q. q - (w - unat sz))) (live (unat ptr + w) r)"
    using live_append [of "heap_base s" "pr @ [g]" "(True, unat sz) # r"] A by (simp only: append_assoc) simp
  moreover have "total_size ?bs = total_size bs - (w - unat sz)" using tot sz(2) by simp
  moreover have "heap_free ?s' = heap_free s + (w - unat sz)"
  proof -
    have "snd a \<le> total_size (pr @ [g])" using A by (cases pr) auto
    moreover have "heap_free s \<le> snd a" using a_fix_head [OF hd0(1)] hd0(2,3) f by simp
    moreover have "heap_base s + total_size bs < 2 ^ 32" using hs by (simp add: heap_state_def)
    ultimately have "heap_free s + unat W < 2 ^ 32" using tot abs(4) by simp
    from unat_border [OF this] sz(1,2) abs(4) show ?thesis by simp
  qed
  moreover have "same_outside (table (region s 0)) (ram s) (ram ?s')"
    using fr m2(3) by (auto intro: same_outside_trans)
  ultimately show ?thesis
    by (intro exI [of _ ?s'] exI [of _ ?bs] exI [of _ "live (heap_base s) (pr @ [g])"] exI [of _ "live (unat ptr + w) r"]) simp
qed

theorem realloc_shrink_shifts_blocks_witness:
  "\<exists>s s' bs'. mem_realloc 0x7F7FA0 8 s = Some (0x7F7FA0, s') \<and> heap_chain s' bs'
    \<and> live 0x10000 bs' = [(0x7F7F90, 16), (0x7F7FA0, 8), (0x7F7FA8, 64)]"
proof -
  obtain s0 where s0: "heap_state s0 [(False, 8290208), (True, 32), (True, 64)]" "heap_base s0 = 0x10000"
    "heap_free s0 = 8290208" "heap_table s0 = 8192" by (rule kernel_heap_two_blocks)
  obtain p0 s where s: "heap_state s (a_alloc (unat (16 :: u32)) [(False, 8290208), (True, 32), (True, 64)])"
    "region s 0 = (region s0 0)\<lparr>rg_free_size := rg_free_size (region s0 0) - 16\<rparr>"
    using mem_alloc_taken [OF s0(1), of 16] s0 by auto
  have "(16 :: u32) \<le> rg_free_size (region s0 0)" using s0(3) by (simp add: word_le_nat_alt)
  then have r: "heap_free s = 8290192" "heap_base s = 0x10000" "heap_table s = 8192"
    using s(2) s0 by (simp_all add: unat_sub_no_wrap)
  have hs: "heap_state s [(False, 8290192), (True, 16), (True, 32), (True, 64)]"
    using s(1) by (simp add: a_alloc_def)
  have f: "a_find (unat (0x7F7FA0 :: u32)) (heap_base s + snd (False, 8290192 :: nat)) (False, 8290192)
      [(True, 16), (True, 32), (True, 64)]
    = Some ([(False, 8290192)], (True, 16), unat (0x7F7FA0 :: u32), 32, [(True, 64)])"
    by (simp add: r a_find.simps)
  have l: "live (heap_base s) [(False, 8290192), (True, 16), (True, 32), (True, 64)]
      = [(0x7F7F90, 16), (0x7F7FA0, 32), (0x7F7FC0, 64)]" by (simp add: r)
  have "\<exists>s' bs' xs ys. mem_realloc 0x7F7FA0 8 s = Some (0x7F7FA0, s') \<and> heap_chain s' bs'
    \<and> live (heap_base s) [(False, 8290192), (True, 16), (True, 32), (True, 64)] = xs @ (unat (0x7F7FA0 :: u32), 32) # ys
    \<and> live (heap_base s) bs' = xs @ (unat (0x7F7FA0 :: u32), unat (8 :: u32)) # map (apfst (\<lambda>q. q - (32 - unat (8 :: u32)))) ys
    \<and> total_size bs' = total_size [(False, 8290192), (True, 16), (True, 32), (True, 64)] - (32 - unat (8 :: u32))
    \<and> heap_free s' = heap_free s + (32 - unat (8 :: u32))
    \<and> same_outside (table (region s 0)) (ram s) (ram s')"
    by (rule realloc_shrink_shifts_blocks [OF hs _ _ _ _ f]) (simp_all add: r free_before_def free_after_def)
  then obtain s' bs' xs ys where w: "mem_realloc 0x7F7FA0 8 s = Some (0x7F7FA0, s')" "heap_chain s' bs'"
    "[(0x7F7F90, 16), (0x7F7FA0, 32), (0x7F7FC0, 64)] = xs @ (0x7F7FA0 :: nat, 32 :: nat) # ys"
    "live 0x10000 bs' = xs @ (0x7F7FA0, 8) # map (apfst (\<lambda>q. q - 24)) ys" unfolding l by (auto simp: r(2))
  from w(3) have "xs = [(0x7F7F90, 16)]" "ys = [(0x7F7FC0, 64)]" by (auto simp: Cons_eq_append_conv)
  with w show ?thesis by auto
qed

end
