(* ===== verification/Allocator.thy ===== *)
theory Allocator
  imports Heap
begin

text \<open>
  The heap as its clients see it: the interface \<open>allocator\<close>, what a client can do with a block
  it was given, and the interpretation on \<open>malloc\<close> and \<open>free\<close>.  \<open>calloc\<close> and \<open>qsort\<close> are clients.
\<close>

subsection \<open>The interface\<close>

text \<open>
  \<open>used s bs\<close> says that \<open>bs\<close> are the addresses and sizes of the blocks in use, in address order;
  \<open>own s\<close> is the memory that the allocator keeps for itself.
\<close>

locale allocator =
  fixes alloc :: "u32 \<Rightarrow> machine \<Rightarrow> (u32 \<times> machine) option"
    and release :: "u32 \<Rightarrow> machine \<Rightarrow> machine option"
    and used :: "machine \<Rightarrow> (nat \<times> nat) list \<Rightarrow> bool"
    and own :: "machine \<Rightarrow> u32 set"
  assumes alloc_block: "used s bs \<Longrightarrow> alloc n s = Some (p, s')
      \<Longrightarrow> used s' ((unat p, unat n) # bs) \<and> own s' = own s \<and> same_outside (own s) (ram s) (ram s')"
    and release_block: "used s ((unat p, k) # bs)
      \<Longrightarrow> \<exists>s'. release p s = Some s' \<and> used s' bs \<and> own s' = own s \<and> same_outside (own s) (ram s) (ram s')"
    and client_write: "used s bs \<Longrightarrow> same_outside A (ram s) m \<Longrightarrow> own s \<inter> A = {}
      \<Longrightarrow> used (s\<lparr>ram := m\<rparr>) bs \<and> own (s\<lparr>ram := m\<rparr>) = own s"
    and blocks_apart: "used s bs \<Longrightarrow> sorted_wrt apart bs"
begin

text \<open>What lies outside the allocator's memory is kept, and a new block is apart from the others.\<close>

lemma alloc_keeps:
  assumes "used s bs" "alloc n s = Some (q, s')" "span p k \<inter> own s = {}"
  shows "rd (ram s') p k = rd (ram s) p k"
  using alloc_block [OF assms(1,2)] assms(3) by (intro rd_cong) (auto simp: same_outside_def)

lemma alloc_fresh:
  assumes "used s bs" "alloc n s = Some (p, s')" "(q, k) \<in> set bs"
  shows "unat p + unat n \<le> q"
  using blocks_apart alloc_block [OF assms(1,2)] assms(3) by (fastforce simp: apart_def)

text \<open>A block taken and filled.\<close>

lemma alloc_fill:
  assumes u: "used s bs" "alloc n s = Some (p, s')" and o: "span p (length xs) \<inter> own s = {}"
    and len: "length xs < 2 ^ 32"
  defines "s'' \<equiv> s'\<lparr>ram := wr (ram s') p xs\<rparr>"
  shows "used s'' ((unat p, unat n) # bs)" "own s'' = own s" "rd (ram s'') p (length xs) = xs"
    "same_outside (own s \<union> span p (length xs)) (ram s) (ram s'')"
proof -
  note a = alloc_block [OF u]
  have w: "same_outside (span p (length xs)) (ram s') (wr (ram s') p xs)" by (rule same_outside_wr) simp_all
  from client_write [OF _ this] a o
  show "used s'' ((unat p, unat n) # bs)" "own s'' = own s" by (auto simp: s''_def)
  show "rd (ram s'') p (length xs) = xs" using rd_wr_same [of xs "ram s'" p] len by (simp add: s''_def)
  show "same_outside (own s \<union> span p (length xs)) (ram s) (ram s'')"
    using a w by (simp add: s''_def same_outside_def)
qed

text \<open>A block taken, used, and given back.\<close>

lemma borrow:
  assumes u: "used s bs" "alloc n s = Some (p, s1)" and w: "same_outside A (ram s1) m" "own s \<inter> A = {}"
  shows "\<exists>s'. release p (s1\<lparr>ram := m\<rparr>) = Some s' \<and> used s' bs \<and> own s' = own s
    \<and> same_outside (A \<union> own s) (ram s) (ram s')"
proof -
  note a = alloc_block [OF u]
  have "used (s1\<lparr>ram := m\<rparr>) ((unat p, unat n) # bs)" and o: "own (s1\<lparr>ram := m\<rparr>) = own s"
    using client_write [OF _ w(1)] a w(2) by auto
  from release_block [OF this(1)] obtain s' where
    "release p (s1\<lparr>ram := m\<rparr>) = Some s'" "used s' bs" "own s' = own s" "same_outside (own s) m (ram s')"
    using o by auto
  with a w(1) show ?thesis by (auto simp: same_outside_def)
qed

end

subsection \<open>The heap provides it\<close>

definition heap_used :: "machine \<Rightarrow> (nat \<times> nat) list \<Rightarrow> bool" where
  "heap_used s bs \<longleftrightarrow> (\<exists>hs. heap_state s hs \<and> bs = live (heap_base s) hs)"

lemma mem_alloc_granted:
  assumes hs: "heap_state s hs" and p: "mem_alloc n s = Some (p, s')" "p \<noteq> 0"
  shows "unat n \<le> heap_free s" "length (a_fix hs) < heap_table s"
proof -
  show n: "unat n \<le> heap_free s" using mem_alloc_refused [OF hs, of n] p by (cases "heap_free s < unat n") auto
  show "length (a_fix hs) < heap_table s"
    using mem_alloc_no_descriptor [OF hs n] heap_state_D(4) [OF hs] p by fastforce
qed

interpretation heap: allocator malloc free heap_used "\<lambda>s. table (region s 0)"
proof (unfold_locales, goal_cases)
  case (1 s bs n p s')
  then obtain hs where hs: "heap_state s hs" "bs = live (heap_base s) hs" by (auto simp: heap_used_def)
  have p: "mem_alloc n s = Some (p, s')" "p \<noteq> 0"
    using 1(2) by (auto simp: malloc_def bind_eq_Some_conv split: if_splits)
  note g = mem_alloc_granted [OF hs(1) p]
  from mem_alloc_taken [OF hs(1) g] p obtain
    s': "heap_state s' (a_alloc (unat n) hs)" "unat p = heap_base s + snd (hd (a_fix hs)) - unat n"
      "same_outside (table (region s 0)) (ram s) (ram s')"
      "region s' 0 = (region s 0)\<lparr>rg_free_size := rg_free_size (region s 0) - n\<rparr>" by auto
  have "live (heap_base s) (a_alloc (unat n) hs) = (unat p, unat n) # bs"
    using live_a_alloc [OF heap_state_D(1,2) [OF hs(1)], of "unat n" "heap_base s"] s'(2) hs(2) g(1)
      heap_state_D(3) [OF hs(1)] by simp
  with s' show ?case by (auto simp: heap_used_def intro!: exI [of _ "a_alloc (unat n) hs"])
next
  case (2 s p k bs)
  then obtain hs where hs: "heap_state s hs" "live (heap_base s) hs = (unat p, k) # bs"
    by (auto simp: heap_used_def)
  from mem_free_frees [OF hs(1), of p] obtain s' where
    s': "mem_free p s = Some s'" "heap_state s' (a_free (heap_base s) (unat p) hs)"
      "region s' 0 = region s 0" "same_outside (table (region s 0)) (ram s) (ram s')" by auto
  have "live (heap_base s) (a_free (heap_base s) (unat p) hs) = bs"
    using live_a_free [OF heap_state_D(1,2) [OF hs(1)], of "heap_base s" "unat p"] hs(2) by simp
  with s' show ?case by (auto simp: heap_used_def free_def intro!: exI [of _ "a_free (heap_base s) (unat p) hs"])
next
  case (3 s bs A m)
  have "region (s\<lparr>ram := m\<rparr>) 0 = region s 0" by (simp add: region_def)
  with 3 heap_state_write [of s _ A m] show ?case by (auto simp: heap_used_def)
next
  case (4 s bs)
  then show ?case using live_apart by (auto simp: heap_used_def)
qed

subsection \<open>\<open>calloc\<close>\<close>

lemma calloc_fresh:
  assumes "heap_used s bs" "calloc n sz s = Some (p, s')" "span p (unat (n * sz)) \<inter> table (region s 0) = {}"
  shows "heap_used s' ((unat p, unat (n * sz)) # bs)"
    "same_outside (table (region s 0) \<union> span p (unat (n * sz))) (ram s) (ram s')"
proof -
  from assms(2) obtain s1 where s1: "malloc (n * sz) s = Some (p, s1)"
    "s' = s1\<lparr>ram := wr (ram s1) p (replicate (unat (n * sz)) 0)\<rparr>"
    by (auto simp: calloc_def memset_eq bind_eq_Some_conv)
  with heap.alloc_fill [OF assms(1) s1(1), of "replicate (unat (n * sz)) 0"] assms(3)
  show "heap_used s' ((unat p, unat (n * sz)) # bs)"
    "same_outside (table (region s 0) \<union> span p (unat (n * sz))) (ram s) (ram s')" by simp_all
qed

end
