(* ===== verification/Sorting.thy ===== *)
theory Sorting
  imports Allocator
begin

text \<open>
  \<open>qsort\<close> of \<open>lib.c\<close>, a client of the heap, of the block routines and of a comparison the
  caller passes.  The interface of a comparison is the locale \<open>comparison\<close>; \<open>memcmp\<close> provides one.
\<close>

subsection \<open>The function\<close>

text \<open>
  The comparison is the caller's function.  The element addresses are \<open>j * size\<close>: the base
  is not added; the second \<open>memcpy\<close> takes the address as its length.
\<close>

definition qsort_swap :: "u32 \<Rightarrow> u32 \<Rightarrow> u32 \<Rightarrow> machine \<Rightarrow> machine" where
  "qsort_swap tmp rbase sz s =
     (let m1 = snd (memcpy tmp rbase sz (ram s));
          m2 = snd (memcpy (rbase + sz) rbase rbase m1);
          m3 = snd (memcpy rbase tmp sz m2)
      in s\<lparr>ram := m3\<rparr>)"

fun qsort_inner ::
    "(u32 \<Rightarrow> u32 \<Rightarrow> machine \<Rightarrow> (u32 \<times> machine) option) \<Rightarrow> u32 \<Rightarrow> u32 \<Rightarrow> nat \<Rightarrow> u32 \<Rightarrow> machine
      \<Rightarrow> machine option" where
  "qsort_inner cmp tmp sz 0 j s = Some s"
| "qsort_inner cmp tmp sz (Suc n) j s = do {
     let rbase = j * sz;
     (r, s1) \<leftarrow> cmp rbase (rbase + sz) s;
     qsort_inner cmp tmp sz n (j + 1) (if 0 <s r then qsort_swap tmp rbase sz s1 else s1) }"

fun qsort_outer ::
    "(u32 \<Rightarrow> u32 \<Rightarrow> machine \<Rightarrow> (u32 \<times> machine) option) \<Rightarrow> u32 \<Rightarrow> u32 \<Rightarrow> nat \<Rightarrow> nat \<Rightarrow> machine
      \<Rightarrow> machine option" where
  "qsort_outer cmp tmp sz k 0 s = Some s"
| "qsort_outer cmp tmp sz k (Suc i) s = do {
     s1 \<leftarrow> qsort_inner cmp tmp sz k 0 s;
     qsort_outer cmp tmp sz k i s1 }"

definition qsort ::
    "(u32 \<Rightarrow> u32 \<Rightarrow> machine \<Rightarrow> (u32 \<times> machine) option) \<Rightarrow> u32 \<Rightarrow> u32 \<Rightarrow> u32 \<Rightarrow> machine
      \<Rightarrow> machine option" where
  "qsort cmp base n sz s = do {
     (tmp, s1) \<leftarrow> malloc sz s;
     s2 \<leftarrow> qsort_outer cmp tmp sz (unat (n - 1)) (unat (n - 1)) s1;
     free tmp s2 }"

subsection \<open>Comparisons\<close>

text \<open>A comparison returns, and leaves the machine as it is.\<close>

locale comparison =
  fixes cmp :: "u32 \<Rightarrow> u32 \<Rightarrow> machine \<Rightarrow> (u32 \<times> machine) option"
  assumes returns: "\<exists>r. cmp a b s = Some (r, s)"

definition bytewise :: "u32 \<Rightarrow> u32 \<Rightarrow> u32 \<Rightarrow> machine \<Rightarrow> (u32 \<times> machine) option" where
  "bytewise sz a b s = Some (memcmp a b sz (ram s), s)"

interpretation bytewise: comparison "bytewise sz" for sz
  by unfold_locales (simp add: bytewise_def)

subsection \<open>What is written\<close>

lemma same_outside_memcpy:
  "same_outside A m m1 \<Longrightarrow> span d (unat n) \<subseteq> A \<Longrightarrow> same_outside A m (snd (memcpy d s n m1))"
  using memcpy_frame [of _ d n s m1] by (fastforce simp: same_outside_def)

lemma span_low: "unat a + k \<le> n \<Longrightarrow> span a k \<subseteq> span 0 n"
  using span_shift [of 0 "unat a" k] span_mono [of "unat a + k" n 0] by simp

lemma unat_mult_le: "unat (a * b :: u32) \<le> unat a * unat b"
  by (simp add: unat_word_ariths)

lemma unat_add_le: "unat (a + b :: u32) \<le> unat a + unat b"
  by (simp add: unat_word_ariths)

lemma qsort_swap_frame:
  assumes "span tmp (unat sz) \<subseteq> A" "span 0 (2 * (unat j + 1) * unat sz) \<subseteq> A"
  shows "\<exists>m. qsort_swap tmp (j * sz) sz s = s\<lparr>ram := m\<rparr> \<and> same_outside A (ram s) m"
proof -
  let ?b = "j * sz"
  have b: "unat ?b \<le> unat j * unat sz" by (rule unat_mult_le)
  have "unat (?b + sz) + unat ?b \<le> 2 * (unat j + 1) * unat sz"
    using unat_add_le [of ?b sz] b by (simp add: algebra_simps)
  then have "span (?b + sz) (unat ?b) \<subseteq> A" using span_low assms(2) by blast
  moreover have "unat ?b + unat sz \<le> 2 * (unat j + 1) * unat sz" using b by (simp add: algebra_simps)
  then have "span ?b (unat sz) \<subseteq> A" using span_low assms(2) by blast
  ultimately show ?thesis using assms(1)
    by (auto simp: qsort_swap_def Let_def intro!: exI same_outside_memcpy)
qed

context comparison
begin

lemma qsort_inner_frame:
  assumes "span tmp (unat sz) \<subseteq> A" "span 0 (2 * (unat j + n) * unat sz) \<subseteq> A"
  shows "\<exists>m. qsort_inner cmp tmp sz n j s = Some (s\<lparr>ram := m\<rparr>) \<and> same_outside A (ram s) m"
  using assms(2)
proof (induction n arbitrary: j s)
  case 0
  show ?case by (intro exI [of _ "ram s"]) simp
next
  case (Suc n)
  obtain r where r: "cmp (j * sz) (j * sz + sz) s = Some (r, s)" using returns by blast
  have "span 0 (2 * (unat j + 1) * unat sz) \<subseteq> span 0 (2 * (unat j + Suc n) * unat sz)"
    by (intro span_mono mult_le_mono) simp_all
  with Suc.prems have "span 0 (2 * (unat j + 1) * unat sz) \<subseteq> A" by blast
  note swap = qsort_swap_frame [OF assms(1) this, of s]
  obtain m where
    m: "(if 0 <s r then qsort_swap tmp (j * sz) sz s else s) = s\<lparr>ram := m\<rparr>" "same_outside A (ram s) m"
  proof (cases "0 <s r")
    case True
    with swap that show thesis by auto
  next
    case False
    with that [of "ram s"] show thesis by simp
  qed
  have "span 0 (2 * (unat (j + 1) + n) * unat sz) \<subseteq> span 0 (2 * (unat j + Suc n) * unat sz)"
    using unat_add_le [of j 1] by (intro span_mono mult_le_mono) simp_all
  with Suc.prems have "span 0 (2 * (unat (j + 1) + n) * unat sz) \<subseteq> A" by blast
  from Suc.IH [OF this, of "s\<lparr>ram := m\<rparr>"] m r show ?case
    by (auto simp: Let_def intro: same_outside_trans)
qed

lemma qsort_outer_frame:
  assumes "span tmp (unat sz) \<subseteq> A" "span 0 (2 * k * unat sz) \<subseteq> A"
  shows "\<exists>m. qsort_outer cmp tmp sz k i s = Some (s\<lparr>ram := m\<rparr>) \<and> same_outside A (ram s) m"
proof (induction i arbitrary: s)
  case 0
  show ?case by (intro exI [of _ "ram s"]) simp
next
  case (Suc i)
  from qsort_inner_frame [OF assms(1), of 0 k s] assms(2) obtain m where
    m: "qsort_inner cmp tmp sz k 0 s = Some (s\<lparr>ram := m\<rparr>)" "same_outside A (ram s) m" by auto
  from Suc.IH [of "s\<lparr>ram := m\<rparr>"] m show ?case by (auto intro: same_outside_trans)
qed

text \<open>All of \<open>qsort\<close>: the temporary block is taken from the heap and given back.\<close>

lemma qsort_frame:
  assumes u: "heap_used s bs" "malloc sz s = Some (tmp, s1)"
    and A: "A = span 0 (2 * unat (n - 1) * unat sz) \<union> span tmp (unat sz)" "table (region s 0) \<inter> A = {}"
  shows "\<exists>s'. qsort cmp base n sz s = Some s' \<and> heap_used s' bs
    \<and> same_outside (A \<union> table (region s 0)) (ram s) (ram s')"
proof -
  obtain m where m: "qsort_outer cmp tmp sz (unat (n - 1)) (unat (n - 1)) s1 = Some (s1\<lparr>ram := m\<rparr>)"
    "same_outside A (ram s1) m"
    using qsort_outer_frame [of tmp sz A "unat (n - 1)" "unat (n - 1)" s1] A(1) by auto
  from heap.borrow [OF u m(2) A(2)] u(2) m(1) show ?thesis by (auto simp: qsort_def)
qed

end

subsection \<open>Properties\<close>

text \<open>C33: With a comparison that returns and changes nothing, when \<open>malloc\<close> grants the temporary
  block and neither it nor the low addresses that \<open>qsort\<close> mistakes for the elements hold the
  descriptors, \<open>qsort\<close> returns with the blocks in use that it found, and never writes the array
  it was given: besides the descriptors and its
  temporary block only the first \<open>2 * (n - 1) * size\<close> bytes of memory can change, for every base.\<close>

theorem qsort_leaves_array:
  assumes "\<And>a b s. \<exists>r. cmp a b s = Some (r, s)"
    and "heap_used s bs" "malloc sz s = Some (tmp, s1)"
    and "table (region s 0) \<inter> (span 0 (2 * unat (n - 1) * unat sz) \<union> span tmp (unat sz)) = {}"
  shows "\<exists>s'. qsort cmp base n sz s = Some s' \<and> heap_used s' bs
    \<and> same_outside (span 0 (2 * unat (n - 1) * unat sz) \<union> span tmp (unat sz) \<union> table (region s 0))
        (ram s) (ram s')"
proof -
  have "comparison cmp" using assms(1) by (simp add: comparison_def)
  from comparison.qsort_frame [OF this assms(2,3) refl assms(4)] show ?thesis .
qed

theorem qsort_leaves_array_witness:
  "\<exists>s'. qsort (bytewise 4) 0x300000 3 4 (kernel_heap (\<lambda>_. 0)) = Some s' \<and> heap_used s' []
    \<and> same_outside (span 0 (2 * unat (3 - 1 :: u32) * unat (4 :: u32)) \<union> span 0x7F7FFC (unat (4 :: u32))
          \<union> table (region (kernel_heap (\<lambda>_. 0)) 0)) (ram (kernel_heap (\<lambda>_. 0))) (ram s')"
proof -
  let ?s = "kernel_heap (\<lambda>_. 0)"
  note k = kernel_heap_state [of "\<lambda>_. 0"]
  obtain p s1 where p: "mem_alloc 4 ?s = Some (p, s1)"
    "unat p = heap_base ?s + snd (hd (a_fix [(False, 8290304)])) - unat (4 :: u32)"
    using mem_alloc_taken [OF k(1), of 4] k by auto
  then have "unat p = unat (0x7F7FFC :: u32)" using k by simp
  then have "p = 0x7F7FFC" by (simp only: word_unat_eq_iff)
  with p(1) have m: "malloc 4 ?s = Some (0x7F7FFC, s1)" by (simp add: malloc_def)
  have "span 0 16 \<inter> span (0x10000 :: u32) 98304 = {}" "span (0x10000 :: u32) 98304 \<inter> span 0x7F7FFC 4 = {}"
    by (rule span_apart; simp)+
  with kernel_table [of "\<lambda>_. 0"] have t: "table (region ?s 0)
      \<inter> (span 0 (2 * unat (3 - 1 :: u32) * unat (4 :: u32)) \<union> span 0x7F7FFC (unat (4 :: u32))) = {}"
    by auto
  have "heap_used ?s []" using k by (auto simp: heap_used_def)
  from qsort_leaves_array [OF bytewise.returns this m t] show ?thesis .
qed

end
