(* ===== verification/Printf_Length.thy ===== *)
theory Printf_Length
  imports Printf_Text
begin

text \<open>
  The length modifiers \<open>hh\<close>, \<open>h\<close>, \<open>l\<close>, \<open>ll\<close>, \<open>j\<close>, \<open>t\<close> and \<open>z\<close>.  The C types they stand for are words of 8,
  16, 32 and 64 bits, and the text is that of the argument at this width; an argument of 64 bits
  takes two words of the argument list.
\<close>

subsection \<open>Arguments and text\<close>

definition length_mods :: "u8 list set" where
  "length_mods = {[], bytes ''hh'', bytes ''h'', bytes ''l'', bytes ''ll'', bytes ''j'', bytes ''t'', bytes ''z''}"

abbreviation wide :: "u8 list \<Rightarrow> bool" where
  "wide mods \<equiv> mods \<in> {bytes ''ll'', bytes ''j''}"

definition sized_args :: "u8 list \<Rightarrow> u64 \<Rightarrow> va" where
  "sized_args mods v = (if wide mods then [ucast v, ucast (drop_bit 32 v)] else [ucast v])"

definition c_sized :: "u8 list \<Rightarrow> u8 list \<Rightarrow> u8 \<Rightarrow> nat \<Rightarrow> nat option \<Rightarrow> u64 \<Rightarrow> u8 list" where
  "c_sized mods fl spec width prec v =
     (if wide mods then c_integer fl spec width prec v
      else if mods = bytes ''hh'' then c_integer fl spec width prec (ucast v :: u8)
      else if mods = bytes ''h'' then c_integer fl spec width prec (ucast v :: u16)
      else c_integer fl spec width prec (ucast v :: u32))"

definition hash_sized_ok :: "u8 list \<Rightarrow> u8 list \<Rightarrow> u8 \<Rightarrow> nat \<Rightarrow> nat option \<Rightarrow> u64 \<Rightarrow> bool" where
  "hash_sized_ok mods fl spec width prec v \<longleftrightarrow>
     (if wide mods then hash_ok fl spec width prec v
      else if mods = bytes ''hh'' then hash_ok fl spec width prec (ucast v :: u8)
      else if mods = bytes ''h'' then hash_ok fl spec width prec (ucast v :: u16)
      else hash_ok fl spec width prec (ucast v :: u32))"

lemma c_sized_printable: "c < 32 \<Longrightarrow> c \<notin> set (c_sized mods fl spec width prec v)"
  by (simp add: c_sized_def c_integer_printable)

lemma length_c_integer_64:
  assumes "LENGTH('a) \<le> 64"
  shows "length (c_integer fl spec width prec (w :: 'a :: len word))
    \<le> max width (2 + max (case prec of None \<Rightarrow> 0 | Some k \<Rightarrow> k) 64)"
  using assms by (intro order.trans [OF length_c_integer_bits] max.mono add_mono order_refl)

lemma length_c_sized:
  "length (c_sized mods fl spec width prec v) \<le> max width (2 + max (case prec of None \<Rightarrow> 0 | Some k \<Rightarrow> k) 64)"
  unfolding c_sized_def by (simp only: length_c_integer_64 split: if_split) (intro conjI impI length_c_integer_64; simp)

text \<open>Widening an argument keeps its text.\<close>

lemma sint_scast: "LENGTH('a) \<le> LENGTH('b) \<Longrightarrow> sint (scast (v :: 'a :: len word) :: 'b :: len word) = sint v"
  by (simp add: signed_scast_eq sint_uint [of v] signed_take_bit_signed_take_bit min_def diff_le_mono)

lemma unat_ucast_up: "LENGTH('a) \<le> LENGTH('b) \<Longrightarrow> unat (ucast (v :: 'a :: len word) :: 'b :: len word) = unat v"
proof -
  assume "LENGTH('a) \<le> LENGTH('b)"
  then have "(2 :: nat) ^ LENGTH('a) \<le> 2 ^ LENGTH('b)" by (intro power_increasing) simp_all
  with unsigned_less [of v, where ?'a = nat] have "unat v < 2 ^ LENGTH('b)" by (rule less_le_trans)
  then show ?thesis by (simp add: unsigned_ucast_eq take_bit_nat_eq_self)
qed

lemma c_integer_scast:
  assumes "spec \<in> {chr CHR ''d'', chr CHR ''i''}" "LENGTH('a) \<le> LENGTH('b)"
  shows "c_integer fl spec width prec (scast (v :: 'a :: len word) :: 'b :: len word) = c_integer fl spec width prec v"
proof -
  have s: "sint (scast v :: 'b word) = sint v" using assms(2) by (rule sint_scast)
  have "(scast v :: 'b word) = 0 \<longleftrightarrow> v = 0" by (metis s signed_eq_0_iff)
  moreover have "(scast v :: 'b word) <s 0 \<longleftrightarrow> v <s 0" by (simp add: word_sless_alt s)
  ultimately show ?thesis using assms(1) unfolding c_integer_def Let_def by (simp only: s if_True)
qed

lemma c_integer_ucast:
  assumes "spec \<notin> {chr CHR ''d'', chr CHR ''i''}" "LENGTH('a) \<le> LENGTH('b)"
  shows "c_integer fl spec width prec (ucast (v :: 'a :: len word) :: 'b :: len word) = c_integer fl spec width prec v"
proof -
  have s: "unat (ucast v :: 'b word) = unat v" using assms(2) by (rule unat_ucast_up)
  have z: "(ucast v :: 'b word) = 0 \<longleftrightarrow> v = 0" by (metis s unsigned_0 word_unat_eq_iff)
  then show ?thesis using assms(1) unfolding c_integer_def Let_def by (simp only: s if_False)
qed

lemma hash_ok_ucast:
  assumes "LENGTH('a) \<le> LENGTH('b)"
  shows "hash_ok fl spec width prec (ucast (v :: 'a :: len word) :: 'b :: len word) = hash_ok fl spec width prec v"
proof -
  have s: "unat (ucast v :: 'b word) = unat v" using assms by (rule unat_ucast_up)
  have z: "(ucast v :: 'b word) = 0 \<longleftrightarrow> v = 0" by (metis s unsigned_0 word_unat_eq_iff)
  show ?thesis unfolding hash_ok_def s z ..
qed

lemma hash_ok_signed: "spec \<in> {chr CHR ''d'', chr CHR ''i''} \<Longrightarrow> hash_ok fl spec width prec v"
  by (auto simp: hash_ok_def)

subsection \<open>The conversion\<close>

text \<open>The flags that the modifier sets.\<close>

definition mods_flags :: "u8 list \<Rightarrow> u32 \<Rightarrow> bool" where
  "mods_flags mods f \<longleftrightarrow> has f FLAGS_CHAR = (mods = bytes ''hh'') \<and> has f FLAGS_SHORT = (mods \<in> {bytes ''h'', bytes ''hh''})
     \<and> has f FLAGS_LONG = (mods \<in> {bytes ''l'', bytes ''ll'', bytes ''t'', bytes ''z''}) \<and> has f FLAGS_LONG_LONG = wide mods"

lemma long_long_words: "long_long (ucast v, ucast (drop_bit 32 v)) = v"
  by (rule bit_word_eqI) (auto simp: long_long_def bit_simps)

lemma conv_int_sized:
  assumes fw: "flag_layout fl (prec \<noteq> None) f" and spec: "spec \<in> set (bytes ''diuxXob'')"
    and mods: "mods_flags mods f" "wide mods \<Longrightarrow> spec \<noteq> chr CHR ''b''"
    and pw: "unat pw = (case prec of None \<Rightarrow> 0 | Some k \<Rightarrow> k)" "unat pw < 32"
    and left: "chr CHR ''-'' \<in> set fl \<Longrightarrow> prec = None"
    and zero: "chr CHR ''0'' \<in> set fl \<Longrightarrow> unat w \<le> 32"
    and hash: "hash_sized_ok mods fl spec (unat w) prec v"
  shows "conv_int out b ml spec f w pw (sized_args mods v @ va) p
    = Some (va, emits out b ml (c_sized mods fl spec (unat w) prec v) p)"
proof -
  let ?signed = "spec \<in> {chr CHR ''d'', chr CHR ''i''}"
  let ?g = "int_flags spec f"
  note g = int_flags_layout [OF fw spec]
  note base = int_base_conv [OF spec]
  have signed: "?signed \<longleftrightarrow> spec = chr CHR ''i'' \<or> spec = chr CHR ''d''" by auto
  show ?thesis
  proof (cases "wide mods")
    case True
    then have "spec \<in> set (bytes ''diuxXo'')" using mods(2) spec by auto
    moreover have "hash_ok fl spec (unat w) prec v" using hash True unfolding hash_sized_ok_def by (simp only: if_True)
    ultimately have "spec \<in> set (bytes ''diuxXo'')" "hash_ok fl spec (unat w) prec v" .
    from int_text_standard [OF fw spec _ conv_fits_64 [OF this(1)] pw left zero this(2)]
    have "int_text (conv_value spec v) (?signed \<and> v <s 0) (of_nat (conv_base spec)) (of_nat (conv_base spec)) pw w ?g
        = c_integer fl spec (unat w) prec v" by simp
    moreover have "(ucast (of_nat (conv_base spec) :: u32) :: u64) = of_nat (conv_base spec)"
      "(ucast (of_nat (conv_base spec) :: u64) :: u32) = of_nat (conv_base spec)"
      by (simp_all add: conv_base_def)
    moreover have "has ?g FLAGS_LONG_LONG" using True mods(1) g(11) unfolding mods_flags_def by blast
    ultimately have "conv_int out b ml spec f w pw (ucast v # ucast (drop_bit 32 v) # va) p
        = Some (va, emits out b ml (c_integer fl spec (unat w) prec v) p)"
      unfolding conv_int_def Let_def base signed [symmetric] conv_value_def
      by (cases ?signed) (simp_all only: va_arg2.simps bind.bind_lunit prod.case if_True if_False long_long_words ntoa_long_long_emits simp_thms)
    moreover have "sized_args mods v @ va = ucast v # ucast (drop_bit 32 v) # va"
      using True unfolding sized_args_def by (simp only: if_True append_Cons append_Nil)
    moreover have "c_sized mods fl spec (unat w) prec v = c_integer fl spec (unat w) prec v"
      using True unfolding c_sized_def by (simp only: if_True)
    ultimately show ?thesis by (simp only:)
  next
    case False
    define nv :: u32 where "nv = (if mods = bytes ''hh'' then if ?signed then scast (ucast v :: u8) else ucast (ucast v :: u8)
      else if mods = bytes ''h'' then if ?signed then scast (ucast v :: u16) else ucast (ucast v :: u16) else ucast v)"
    have u: "(ucast (ucast v :: u32) :: u8) = ucast v" "(ucast (ucast v :: u32) :: u16) = ucast v"
      by (rule bit_word_eqI, simp add: bit_simps)+
    have "conv_int out b ml spec f w pw (ucast v # va) p = Some (va, emits out b ml
        (int_text (conv_value spec nv) (?signed \<and> nv <s 0) (of_nat (conv_base spec)) (of_nat (conv_base spec)) pw w ?g) p)"
      using False mods(1) g(8-11) base u
      by (auto simp: conv_int_def Let_def mods_flags_def nv_def ntoa_long_emits conv_value_def char_to_int_def)
    moreover have "int_text (conv_value spec nv) (?signed \<and> nv <s 0) (of_nat (conv_base spec)) (of_nat (conv_base spec)) pw w ?g
        = c_integer fl spec (unat w) prec nv"
    proof (rule int_text_standard [OF fw spec _ conv_fits_32 pw left zero])
      show "hash_ok fl spec (unat w) prec nv"
        using hash False hash_ok_signed [of spec fl "unat w" prec nv]
          hash_ok_ucast [where 'a = 8 and 'b = 32] hash_ok_ucast [where 'a = 16 and 'b = 32]
        by (cases ?signed) (simp_all add: nv_def hash_sized_ok_def)
    qed simp_all
    moreover have "c_integer fl spec (unat w) prec nv = c_sized mods fl spec (unat w) prec v"
      using False c_integer_scast [of spec, where 'a = 8 and 'b = 32] c_integer_scast [of spec, where 'a = 16 and 'b = 32]
        c_integer_ucast [of spec, where 'a = 8 and 'b = 32] c_integer_ucast [of spec, where 'a = 16 and 'b = 32]
      by (simp add: nv_def c_sized_def)
    ultimately show ?thesis using False by (simp add: sized_args_def)
  qed
qed

end
