(* ===== verification/Printf_Format.thy ===== *)
theory Printf_Format
  imports Printf_Console Printf_Length
begin

text \<open>
  Whole formats.  A format is the concrete syntax of a list of items, characters and directives
  with flags, width, precision and length modifier, and its text is the concatenation of theirs.  That \<open>printf\<close>
  emits this text is shown over the interface \<open>text_sink\<close>, for the buffer and the console.
\<close>

subsection \<open>Syntax\<close>

text \<open>A width or a precision: absent, in the format, or an argument.\<close>

datatype extent = Absent | Fixed nat | Star u32

text \<open>\<open>Text\<close> has the address of a string and the string, \<open>Sized\<close> is an integer with a length modifier.\<close>

datatype item =
    Literal u8
  | Percent
  | Integer "u8 list" extent extent u8 u32
  | Sized "u8 list" extent extent "u8 list" u8 u64
  | Pointer u32
  | Character "u8 list" extent u32
  | Text "u8 list" extent extent u32 "u8 list"

fun width_syntax :: "extent \<Rightarrow> u8 list" where
  "width_syntax Absent = []"
| "width_syntax (Fixed n) = number_text 10 n"
| "width_syntax (Star w) = [chr CHR ''*'']"

definition prec_syntax :: "extent \<Rightarrow> u8 list" where
  "prec_syntax pr = (if pr = Absent then [] else chr CHR ''.'' # width_syntax pr)"

fun extent_args :: "extent \<Rightarrow> va" where
  "extent_args (Star w) = [w]"
| "extent_args _ = []"

definition directive_syntax :: "u8 list \<Rightarrow> extent \<Rightarrow> extent \<Rightarrow> u8 \<Rightarrow> u8 list" where
  "directive_syntax fl w pr spec = chr CHR ''%'' # fl @ width_syntax w @ prec_syntax pr @ [spec]"

fun item_syntax :: "item \<Rightarrow> u8 list" where
  "item_syntax (Literal c) = [c]"
| "item_syntax Percent = bytes ''%%''"
| "item_syntax (Integer fl w pr spec v) = directive_syntax fl w pr spec"
| "item_syntax (Sized fl w pr mods spec v) = chr CHR ''%'' # fl @ width_syntax w @ prec_syntax pr @ mods @ [spec]"
| "item_syntax (Pointer v) = bytes ''%p''"
| "item_syntax (Character fl w c) = directive_syntax fl w Absent (chr CHR ''c'')"
| "item_syntax (Text fl w pr q t) = directive_syntax fl w pr (chr CHR ''s'')"

fun item_args :: "item \<Rightarrow> va" where
  "item_args (Integer fl w pr spec v) = extent_args w @ extent_args pr @ [v]"
| "item_args (Sized fl w pr mods spec v) = extent_args w @ extent_args pr @ sized_args mods v"
| "item_args (Pointer v) = [v]"
| "item_args (Character fl w c) = extent_args w @ [c]"
| "item_args (Text fl w pr q t) = extent_args w @ extent_args pr @ [q]"
| "item_args _ = []"

subsection \<open>Meaning\<close>

text \<open>A negative width argument is the flag \<open>-\<close> and the width.\<close>

fun width_flags :: "extent \<Rightarrow> u8 list" where
  "width_flags (Star w) = (if w <s 0 then [chr CHR ''-''] else [])"
| "width_flags _ = []"

fun width_of :: "extent \<Rightarrow> nat" where
  "width_of Absent = 0"
| "width_of (Fixed n) = n"
| "width_of (Star w) = unat (if w <s 0 then - w else w)"

fun prec_of :: "extent \<Rightarrow> nat option" where
  "prec_of Absent = None"
| "prec_of (Fixed n) = Some n"
| "prec_of (Star p) = (if p <s 0 then None else Some (unat p))"

definition c_char :: "bool \<Rightarrow> nat \<Rightarrow> u8 \<Rightarrow> u8 list" where
  "c_char left width c = c_string left width None [c]"

text \<open>A pointer is eight upper-case digits.\<close>

definition c_pointer :: "u32 \<Rightarrow> u8 list" where
  "c_pointer v = c_layout False True 8 0 [] (radix_text True 16 (unat v))"

fun item_text :: "item \<Rightarrow> u8 list" where
  "item_text (Literal c) = [c]"
| "item_text Percent = [chr CHR ''%'']"
| "item_text (Integer fl w pr spec v) = c_integer (fl @ width_flags w) spec (width_of w) (prec_of pr) v"
| "item_text (Sized fl w pr mods spec v) = c_sized mods (fl @ width_flags w) spec (width_of w) (prec_of pr) v"
| "item_text (Pointer v) = c_pointer v"
| "item_text (Character fl w c) = c_char (chr CHR ''-'' \<in> set (fl @ width_flags w)) (width_of w) (ucast c)"
| "item_text (Text fl w pr q t) = c_string (chr CHR ''-'' \<in> set (fl @ width_flags w)) (width_of w) (prec_of pr) t"

text \<open>
  The directives for which the code does what the C standard says: no precision in a
  left-justified number, a precision below 32, no zeros beyond 32, no negative precision, no
  64-bit number in binary, and with \<open>#\<close> room for the prefix.
\<close>

fun extent_ok :: "extent \<Rightarrow> bool" where
  "extent_ok (Fixed n) \<longleftrightarrow> n < 2 ^ 31"
| "extent_ok _ \<longleftrightarrow> True"

definition width_ok :: "extent \<Rightarrow> bool" where
  "width_ok w \<longleftrightarrow> extent_ok w \<and> w \<noteq> Fixed 0"

definition prec_ok :: "extent \<Rightarrow> bool" where
  "prec_ok pr \<longleftrightarrow> extent_ok pr \<and> (pr \<noteq> Absent \<longrightarrow> prec_of pr \<noteq> None)"

definition number_ok :: "u8 list \<Rightarrow> extent \<Rightarrow> extent \<Rightarrow> u8 \<Rightarrow> bool" where
  "number_ok fl w pr spec \<longleftrightarrow> set fl \<subseteq> hash_flag_chars \<and> width_ok w \<and> prec_ok pr
     \<and> spec \<in> set (bytes ''diuxXob'') \<and> (\<forall>k. prec_of pr = Some k \<longrightarrow> k < 32)
     \<and> (chr CHR ''-'' \<in> set (fl @ width_flags w) \<longrightarrow> pr = Absent)
     \<and> (chr CHR ''0'' \<in> set fl \<longrightarrow> width_of w \<le> 32)"

declare number_ok_def [simp]

fun item_ok :: "mem \<Rightarrow> u32 set \<Rightarrow> item \<Rightarrow> bool" where
  "item_ok m kept (Literal c) \<longleftrightarrow> c \<noteq> chr CHR ''%'' \<and> c \<noteq> 0"
| "item_ok m kept Percent \<longleftrightarrow> True"
| "item_ok m kept (Integer fl w pr spec v) \<longleftrightarrow> number_ok fl w pr spec
     \<and> hash_ok (fl @ width_flags w) spec (width_of w) (prec_of pr) v"
| "item_ok m kept (Sized fl w pr mods spec v) \<longleftrightarrow> number_ok fl w pr spec \<and> mods \<in> length_mods
     \<and> (wide mods \<longrightarrow> spec \<noteq> chr CHR ''b'')
     \<and> hash_sized_ok mods (fl @ width_flags w) spec (width_of w) (prec_of pr) v"
| "item_ok m kept (Pointer v) \<longleftrightarrow> True"
| "item_ok m kept (Character fl w c) \<longleftrightarrow> set fl \<subseteq> flag_chars \<and> width_ok w \<and> (ucast c :: u8) \<noteq> 0"
| "item_ok m kept (Text fl w pr q t) \<longleftrightarrow> set fl \<subseteq> flag_chars \<and> width_ok w \<and> prec_ok pr
     \<and> cstr m q t \<and> span q (Suc (length t)) \<subseteq> kept \<and> length t < 2 ^ 32 - 1"

subsection \<open>Numbers in the format\<close>

lemma digit_byte_is_digit: "d < 10 \<Longrightarrow> is_digit (digit_byte d) \<and> char_to_int (digit_byte d) - 48 = of_nat d"
proof -
  have "\<forall>d\<in>set [0..<10]. is_digit (digit_byte d) \<and> char_to_int (digit_byte d) - 48 = of_nat d"
    unfolding is_digit_def digit_byte_def char_to_int_def by (simp add: upt_rec word_sle_eq)
  then show "d < 10 \<Longrightarrow> is_digit (digit_byte d) \<and> char_to_int (digit_byte d) - 48 = of_nat d" by simp
qed

lemma atoi_fmt_digits:
  "\<forall>d \<in> set ds. d < 10 \<Longrightarrow> \<not> is_digit c \<Longrightarrow>
   atoi_fmt (map digit_byte ds @ c # r) i = (foldl (\<lambda>a d. a * of_nat 10 + of_nat d) i ds, c # r)"
  by (induction ds arbitrary: i) (simp_all add: digit_byte_is_digit)

lemma atoi_fmt_number:
  assumes "\<not> is_digit c" shows "atoi_fmt (number_text 10 n @ c # r) 0 = (of_nat n, c # r)"
proof -
  have "\<forall>d \<in> set (digits 10 n). d < 10" using digits_less [of 10] by auto
  then show ?thesis
    using foldl_radix_word [of 10 0 "digits 10 n", where ?'a = 32] radix_val_digits [of 10 n] assms
    by (simp add: number_text_def atoi_fmt_digits radix_val_def)
qed

lemma last_rdigits: "2 \<le> base \<Longrightarrow> 0 < n \<Longrightarrow> last (rdigits base n) \<noteq> 0"
proof (induction base n rule: rdigits.induct)
  case (1 base n)
  show ?case
  proof (cases "n < base")
    case True
    with 1(2,3) show ?thesis by (simp add: rdigits_pos)
  next
    case False
    then have "0 < n div base" using 1(2) by (simp add: div_greater_zero_iff)
    with 1 show ?thesis by (simp add: rdigits_pos [of base n] rdigits_Nil_iff)
  qed
qed

lemma hd_number:
  obtains d r where "number_text 10 n = digit_byte d # r" "d < 10" "0 < n \<Longrightarrow> d \<noteq> 0"
proof -
  obtain d ds where d: "digits 10 n = d # ds" using digits_nonempty [of 10 n] by (cases "digits 10 n") auto
  have "d < 10" using digits_less [of 10 d n] d by simp
  moreover have "d \<noteq> 0" if "0 < n"
  proof -
    have "d = last (rdigits 10 n)" using d that rdigits_Nil_iff [of 10 n]
      by (simp add: digits_def)
    then show ?thesis using last_rdigits [of 10 n] that by simp
  qed
  ultimately show thesis using that [of d "map digit_byte ds"] d by (simp add: number_text_def)
qed

subsection \<open>Directives are parsed\<close>

text \<open>The character that follows a width or a precision.\<close>

definition plain :: "u8 \<Rightarrow> bool" where
  "plain c \<longleftrightarrow> \<not> is_digit c \<and> c \<noteq> chr CHR ''*'' \<and> c \<noteq> chr CHR ''0''"

lemma is_digit_number: "is_digit (fhead (number_text 10 n @ r))"
  using hd_number [of n] digit_byte_is_digit by (metis append_Cons fhead.simps(2))

lemma parse_width_syntax:
  assumes "plain c"
  shows "parse_width (width_syntax w @ c # r) f (extent_args w @ va)
    = Some (if width_flags w = [] then f else f OR FLAGS_LEFT, of_nat (width_of w), c # r, va)"
proof (cases w)
  case (Fixed n)
  then show ?thesis
    using is_digit_number [of n "c # r"] atoi_fmt_number [of c n r] assms
    by (simp add: parse_width_def plain_def)
qed (use assms in \<open>simp_all add: parse_width_def plain_def\<close>)

lemma parse_prec_syntax:
  assumes "plain c" "c \<noteq> chr CHR ''.''" "prec_ok pr"
  shows "parse_precision (prec_syntax pr @ c # r) f (extent_args pr @ va)
    = Some (if pr = Absent then f else f OR FLAGS_PRECISION,
        of_nat (case prec_of pr of None \<Rightarrow> 0 | Some k \<Rightarrow> k), c # r, va)"
proof (cases pr)
  case (Fixed n)
  then show ?thesis
    using is_digit_number [of n "c # r"] atoi_fmt_number [of c n r] assms(1)
    by (simp add: parse_precision_def prec_syntax_def plain_def)
next
  case (Star p)
  then have "\<not> p <s 0" using assms(3) by (auto simp: prec_ok_def)
  then have "(if 0 <s p then p else 0) = p" by (auto simp: word_sless_alt not_less) (metis antisym signed_eq_0_iff)
  with Star \<open>\<not> p <s 0\<close> show ?thesis by (simp add: parse_precision_def prec_syntax_def)
qed (use assms in \<open>simp add: parse_precision_def prec_syntax_def\<close>)

lemma spec_plain:
  assumes "spec \<in> set (bytes ''diuxXobscfF'')"
  shows "plain spec" "spec \<notin> set (bytes ''0-+ #'')" "spec \<noteq> chr CHR ''.''" "parse_length (spec # r) f = (f, spec # r)"
  using assms by (auto simp: plain_def is_digit_def word_sle_eq parse_length_def)

text \<open>What follows the flags does not start with one.\<close>

lemma after_flags:
  assumes "width_ok w" "c \<notin> set (bytes ''0-+ #'')"
  obtains c' r' where "width_syntax w @ prec_syntax pr @ c # r = c' # r'" "c' \<notin> set (bytes ''0-+ #'')"
proof -
  have p: "\<exists>c' r'. prec_syntax pr @ c # r = c' # r' \<and> c' \<notin> set (bytes ''0-+ #'')"
    using assms(2) by (auto simp: prec_syntax_def)
  have "\<exists>c' r'. width_syntax w @ prec_syntax pr @ c # r = c' # r' \<and> c' \<notin> set (bytes ''0-+ #'')"
  proof (cases w)
    case (Fixed n)
    then have "0 < n" using assms(1) by (simp add: width_ok_def)
    then obtain d ds where d: "number_text 10 n = digit_byte d # ds" "d < 10" "d \<noteq> 0"
      using hd_number [of n] by metis
    from d(2,3) have "d \<in> set [1..<10]" by simp
    moreover have "\<forall>d\<in>set [1..<10]. digit_byte d \<notin> set (bytes ''0-+ #'')"
      unfolding digit_byte_def by (simp add: upt_rec)
    ultimately show ?thesis using Fixed d(1) by auto
  qed (use p in simp_all)
  then show thesis using that by blast
qed

lemma parse_extents:
  assumes fl: "set fl \<subseteq> hash_flag_chars" and w: "width_ok w" and pr: "prec_ok pr"
    and c: "plain c" "c \<notin> set (bytes ''0-+ #'')" "c \<noteq> chr CHR ''.''"
  obtains g where "flag_word (fl @ width_flags w) (pr \<noteq> Absent) g"
    "parse_directive (fl @ width_syntax w @ prec_syntax pr @ c # r) (extent_args w @ extent_args pr @ va)
      = (case parse_length (c # r) g of (f, fmt) \<Rightarrow>
          Some (f, of_nat (width_of w), of_nat (case prec_of pr of None \<Rightarrow> 0 | Some k \<Rightarrow> k), fmt, va))"
proof -
  obtain c' r' where c': "width_syntax w @ prec_syntax pr @ c # r = c' # r'" "c' \<notin> set (bytes ''0-+ #'')"
    using after_flags [OF w c(2)] by blast
  obtain g where g: "parse_flags (fl @ c' # r') 0 = (g, c' # r')"
    "\<And>n. bit g n \<longleftrightarrow> n = 0 \<and> chr CHR ''0'' \<in> set fl \<or> n = 1 \<and> chr CHR ''-'' \<in> set fl
        \<or> n = 2 \<and> chr CHR ''+'' \<in> set fl \<or> n = 3 \<and> chr CHR '' '' \<in> set fl
        \<or> n = 4 \<and> chr CHR ''#'' \<in> set fl"
    using parse_flags_chars [OF c'(2) fl, of r' 0] by auto
  define g1 where "g1 = (if width_flags w = [] then g else g OR FLAGS_LEFT)"
  define g2 where "g2 = (if pr = Absent then g1 else g1 OR FLAGS_PRECISION)"
  obtain d ds where d: "prec_syntax pr @ c # r = d # ds" "plain d"
    using c(1) by (cases "pr = Absent") (auto simp: prec_syntax_def plain_def)
  have "parse_width (c' # r') g (extent_args w @ extent_args pr @ va)
      = Some (g1, of_nat (width_of w), prec_syntax pr @ c # r, extent_args pr @ va)"
    unfolding c'(1) [symmetric] d(1) g1_def by (rule parse_width_syntax [OF d(2)])
  moreover have "parse_precision (prec_syntax pr @ c # r) g1 (extent_args pr @ va)
      = Some (g2, of_nat (case prec_of pr of None \<Rightarrow> 0 | Some k \<Rightarrow> k), c # r, va)"
    unfolding g2_def by (rule parse_prec_syntax [OF c(1,3) pr])
  ultimately have "parse_directive (fl @ width_syntax w @ prec_syntax pr @ c # r) (extent_args w @ extent_args pr @ va)
      = (case parse_length (c # r) g2 of (f, fmt) \<Rightarrow>
          Some (f, of_nat (width_of w), of_nat (case prec_of pr of None \<Rightarrow> 0 | Some k \<Rightarrow> k), fmt, va))"
    by (simp add: parse_directive_def c'(1) g(1) Let_def case_prod_beta)
  moreover have "set (width_flags w) \<subseteq> {chr CHR ''-''}" by (cases w) auto
  then have "flag_word (fl @ width_flags w) (pr \<noteq> Absent) g2"
    by (cases "width_flags w") (auto simp: flag_word_def has_bit bit_or_flag g(2) g1_def g2_def)
  ultimately show thesis using that by blast
qed

lemma parse_syntax:
  assumes "set fl \<subseteq> hash_flag_chars" "width_ok w" "prec_ok pr" and spec: "spec \<in> set (bytes ''diuxXobscfF'')"
  obtains f where "flag_word (fl @ width_flags w) (pr \<noteq> Absent) f"
    "parse_directive (fl @ width_syntax w @ prec_syntax pr @ spec # r) (extent_args w @ extent_args pr @ va)
      = Some (f, of_nat (width_of w), of_nat (case prec_of pr of None \<Rightarrow> 0 | Some k \<Rightarrow> k), spec # r, va)"
  using parse_extents [OF assms(1-3) spec_plain(1-3) [OF spec], of r va] spec_plain(4) [OF spec]
  by (metis (no_types, lifting) prod.case)

lemma bit_length_flag:
  "bit FLAGS_CHAR n \<longleftrightarrow> n = 6" "bit FLAGS_SHORT n \<longleftrightarrow> n = 7" "bit FLAGS_LONG n \<longleftrightarrow> n = 8"
  "bit FLAGS_LONG_LONG n \<longleftrightarrow> n = 9"
proof -
  have "bit (2 ^ k :: u32) n \<longleftrightarrow> n = k" if "k < 32" for k using that by (auto simp: bit_exp_iff)
  from this [of 6] this [of 7] this [of 8] this [of 9]
  show "bit FLAGS_CHAR n \<longleftrightarrow> n = 6" "bit FLAGS_SHORT n \<longleftrightarrow> n = 7" "bit FLAGS_LONG n \<longleftrightarrow> n = 8"
    "bit FLAGS_LONG_LONG n \<longleftrightarrow> n = 9" by simp_all
qed

lemma bit_length_flags:
  "bit (FLAGS_SHORT OR FLAGS_CHAR) n \<longleftrightarrow> n = 6 \<or> n = 7" "bit (FLAGS_LONG OR FLAGS_LONG_LONG) n \<longleftrightarrow> n = 8 \<or> n = 9"
  unfolding bit_or_iff bit_length_flag by auto

lemma parse_length_chars:
  assumes "c \<notin> set (bytes ''hltjz'')"
  shows "parse_length (c # r) g = (g, c # r)"
    "parse_length (bytes ''h'' @ c # r) g = (g OR FLAGS_SHORT, c # r)"
    "parse_length (bytes ''hh'' @ c # r) g = ((g OR FLAGS_SHORT) OR FLAGS_CHAR, c # r)"
    "parse_length (bytes ''l'' @ c # r) g = (g OR FLAGS_LONG, c # r)"
    "parse_length (bytes ''ll'' @ c # r) g = ((g OR FLAGS_LONG) OR FLAGS_LONG_LONG, c # r)"
    "parse_length (bytes ''j'' @ c # r) g = (g OR FLAGS_LONG_LONG, c # r)"
    "parse_length (bytes ''t'' @ c # r) g = (g OR FLAGS_LONG, c # r)"
    "parse_length (bytes ''z'' @ c # r) g = (g OR FLAGS_LONG, c # r)"
  using assms by (simp_all add: parse_length_def or.assoc)

text \<open>The flags of the modifiers.\<close>

definition length_word :: "u8 list \<Rightarrow> u32" where
  "length_word mods =
     (if mods = bytes ''h'' then FLAGS_SHORT else if mods = bytes ''hh'' then FLAGS_SHORT OR FLAGS_CHAR
      else if mods = bytes ''ll'' then FLAGS_LONG OR FLAGS_LONG_LONG else if mods = bytes ''j'' then FLAGS_LONG_LONG
      else if mods = [] then 0 else FLAGS_LONG)"

lemma parse_length_word:
  assumes "mods \<in> length_mods" "c \<notin> set (bytes ''hltjz'')"
  shows "parse_length (mods @ c # r) g = (g OR length_word mods, c # r)"
  using assms(1) parse_length_chars [OF assms(2), of r g] unfolding length_mods_def
  by (elim insertE) (simp_all add: length_word_def or.assoc)

lemma bit_length_word:
  assumes "mods \<in> length_mods"
  shows "bit (length_word mods) n \<longleftrightarrow> n = 6 \<and> mods = bytes ''hh'' \<or> n = 7 \<and> mods \<in> {bytes ''h'', bytes ''hh''}
    \<or> n = 8 \<and> mods \<in> {bytes ''l'', bytes ''ll'', bytes ''t'', bytes ''z''} \<or> n = 9 \<and> wide mods"
  using assms unfolding length_mods_def
  by (elim insertE) (insert bit_length_flag [of n] bit_length_flags [of n], simp_all add: length_word_def disj_commute)

lemma parse_length_mods:
  assumes "mods \<in> length_mods" "spec \<in> set (bytes ''diuxXob'')" "flag_word fl precise g"
  obtains f where "parse_length (mods @ spec # r) g = (f, spec # r)" "flag_layout fl precise f" "mods_flags mods f"
proof -
  have "spec \<notin> set (bytes ''hltjz'')" using assms(2) by auto
  note bit = bit_or_iff bit_length_word [OF assms(1)]
  have "flag_layout fl precise (g OR length_word mods)" "mods_flags mods (g OR length_word mods)"
    using assms(3) by (simp_all add: flag_word_def flag_layout_def mods_flags_def has_bit bit)
  with parse_length_word [OF assms(1) \<open>spec \<notin> _\<close>] show thesis by (rule that)
qed

lemma parse_sized:
  assumes fl: "set fl \<subseteq> hash_flag_chars" and w: "width_ok w" and pr: "prec_ok pr"
    and mods: "mods \<in> length_mods" and spec: "spec \<in> set (bytes ''diuxXob'')"
  obtains f where "flag_layout (fl @ width_flags w) (pr \<noteq> Absent) f" "mods_flags mods f"
    "parse_directive (fl @ width_syntax w @ prec_syntax pr @ mods @ spec # r) (extent_args w @ extent_args pr @ va)
      = Some (f, of_nat (width_of w), of_nat (case prec_of pr of None \<Rightarrow> 0 | Some k \<Rightarrow> k), spec # r, va)"
proof -
  obtain c r' where c: "mods @ spec # r = c # r'" "c \<in> set (bytes ''diuxXobscfFhljtz'')"
    using mods spec by (auto simp: length_mods_def)
  then have p: "plain c" "c \<notin> set (bytes ''0-+ #'')" "c \<noteq> chr CHR ''.''"
    by (auto simp: plain_def is_digit_def word_sle_eq)
  obtain g where g: "flag_word (fl @ width_flags w) (pr \<noteq> Absent) g"
    "parse_directive (fl @ width_syntax w @ prec_syntax pr @ c # r') (extent_args w @ extent_args pr @ va)
      = (case parse_length (c # r') g of (f, fmt) \<Rightarrow>
          Some (f, of_nat (width_of w), of_nat (case prec_of pr of None \<Rightarrow> 0 | Some k \<Rightarrow> k), fmt, va))"
    by (rule parse_extents [OF fl w pr p])
  obtain f where f: "parse_length (c # r') g = (f, spec # r)" "flag_layout (fl @ width_flags w) (pr \<noteq> Absent) f" "mods_flags mods f"
    using parse_length_mods [OF mods spec g(1)] unfolding c(1) [symmetric] by blast
  from g(2) f show thesis unfolding c(1) [symmetric] by (intro that [of f]) simp_all
qed

subsection \<open>Directives are printed\<close>

lemma vsn_loop_step:
  assumes "parse_directive (d @ spec # r) va = Some (f, w, pr, spec # r, va1)"
    "convert fp out b ml spec f w pr va1 p = Some (va2, p2)"
  shows "vsn_loop fp out b ml (chr CHR ''%'' # d @ spec # r) va p = vsn_loop fp out b ml r va2 p2"
  using assms by simp

lemma conv_ptr_text:
  "conv_ptr out b ml 0 0 (v # va) p = Some (va, emits out b ml (c_pointer v) p)"
proof -
  have "int_text v False (of_nat 16) 16 0 8 (FLAGS_ZEROPAD OR FLAGS_UPPERCASE)
      = c_layout (has (FLAGS_ZEROPAD OR FLAGS_UPPERCASE) FLAGS_LEFT) (has (FLAGS_ZEROPAD OR FLAGS_UPPERCASE) FLAGS_ZEROPAD)
          (unat (8 :: u32)) (unat (0 :: u32))
          (sign_chars False (has (FLAGS_ZEROPAD OR FLAGS_UPPERCASE) FLAGS_PLUS) (has (FLAGS_ZEROPAD OR FLAGS_UPPERCASE) FLAGS_SPACE))
          (if has (FLAGS_ZEROPAD OR FLAGS_UPPERCASE) FLAGS_PRECISION \<and> v = 0 then []
           else radix_text (has (FLAGS_ZEROPAD OR FLAGS_UPPERCASE) FLAGS_UPPERCASE) 16 (unat v))"
    using length_digits_u32 [of 16 v] by (intro int_text_layout) (simp_all add: has_def sign_chars_def)
  then show ?thesis by (simp add: conv_ptr_def ntoa_long_emits c_pointer_def has_def sign_chars_def)
qed

lemma c_pointer_printable: "c < 32 \<Longrightarrow> c \<notin> set (c_pointer v)"
  unfolding c_pointer_def by (intro set_c_layout radix_text_printable) auto

lemma conv_char_text:
  "conv_char out b ml f w (c # va) p
     = Some (va, emits out b ml (c_char (has f FLAGS_LEFT) (unat w) (ucast c)) p)"
  by (simp add: conv_char_def pad_loop_emits c_char_def c_string_def Let_def emits_append)

lemma extent_bound:
  assumes "width_ok w" shows "width_of w < 2 ^ 32"
proof (cases w)
  case (Star v)
  then show ?thesis using unat_u32_less [of v] unat_u32_less [of "- v"] by simp
qed (use assms in \<open>simp_all add: width_ok_def\<close>)

lemma prec_bound:
  assumes "prec_ok pr" "prec_of pr = Some k" shows "k < 2 ^ 31"
proof (cases pr)
  case (Star v)
  with assms(2) have "\<not> v <s 0" "k = unat v" by (auto split: if_splits)
  then show ?thesis using nonnegative_less [of v] by simp
qed (use assms in \<open>auto simp: prec_ok_def\<close>)

text \<open>A negative precision counts as the precision 0, where the standard ignores it.\<close>

lemma negative_precision_prints_nothing:
  assumes "pr <s 0"
  shows "vsn_loop fp out b ml (bytes ''%.*s'') [pr, q] p = Some p"
proof -
  have "\<not> 0 <s pr" using assms by (simp add: word_sless_alt)
  then have "parse_directive (bytes ''.*s'') [pr, q] = Some (FLAGS_PRECISION, 0, 0, bytes ''s'', [q])"
    by (simp add: parse_directive_def parse_width_def parse_precision_def parse_length_def is_digit_def word_sle_eq)
  then show ?thesis
    by (simp add: convert_def conv_str_def pad_loop_emits str_loop.simps [of _ _ _ True 0] has_def)
qed

text \<open>With \<open>#\<close> a number that fills its field loses its two first digits: \<open>%#5x\<close> prints \<open>0x12345\<close> as \<open>0x345\<close>.\<close>

lemma hash_loses_digits:
  assumes spec: "spec \<in> set (bytes ''xX'')" and len: "length (digits 16 (unat v)) = unat w" "2 < unat w"
  shows "vsn_loop fp out b ml (directive_syntax (bytes ''#'') (Star w) Absent spec) [w, v] p
    = Some (emits out b ml (hash_prefix (bytes ''#'') spec @ drop 2 (radix_text (spec = chr CHR ''X'') 16 (unat v))) p)"
proof -
  have s: "spec \<in> set (bytes ''diuxXobscfF'')" "spec \<in> set (bytes ''diuxXob'')" "spec \<notin> {chr CHR ''d'', chr CHR ''i''}"
    "conv_base spec = 16" "spec \<in> set (bytes ''xXo'')" "spec \<notin> set (bytes ''diu'')"
    using spec by (auto simp: conv_base_def)
  have w32: "unat w \<le> 32" using length_digits_u32 [of 16 v] len by simp
  then have w: "\<not> w <s 0" using sint_u32_small [of w] by (simp add: word_sless_alt word_less_nat_alt)
  have o: "width_ok (Star w)" "prec_ok Absent" "set (bytes ''#'') \<subseteq> hash_flag_chars"
    by (simp_all add: width_ok_def prec_ok_def)
  obtain f where f: "flag_word (bytes ''#'') False f"
    "parse_directive (bytes ''#*'' @ spec # []) [w, v] = Some (f, w, 0, [spec], [v])"
    using parse_syntax [OF o(3,1,2) s(1), of "[]" "[v]"] w by (auto simp: prec_syntax_def)
  let ?g = "int_flags spec f"
  note g = int_flags_word [OF f(1) s(2)]
  have v: "v \<noteq> 0" using len by (auto simp: digits_def)
  have h: "has ?g FLAGS_HASH" using g(7) int_base_10 [OF s(2)] s(6) by simp
  have pre: "hash_prefix (bytes ''#'') spec = base_prefix 16 (has ?g FLAGS_UPPERCASE)"
    using s(4,5) g(6) by (simp add: hash_prefix_def)
  have "int_text v False (of_nat 16) (of_nat 16) 0 w ?g = base_prefix 16 (has ?g FLAGS_UPPERCASE)
      @ drop (length (base_prefix 16 (has ?g FLAGS_UPPERCASE))) (radix_text (has ?g FLAGS_UPPERCASE) 16 (unat v))"
    using g(3-5) len w32 s(3) h v by (intro int_text_drops_digits) (auto simp: base_prefix_def)
  moreover have "length (base_prefix 16 u) = 2" for u by (simp add: base_prefix_def)
  ultimately have "conv_int out b ml spec f w 0 [v] p = Some ([], emits out b ml
      (hash_prefix (bytes ''#'') spec @ drop 2 (radix_text (spec = chr CHR ''X'') 16 (unat v))) p)"
    using conv_int_value [OF f(1) s(2), of out b ml w 0 v "[]" p] s(3,4) g(6) unfolding pre by simp
  from vsn_loop_directive_int [of "bytes ''#*''", OF _ s(2) this] f(2) show ?thesis
    by (simp add: directive_syntax_def prec_syntax_def)
qed

context text_sink
begin

text \<open>One item.\<close>

lemma item_step:
  assumes ok: "item_ok (ram (snd p)) kept it" and i: "inv (snd p)" "\<forall>c \<in> set (item_text it). safe c"
  shows "vsn_loop fp out b ml (item_syntax it @ fmt) (item_args it @ va) p
    = vsn_loop fp out b ml fmt va (emits out b ml (item_text it) p)"
proof (cases it)
  case (Literal c)
  with ok show ?thesis by simp
next
  case Percent
  then show ?thesis
    by (simp add: convert_def parse_directive_def parse_width_def parse_precision_def parse_length_def
        is_digit_def word_sle_eq)
next
  case (Integer fl w pr spec v)
  with ok have s: "set fl \<subseteq> hash_flag_chars" "width_ok w" "prec_ok pr" "spec \<in> set (bytes ''diuxXobscfF'')"
    and spec: "spec \<in> set (bytes ''diuxXob'')" by auto
  obtain f where f: "flag_word (fl @ width_flags w) (pr \<noteq> Absent) f"
    "parse_directive (fl @ width_syntax w @ prec_syntax pr @ spec # fmt) (extent_args w @ extent_args pr @ v # va)
      = Some (f, of_nat (width_of w), of_nat (case prec_of pr of None \<Rightarrow> 0 | Some k \<Rightarrow> k), spec # fmt, v # va)"
    using parse_syntax [OF s] by blast
  have z: "chr CHR ''0'' \<in> set (fl @ width_flags w) \<longleftrightarrow> chr CHR ''0'' \<in> set fl" by (cases w) auto
  have pr: "pr \<noteq> Absent \<longleftrightarrow> prec_of pr \<noteq> None" using s(3) by (cases pr) (auto simp: prec_ok_def)
  have k: "(case prec_of pr of None \<Rightarrow> 0 | Some k \<Rightarrow> k) < 32" using ok Integer by (auto split: option.split)
  have uw: "unat (of_nat (width_of w) :: u32) = width_of w" using extent_bound [OF s(2)] by (simp add: unat_of_nat_u32)
  have "conv_int out b ml spec f (of_nat (width_of w)) (of_nat (case prec_of pr of None \<Rightarrow> 0 | Some k \<Rightarrow> k)) (v # va) p
    = Some (va, emits out b ml (c_integer (fl @ width_flags w) spec (unat (of_nat (width_of w) :: u32)) (prec_of pr) v) p)"
  proof (rule conv_int_standard [OF _ spec])
    show "flag_word (fl @ width_flags w) (prec_of pr \<noteq> None) f" using f(1) pr by simp
    show "prec_of pr = None" if "chr CHR ''-'' \<in> set (fl @ width_flags w)" using that ok Integer pr by auto
    show "unat (of_nat (width_of w) :: u32) \<le> 32" if "chr CHR ''0'' \<in> set (fl @ width_flags w)"
      unfolding uw using that ok Integer z by simp
    show "hash_ok (fl @ width_flags w) spec (unat (of_nat (width_of w) :: u32)) (prec_of pr) v"
      unfolding uw using ok Integer by simp
  qed (use k in \<open>simp_all add: unat_of_nat_u32 del: unat_of_nat\<close>)
  with vsn_loop_step [of "fl @ width_syntax w @ prec_syntax pr" spec fmt, OF _ ] f(2) spec Integer
    extent_bound [OF s(2)]
  show ?thesis by (simp add: directive_syntax_def convert_def unat_of_nat_u32)
next
  case (Sized fl w pr mods spec v)
  with ok have s: "set fl \<subseteq> hash_flag_chars" "width_ok w" "prec_ok pr" "mods \<in> length_mods" "spec \<in> set (bytes ''diuxXob'')"
    and b: "wide mods \<Longrightarrow> spec \<noteq> chr CHR ''b''" by auto
  obtain f where f: "flag_layout (fl @ width_flags w) (pr \<noteq> Absent) f" "mods_flags mods f"
    "parse_directive (fl @ width_syntax w @ prec_syntax pr @ mods @ spec # fmt) (extent_args w @ extent_args pr @ sized_args mods v @ va)
      = Some (f, of_nat (width_of w), of_nat (case prec_of pr of None \<Rightarrow> 0 | Some k \<Rightarrow> k), spec # fmt, sized_args mods v @ va)"
    using parse_sized [OF s] by blast
  have z: "chr CHR ''0'' \<in> set (fl @ width_flags w) \<longleftrightarrow> chr CHR ''0'' \<in> set fl" by (cases w) auto
  have pr: "pr \<noteq> Absent \<longleftrightarrow> prec_of pr \<noteq> None" using s(3) by (cases pr) (auto simp: prec_ok_def)
  have k: "(case prec_of pr of None \<Rightarrow> 0 | Some k \<Rightarrow> k) < 32" using ok Sized by (auto split: option.split)
  have uw: "unat (of_nat (width_of w) :: u32) = width_of w" using extent_bound [OF s(2)] by (simp add: unat_of_nat_u32)
  have "conv_int out b ml spec f (of_nat (width_of w)) (of_nat (case prec_of pr of None \<Rightarrow> 0 | Some k \<Rightarrow> k)) (sized_args mods v @ va) p
    = Some (va, emits out b ml (c_sized mods (fl @ width_flags w) spec (unat (of_nat (width_of w) :: u32)) (prec_of pr) v) p)"
  proof (rule conv_int_sized [OF _ s(5) f(2) b])
    show "flag_layout (fl @ width_flags w) (prec_of pr \<noteq> None) f" using f(1) pr by simp
    show "prec_of pr = None" if "chr CHR ''-'' \<in> set (fl @ width_flags w)" using that ok Sized pr by auto
    show "unat (of_nat (width_of w) :: u32) \<le> 32" if "chr CHR ''0'' \<in> set (fl @ width_flags w)"
      unfolding uw using that ok Sized z by simp
    show "hash_sized_ok mods (fl @ width_flags w) spec (unat (of_nat (width_of w) :: u32)) (prec_of pr) v"
      unfolding uw using ok Sized by simp
  qed (use k in \<open>simp_all add: unat_of_nat_u32 del: unat_of_nat\<close>)
  with f(3) s(5) Sized show ?thesis by (simp add: convert_def uw)
next
  case (Pointer v)
  have "parse_directive (chr CHR ''p'' # fmt) (v # va) = Some (0, 0, 0, chr CHR ''p'' # fmt, v # va)"
    by (simp add: parse_directive_def parse_width_def parse_precision_def parse_length_def is_digit_def word_sle_eq)
  with Pointer show ?thesis by (simp add: convert_def conv_ptr_text)
next
  case (Character fl w c)
  with ok have s: "set fl \<subseteq> flag_chars" "width_ok w" "prec_ok Absent" "chr CHR ''c'' \<in> set (bytes ''diuxXobscfF'')"
    by (simp_all add: prec_ok_def)
  obtain f where "flag_word (fl @ width_flags w) False f"
    "parse_directive (fl @ width_syntax w @ chr CHR ''c'' # fmt) (extent_args w @ c # va)
      = Some (f, of_nat (width_of w), 0, chr CHR ''c'' # fmt, c # va)"
    using parse_syntax [OF flag_chars_hash [OF s(1)] s(2-), of fmt "c # va"] by (auto simp: prec_syntax_def)
  then show ?thesis
    using Character extent_bound [OF s(2)]
    by (simp add: directive_syntax_def prec_syntax_def convert_def conv_char_text flag_word_def unat_of_nat_u32)
next
  case (Text fl w pr q t)
  with ok have s: "set fl \<subseteq> flag_chars" "width_ok w" "prec_ok pr" "chr CHR ''s'' \<in> set (bytes ''diuxXobscfF'')" by simp_all
  let ?w = "of_nat (width_of w) :: u32" and ?pr = "of_nat (case prec_of pr of None \<Rightarrow> 0 | Some k \<Rightarrow> k) :: u32"
  obtain f where f: "flag_word (fl @ width_flags w) (pr \<noteq> Absent) f"
    "parse_directive (fl @ width_syntax w @ prec_syntax pr @ chr CHR ''s'' # fmt) (extent_args w @ extent_args pr @ q # va)
      = Some (f, ?w, ?pr, chr CHR ''s'' # fmt, q # va)"
    using parse_syntax [OF flag_chars_hash [OF s(1)] s(2-)] by blast
  have pr: "pr \<noteq> Absent \<longleftrightarrow> prec_of pr \<noteq> None" using s(3) by (cases pr) (auto simp: prec_ok_def)
  have up: "unat ?pr = (case prec_of pr of None \<Rightarrow> 0 | Some k \<Rightarrow> k)"
    using prec_bound [OF s(3)] by (cases "prec_of pr") (auto simp: unat_of_nat_u32)
  have fp: "has f FLAGS_PRECISION \<longleftrightarrow> pr \<noteq> Absent" "has f FLAGS_LEFT \<longleftrightarrow> chr CHR ''-'' \<in> set (fl @ width_flags w)"
    using f(1) by (simp_all add: flag_word_def)
  have lim: "(if has f FLAGS_PRECISION then Some (unat ?pr) else None) = prec_of pr"
    unfolding fp up using pr by (cases "prec_of pr") auto
  have safe: "\<forall>c \<in> set (if has f FLAGS_PRECISION then take (unat ?pr) t else t). safe c"
    using i(2) Text unfolding fp up using pr by (cases "prec_of pr") (auto simp: c_string_def Let_def)
  have "conv_str out b ml f ?w ?pr (q # va) p = Some (va, emits out b ml
      (c_string (has f FLAGS_LEFT) (unat ?w) (if has f FLAGS_PRECISION then Some (unat ?pr) else None) t) p)"
    using ok Text i(1) safe fp(1) pr by (intro conv_str_text) auto
  from this [unfolded lim] show ?thesis
    using f(2) Text extent_bound [OF s(2)] fp(2)
    by (simp add: directive_syntax_def convert_def unat_of_nat_u32)
qed

text \<open>All items: what is emitted for one leaves the strings of the others alone.\<close>

lemma item_ok_emits:
  assumes "item_ok (ram (snd p)) kept it" "inv (snd p)" "\<forall>c \<in> set cs. safe c"
  shows "item_ok (ram (snd (emits out b ml cs p))) kept it"
  using assms emits_cstr [OF assms(2,3)] by (cases it) auto

lemma items_emitted:
  "\<forall>it \<in> set items. item_ok (ram (snd p)) kept it \<Longrightarrow> inv (snd p)
     \<Longrightarrow> \<forall>c \<in> set (concat (map item_text items)). safe c
     \<Longrightarrow> vsn_loop fp out b ml (concat (map item_syntax items)) (concat (map item_args items)) p
       = Some (emits out b ml (concat (map item_text items)) p)"
proof (induction items arbitrary: p)
  case (Cons it items)
  have safe: "\<forall>c \<in> set (item_text it). safe c" using Cons.prems(3) by simp
  have "vsn_loop fp out b ml (concat (map item_syntax items)) (concat (map item_args items)) (emits out b ml (item_text it) p)
      = Some (emits out b ml (concat (map item_text items)) (emits out b ml (item_text it) p))"
    using Cons.prems item_ok_emits [OF _ Cons.prems(2) safe] emits_inv [OF Cons.prems(2) safe]
    by (intro Cons.IH) simp_all
  with item_step [OF _ Cons.prems(2) safe, where fp = fp] Cons.prems(1) show ?case by (simp add: emits_append)
qed simp

end

subsection \<open>Properties\<close>

definition format_syntax :: "item list \<Rightarrow> u8 list" where
  "format_syntax items = concat (map item_syntax items)"

definition format_args :: "item list \<Rightarrow> va" where
  "format_args items = concat (map item_args items)"

definition format_text :: "item list \<Rightarrow> u8 list" where
  "format_text items = concat (map item_text items)"

lemmas item_format_simps = format_syntax_def format_args_def format_text_def directive_syntax_def
  prec_syntax_def width_ok_def prec_ok_def

lemma c_string_nonzero: "0 \<notin> set t \<Longrightarrow> 0 \<notin> set (c_string l w pr t)"
  using set_take_subset [of _ t] by (auto simp: c_string_def Let_def split: option.splits)

lemma item_text_nonzero: "item_ok m kept it \<Longrightarrow> 0 \<notin> set (item_text it)"
  by (cases it) (simp_all add: c_integer_nonzero c_sized_printable c_pointer_printable c_char_def c_string_nonzero cstr_iff)

lemma format_text_nonzero: "\<forall>it \<in> set items. item_ok m kept it \<Longrightarrow> 0 \<notin> set (format_text items)"
  using item_text_nonzero by (fastforce simp: format_text_def)

text \<open>What \<open>snprintf\<close> leaves for a list of items.\<close>

lemma snprintf_items_result:
  assumes "buffer \<noteq> 0" "0 < count"
    and "\<forall>it \<in> set items. item_ok (ram s) (- span buffer (unat count)) it" "length (format_text items) < 2 ^ 32"
  shows "snprintf fp buffer count (format_syntax items) (format_args items) s = Some (of_nat (length (format_text items)),
    s\<lparr>ram := wr (ram s) buffer (take (unat count - 1) (format_text items) @ [0])\<rparr>)"
proof (rule snprintf_result)
  show "vsn_loop fp Out_buffer buffer count (format_syntax items) (format_args items) (0, s)
      = Some (emits Out_buffer buffer count (format_text items) (0, s))"
    unfolding format_syntax_def format_args_def format_text_def
    using assms(3) by (intro buffer_sink.items_emitted) simp_all
qed (use assms in simp_all)

lemma snprintf_items:
  assumes "buffer \<noteq> 0" "0 < count"
    and "\<forall>it \<in> set items. item_ok (ram s) (- span buffer (unat count)) it" "length (format_text items) < 2 ^ 32"
  shows "\<exists>s'. snprintf fp buffer count (format_syntax items) (format_args items) s
        = Some (of_nat (length (format_text items)), s')
    \<and> cstr (ram s') buffer (take (unat count - 1) (format_text items))
    \<and> s' = s\<lparr>ram := ram s'\<rparr> \<and> same_outside (span buffer (unat count)) (ram s) (ram s')"
  unfolding same_outside_def
proof (rule snprintf_text)
  show "vsn_loop fp Out_buffer buffer count (format_syntax items) (format_args items) (0, s)
      = Some (emits Out_buffer buffer count (format_text items) (0, s))"
    unfolding format_syntax_def format_args_def format_text_def
    using assms(3) by (intro buffer_sink.items_emitted) simp_all
qed (use assms format_text_nonzero in blast)+


text \<open>An example: flags, widths and a precision in the format and as arguments, a prefix, length
  modifiers and a pointer.\<close>

definition sample_items :: "item list" where
  "sample_items =
     [Text [chr CHR ''-''] (Fixed 6) (Star 2) 0x200 [65, 66, 67], Literal (chr CHR ''=''),
      Integer (bytes ''+0'') (Fixed 5) Absent (chr CHR ''d'') 42, Percent, Character [] (Star (- 3)) 88,
      Sized (bytes ''#'') (Fixed 7) Absent (bytes ''h'') (chr CHR ''x'') 0x100AB, Literal (chr CHR '':''),
      Sized [] Absent Absent (bytes ''ll'') (chr CHR ''u'') 0x200000001, Pointer 0xB8000]"

lemma sample_syntax:
  "format_syntax sample_items = bytes ''%-6.*s=%+05d%%%*c%#7hx:%llu%p''"
  "format_args sample_items = [2, 0x200, 42, - 3, 88, 0x100AB, 1, 2, 0xB8000]"
  by (simp_all add: sample_items_def item_format_simps number_text_def digits_def rdigits.simps digit_byte_def
      sized_args_def drop_bit_eq_div take_bit_eq_mod)

definition sample_mem :: mem where
  "sample_mem = wr (\<lambda>_. 0) 0x200 [65, 66, 67]"

lemma sample_string: "cstr sample_mem 0x200 [65, 66, 67]"
  by (simp add: sample_mem_def)

lemma sample_hash: "hash_sized_ok (bytes ''h'') (bytes ''#'') (chr CHR ''x'') 7 None 0x100AB"
  by (simp add: hash_sized_ok_def hash_ok_def prefix_fits_def digits_def rdigits.simps conv_base_def)

lemmas text_simps = c_integer_def sign_chars_def hash_prefix_def base_prefix_def
  radix_text_def digits_def rdigits.simps radix_char_def conv_base_def

lemma sample_decimal: "c_integer (bytes ''+0'') (chr CHR ''d'') 5 None (42 :: u32) = bytes ''+0042''"
  by (simp add: text_simps word_sless_alt, simp add: c_layout_def, simp add: numeral_eq_Suc)

lemma sample_hex: "c_integer (bytes ''#'') (chr CHR ''x'') 7 None (0x100AB :: u16) = bytes ''   0xab''"
  by (simp add: text_simps, simp add: c_layout_def, simp add: numeral_eq_Suc)

lemma sample_wide: "c_integer [] (chr CHR ''u'') 0 None (0x200000001 :: u64) = bytes ''8589934593''"
  by (simp add: text_simps c_layout_def)

lemma sample_pointer: "c_pointer 0xB8000 = bytes ''000B8000''"
proof -
  have "rdigits 16 0xB8000 = [0, 0, 0, 8, 11]" by (simp add: rdigits.simps)
  then have "radix_text True 16 0xB8000 = [66, 56, 48, 48, 48]" by (simp add: radix_text_def digits_def radix_char_def)
  moreover have "c_layout False True 8 0 [] [66, 56, 48, 48, 48] = bytes ''000B8000''"
    by (simp add: c_layout_def, simp add: numeral_eq_Suc)
  ultimately show ?thesis by (simp add: c_pointer_def)
qed

lemma sample_strings:
  "c_string True 6 (Some 2) [65, 66, 67] = bytes ''AB    ''" "c_char True 3 88 = bytes ''X  ''"
  by (simp_all add: c_string_def c_char_def numeral_eq_Suc)

lemma sample_text: "format_text sample_items = bytes ''AB    =+0042%X     0xab:8589934593000B8000''"
proof -
  have "c_sized (bytes ''h'') (bytes ''#'') (chr CHR ''x'') 7 None 0x100AB = bytes ''   0xab''"
    "c_sized (bytes ''ll'') [] (chr CHR ''u'') 0 None 0x200000001 = bytes ''8589934593''"
    using sample_hex sample_wide by (simp_all add: c_sized_def)
  with sample_decimal sample_pointer sample_strings show ?thesis
    by (simp add: sample_items_def format_text_def word_sless_alt)
qed


text \<open>What \<open>printf\<close> does with a list of items.\<close>

lemma printf_items:
  assumes "term_ok s" "\<forall>it \<in> set items. item_ok (ram s) (- vga_window) it" "8 \<notin> set (format_text items)"
  shows "\<exists>s'. printf fp (format_syntax items) (format_args items) s = Some (of_nat (length (format_text items)), s')
    \<and> term_ok s' \<and> view s' = fold char_put (format_text items) (view s)
    \<and> io_log s' = io_log s @ concat (map (serial_echo \<circ> char_to_int) (format_text items))
    \<and> same_outside vga_window (ram s) (ram s')
    \<and> s' = s\<lparr>ram := ram s', term_row := term_row s', term_col := term_col s', io_log := io_log s'\<rparr>"
proof -
  have "vsn_loop fp Out_char b ml (format_syntax items) (format_args items) p
      = Some (emits Out_char b ml (format_text items) p)"
    if p: "term_ok (snd p)" "same_outside vga_window (ram s) (ram (snd p))" for b ml p
  proof -
    have "item_ok (ram (snd p)) (- vga_window) it" if ok: "item_ok (ram s) (- vga_window) it" for it
    proof (cases it)
      case (Text fl w pr q t)
      from ok have "off_screen (ram s) q t" unfolding Text by (auto simp: off_screen_def)
      from off_screen_frame [OF this p(2)] ok show ?thesis unfolding Text by simp
    qed (use ok in simp_all)
    then show ?thesis
      unfolding format_syntax_def format_args_def format_text_def
      using p(1) assms(2,3) by (intro console_sink.items_emitted) (auto simp: format_text_def)
  qed
  then have "prints fp (format_syntax items) (format_args items) (ram s) (format_text items)"
    using format_text_nonzero [OF assms(2)] assms(3) by (simp add: prints_def)
  from printf_result [OF this assms(1)] print_view [OF assms(1,3)] print_log [of "format_text items" s]
    print_only [of "format_text items" s] show ?thesis
    by (intro exI [of _ "fold putchar_c (format_text items) s"]) simp
qed

text \<open>C12: The same formats, within the limits of \<open>item_ok\<close>, given to \<open>printf\<close>, when no string argument
  lies in the VGA window and the text has no backspace: the call returns the length of the text and
  puts its characters, one by one, on the abstract terminal.  Of the machine it changes the VGA window,
  the cursor and the log of the ports, in which every character is echoed to the serial port, and
  nothing else.\<close>

theorem printf_format:
  assumes "term_ok s" "\<forall>it \<in> set items. item_ok (ram s) (- vga_window) it" "8 \<notin> set (format_text items)"
  shows "\<exists>s'. printf fp (format_syntax items) (format_args items) s = Some (of_nat (length (format_text items)), s')
    \<and> term_ok s' \<and> view s' = fold char_put (format_text items) (view s)
    \<and> io_log s' = io_log s @ concat (map (serial_echo \<circ> char_to_int) (format_text items))
    \<and> same_outside vga_window (ram s) (ram s')
    \<and> s' = s\<lparr>ram := ram s', term_row := term_row s', term_col := term_col s', io_log := io_log s'\<rparr>"
  using assms by (rule printf_items)

theorem printf_format_witness:
  "\<exists>s'. printf int_fpu (format_syntax sample_items) (format_args sample_items) (initial_machine sample_mem [])
        = Some (of_nat (length (format_text sample_items)), s')
    \<and> term_ok s' \<and> view s' = fold char_put (format_text sample_items) (view (initial_machine sample_mem []))
    \<and> io_log s' = io_log (initial_machine sample_mem []) @ concat (map (serial_echo \<circ> char_to_int) (format_text sample_items))
    \<and> same_outside vga_window (ram (initial_machine sample_mem [])) (ram s')
    \<and> s' = (initial_machine sample_mem [])\<lparr>ram := ram s', term_row := term_row s', term_col := term_col s', io_log := io_log s'\<rparr>"
proof (rule printf_format)
  have "span 0x200 (Suc (length [65 :: u8, 66, 67])) \<subseteq> - vga_window"
    using span_apart [of "0x200" "Suc (length [65 :: u8, 66, 67])" vga_base 4000] by auto
  then show "\<forall>it \<in> set sample_items. item_ok (ram (initial_machine sample_mem [])) (- vga_window) it"
    using sample_string sample_hash by (simp add: sample_items_def length_mods_def width_ok_def prec_ok_def hash_ok_def word_sless_alt
      hash_sized_ok_def)
qed (simp_all add: sample_text initial_machine_ok)

end
