(* ===== verification/Printf_Fixed.thy ===== *)
theory Printf_Fixed
  imports Complex_Main Printf_Format
begin

text \<open>
  The text of \<open>%f\<close>.  The floating-point unit is a parameter; the interface \<open>exact_steps\<close> says what
  is used of it: comparisons are those of the numbers, and an operation whose exact result is
  a floating-point number returns it.  Where the steps of \<open>_ftoa\<close> are exact it prints the
  number correctly rounded.  A unit that rounds to 53 bits is an instance of the interface.
\<close>

subsection \<open>The digits\<close>

text \<open>The last \<open>p\<close> digits of a number, least significant first.\<close>

fun low_digits :: "nat \<Rightarrow> nat \<Rightarrow> u8 list" where
  "low_digits 0 n = []"
| "low_digits (Suc p) n = digit_byte (n mod 10) # low_digits p (n div 10)"

lemma length_low_digits [simp]: "length (low_digits p n) = p"
  by (induction p arbitrary: n) simp_all

lemma low_digits_0: "low_digits p 0 = replicate p (chr CHR ''0'')"
  by (induction p) (simp_all add: digit_byte_def)

lemma extra_zeros_eq:
  "length buf + n \<le> 32 \<Longrightarrow> extra_zeros (of_nat n) buf = buf @ replicate n (chr CHR ''0'')"
proof (induction n arbitrary: buf)
  case 0
  then show ?case by (simp add: extra_zeros.simps)
next
  case (Suc n)
  have "unat (of_nat (Suc n) :: u32) = Suc n" using Suc.prems by (intro unat_of_nat_u32) simp
  then have "(of_nat (Suc n) :: u32) \<noteq> 0" by (intro notI) simp
  then have "0 < (of_nat (Suc n) :: u32)" by (simp add: word_neq_0_conv)
  with Suc show ?case by (subst extra_zeros.simps) simp
qed

lemma decimal_char: "(ucast (48 + w mod 10 :: u32) :: u8) = digit_byte (unat w mod 10)"
proof -
  have "\<forall>d\<in>set [0..<10]. (ucast (48 + of_nat d :: u32) :: u8) = digit_byte d"
    unfolding digit_byte_def by (simp add: upt_rec)
  moreover have "w mod 10 = of_nat (unat w mod 10)" by (simp add: word_unat_eq_iff unat_mod unat_of_nat_u32)
  ultimately show ?thesis by simp
qed

lemma unat_div_10: "unat (w div 10 :: u32) = unat w div 10"
  by (simp add: unat_div)

text \<open>The fraction and its zeros.\<close>

lemma frac_digits_eq:
  "unat fr < 10 ^ Suc p \<Longrightarrow> length buf + Suc p \<le> 32 \<Longrightarrow>
   (case frac_digits (of_nat (Suc p)) fr buf of (count, b) \<Rightarrow> extra_zeros count b)
     = buf @ low_digits (Suc p) (unat fr)"
proof (induction p arbitrary: fr buf)
  case 0
  then have "fr div 10 = 0" by (simp add: word_unat_eq_iff unat_div_10)
  with 0 show ?case by (subst frac_digits.simps) (simp add: decimal_char extra_zeros.simps)
next
  case (Suc p)
  let ?b = "buf @ [digit_byte (unat fr mod 10)]"
  have c: "(of_nat (Suc (Suc p)) :: u32) - 1 = of_nat (Suc p)" by simp
  show ?case
  proof (cases "fr div 10 = 0")
    case True
    then have z: "unat fr div 10 = 0" using unat_div_10 [of fr] by simp
    have "(case frac_digits (of_nat (Suc (Suc p))) fr buf of (count, b) \<Rightarrow> extra_zeros count b)
        = extra_zeros (of_nat (Suc p)) ?b"
      using Suc.prems True by (subst frac_digits.simps) (simp add: decimal_char)
    also have "\<dots> = ?b @ replicate (Suc p) (chr CHR ''0'')" using Suc.prems by (intro extra_zeros_eq) simp
    also have "\<dots> = buf @ low_digits (Suc (Suc p)) (unat fr)"
      using z low_digits_0 [of "Suc p"] by simp
    finally show ?thesis .
  next
    case False
    have "(case frac_digits (of_nat (Suc (Suc p))) fr buf of (count, b) \<Rightarrow> extra_zeros count b)
        = (case frac_digits (of_nat (Suc p)) (fr div 10) ?b of (count, b) \<Rightarrow> extra_zeros count b)"
      using Suc.prems False c by (subst frac_digits.simps) (simp add: decimal_char)
    also have "\<dots> = ?b @ low_digits (Suc p) (unat (fr div 10))"
      using Suc.prems by (intro Suc.IH) (simp_all add: unat_div_10 less_mult_imp_div_less)
    finally show ?thesis by (simp add: unat_div_10)
  qed
qed

text \<open>The whole part.\<close>

lemma sdiv_smod_nat: "int n sdiv 10 = int (n div 10)" "int n smod 10 = int (n mod 10)"
  by (cases "n = 0"; simp add: signed_divide_int_def signed_modulo_int_def zdiv_int zmod_int)+

lemma whole_step:
  assumes "unat w < 2 ^ 31"
  shows "(word_of_int (48 + sint w smod 10) :: u8) = digit_byte (unat w mod 10)"
    "(word_of_int (sint w sdiv 10) :: u32) = w div 10"
proof -
  have s: "sint w = int (unat w)" using assms by (intro sint_u32_small) (simp add: word_less_nat_alt)
  have "\<forall>d\<in>set [0..<10]. (word_of_int (48 + int d) :: u8) = digit_byte d"
    unfolding digit_byte_def by (simp add: upt_rec)
  then show "(word_of_int (48 + sint w smod 10) :: u8) = digit_byte (unat w mod 10)"
    unfolding s sdiv_smod_nat by simp
  show "(word_of_int (sint w sdiv 10) :: u32) = w div 10"
    unfolding s sdiv_smod_nat using le_less_trans [OF div_le_dividend unat_u32_less [of w]]
    by (simp add: word_unat_eq_iff unat_div_10 unat_of_nat_u32)
qed

lemma whole_digits_eq:
  "unat w < 2 ^ 31 \<Longrightarrow> unat w < 10 ^ Suc k \<Longrightarrow> length buf + Suc k \<le> 32 \<Longrightarrow>
   whole_digits w buf = buf @ rev (number_text 10 (unat w))"
proof (induction k arbitrary: w buf)
  case 0
  then have "w div 10 = 0" by (simp add: word_unat_eq_iff unat_div_10)
  then show ?case using 0
    by (subst whole_digits.simps) (auto simp: whole_step [simplified] number_text_def digits_def rdigits_pos)
next
  case (Suc k)
  show ?case
  proof (cases "w div 10 = 0")
    case True
    then have "unat w < 10" using unat_div_10 [of w] by simp
    with Suc.prems True show ?thesis
      by (subst whole_digits.simps) (auto simp: whole_step [simplified] number_text_def digits_def rdigits_pos)
  next
    case False
    let ?b = "buf @ [digit_byte (unat w mod 10)]"
    have nz: "unat w div 10 \<noteq> 0" using False unat_div_10 [of w] by (simp add: word_unat_eq_iff)
    have "whole_digits w buf = whole_digits (w div 10) ?b"
      using Suc.prems False by (subst whole_digits.simps) (simp add: whole_step [simplified])
    also have "\<dots> = ?b @ rev (number_text 10 (unat (w div 10)))"
      using Suc.prems by (intro Suc.IH) (simp_all add: unat_div_10 less_mult_imp_div_less)
    also have "\<dots> = buf @ rev (number_text 10 (unat w))"
      using nz by (simp add: unat_div_10 number_text_def digits_def rdigits_pos [of 10 "unat w"])
    finally show ?thesis .
  qed
qed

subsection \<open>The arithmetic that is used\<close>

text \<open>
  \<open>val d\<close> is the number that a finite \<open>d\<close> stands for, \<open>rep\<close> holds of the numbers that the unit
  can represent.  These are laws of IEEE 754: an operation returns the exact result rounded, so the
  exact result when it can be represented; conversions to integers truncate.
\<close>

locale exact_steps =
  fixes fp :: "'d fpu" and val :: "'d \<Rightarrow> rat option" and rep :: "rat \<Rightarrow> bool"
  assumes eq: "val a = Some x \<Longrightarrow> val b = Some y \<Longrightarrow> fp_eq fp a b \<longleftrightarrow> x = y"
    and lt: "val a = Some x \<Longrightarrow> val b = Some y \<Longrightarrow> fp_lt fp a b \<longleftrightarrow> x < y"
    and le: "val a = Some x \<Longrightarrow> val b = Some y \<Longrightarrow> fp_le fp a b \<longleftrightarrow> x \<le> y"
    and sub: "val a = Some x \<Longrightarrow> val b = Some y \<Longrightarrow> rep (x - y) \<Longrightarrow> val (fp_sub fp a b) = Some (x - y)"
    and mul: "val a = Some x \<Longrightarrow> val b = Some y \<Longrightarrow> rep (x * y) \<Longrightarrow> val (fp_mul fp a b) = Some (x * y)"
    and neg: "val a = Some x \<Longrightarrow> val (fp_neg fp a) = Some (- x)"
    and literal: "m * 10 ^ k \<le> 10 ^ 9 \<Longrightarrow> val (fp_dec fp (int m) (int k)) = Some (of_nat (m * 10 ^ k))"
    and half: "val (fp_dec fp 5 (- 1)) = Some (1 / 2)"
    and of_int: "val (fp_of_int fp w) = Some (of_int (sint w))"
    and of_ulong: "val (fp_of_ulong fp w) = Some (of_nat (unat w))"
    and to_int: "val a = Some x \<Longrightarrow> 0 \<le> x \<Longrightarrow> x < 2 ^ 31 \<Longrightarrow> fp_to_int fp a = of_nat (nat \<lfloor>x\<rfloor>)"
    and to_ulong: "val a = Some x \<Longrightarrow> 0 \<le> x \<Longrightarrow> x < 2 ^ 32 \<Longrightarrow> fp_to_ulong fp a = of_nat (nat \<lfloor>x\<rfloor>)"
    and largest: "\<exists>m \<ge> 10 ^ 9. val (fp_dbl_max fp) = Some m"
begin

lemma power: "p \<le> 9 \<Longrightarrow> pow10 fp (of_nat p) = Some (fp_dec fp 1 (int p))"
proof -
  assume p: "p \<le> 9"
  then have "unat (of_nat p :: u32) = p" by (intro unat_of_nat_u32) simp
  then show ?thesis using p by (simp add: pow10_def word_le_nat_alt)
qed

lemma val_power: "p \<le> 9 \<Longrightarrow> val (fp_dec fp 1 (int p)) = Some (10 ^ p)"
  using literal [of 1 p] power_increasing [of p 9 "10 :: nat"] by simp

lemma val_zero: "val (fp_dec fp 0 0) = Some 0"
  using literal [of 0 0] by simp

end

subsection \<open>Rounding\<close>

text \<open>
  What \<open>_ftoa\<close> makes of a fraction \<open>t\<close> scaled by \<open>10 ^ p\<close>: the nearest number, or, halfway, the
  even one, except that 0 goes up.
\<close>

definition round_half :: "rat \<Rightarrow> nat" where
  "round_half t = (let n = nat \<lfloor>t\<rfloor>; d = t - of_nat n in
     if 1 / 2 < d then n + 1 else if d < 1 / 2 then n else if n = 0 \<or> odd n then n + 1 else n)"

lemma round_half_nearest: "0 \<le> t \<Longrightarrow> \<bar>of_nat (round_half t) - t\<bar> \<le> 1 / 2"
proof -
  assume "0 \<le> t"
  then have "of_nat (nat \<lfloor>t\<rfloor>) = (of_int \<lfloor>t\<rfloor> :: rat)" by simp
  then have "of_nat (nat \<lfloor>t\<rfloor>) \<le> t" "t < of_nat (nat \<lfloor>t\<rfloor>) + 1" using floor_correct [of t] by simp_all
  then show ?thesis by (auto simp: round_half_def Let_def abs_le_iff)
qed

lemma and_1_odd: "w AND 1 \<noteq> 0 \<longleftrightarrow> odd (unat (w :: u32))"
proof -
  have "w AND 1 = w mod 2" by (simp add: and_one_eq)
  then have "unat (w AND 1) = unat w mod 2" by (simp add: unat_mod)
  moreover have "w AND 1 \<noteq> 0 \<longleftrightarrow> unat (w AND 1) \<noteq> 0" by (simp add: unat_eq_zero)
  ultimately show ?thesis by (simp add: odd_iff_mod_2_eq_one)
qed

lemma unat_plus_1: "unat (w :: u32) < 2 ^ 31 \<Longrightarrow> unat (w + 1) = unat w + 1"
  by (subst unat_add_no_wrap) simp_all

context exact_steps
begin

text \<open>The rollover is right, but for a halfway fraction whose digits are all nines.\<close>

lemma round_frac_eq:
  assumes d: "val diff = Some (t - of_nat (unat fr))" and fr: "unat fr = nat \<lfloor>t\<rfloor>"
    and t: "0 \<le> t" "t < 10 ^ p" "t \<noteq> 10 ^ p - 1 / 2" and p: "p \<le> 9" and w: "unat w \<le> 10 ^ 9"
  obtains W F where "round_frac fp (fp_dec fp 1 (int p)) diff w fr = (W, F)" "unat F < 10 ^ p"
    "unat W \<le> 10 ^ 9 + 1" "unat W * 10 ^ p + unat F = unat w * 10 ^ p + round_half t"
proof -
  let ?n = "unat fr"
  have r: "of_nat ?n = (of_int \<lfloor>t\<rfloor> :: rat)" using t(1) fr by simp
  then have "of_nat ?n \<le> t" using floor_correct [of t] by simp
  then have "of_nat ?n < (10 ^ p :: rat)" using t(2) by linarith
  then have n: "?n < 10 ^ p" by (metis of_nat_less_iff of_nat_power of_nat_numeral)
  have p9: "(10 :: nat) ^ p \<le> 10 ^ 9" using p by (intro power_increasing) simp_all
  have n1: "unat (fr + 1) = ?n + 1" using n p9 by (intro unat_plus_1) simp
  have w1: "unat (w + 1) = unat w + 1" using w by (intro unat_plus_1) simp
  have le: "fp_le fp (fp_dec fp 1 (int p)) (fp_of_ulong fp (fr + 1)) \<longleftrightarrow> 10 ^ p \<le> ?n + 1"
  proof -
    have "(10 ^ p :: rat) \<le> of_nat (?n + 1) \<longleftrightarrow> 10 ^ p \<le> ?n + 1"
      by (metis of_nat_le_iff of_nat_power of_nat_numeral)
    then show ?thesis using le [OF val_power [OF p] of_ulong, of "fr + 1"] n1 by simp
  qed
  note rh = round_half_def [of t, unfolded Let_def fr [symmetric]]
  note lts = lt [OF half d] lt [OF d half]
  have odd: "fr = 0 \<or> fr AND 1 \<noteq> 0 \<longleftrightarrow> ?n = 0 \<or> odd ?n" by (simp only: and_1_odd unat_eq_zero)
  consider (up) "1 / 2 < t - of_nat ?n" | (down) "t - of_nat ?n < 1 / 2" | (tie) "t - of_nat ?n = 1 / 2"
    by linarith
  then show thesis
  proof cases
    case up
    then have "round_half t = ?n + 1" by (simp add: rh)
    then show thesis
      using that up n n1 w w1 le by (cases "10 ^ p \<le> ?n + 1") (simp_all add: round_frac_def lts)
  next
    case down
    then have "round_half t = ?n" by (simp add: rh)
    then show thesis using that down n w by (simp add: round_frac_def lts)
  next
    case tie
    have "?n + 1 < 10 ^ p"
    proof (rule ccontr)
      assume "\<not> ?n + 1 < 10 ^ p"
      with n have "?n + 1 = 10 ^ p" by simp
      then have "of_nat ?n + 1 = (10 ^ p :: rat)" by (metis of_nat_Suc of_nat_power of_nat_numeral Suc_eq_plus1 add.commute)
      with tie t(3) show False by linarith
    qed
    moreover have "round_half t = (if ?n = 0 \<or> odd ?n then ?n + 1 else ?n)"
      using tie by (simp add: rh)
    ultimately show thesis
      using that tie n n1 w by (cases "?n = 0 \<or> odd ?n") (simp_all add: round_frac_def lts odd)
  qed
qed

end

subsection \<open>The text\<close>

text \<open>A number of units of \<open>10 ^ - p\<close>, as text.\<close>

definition fixed_text :: "nat \<Rightarrow> nat \<Rightarrow> u8 list" where
  "fixed_text p n = number_text 10 (n div 10 ^ p)
     @ (if p = 0 then [] else chr CHR ''.'' # rev (low_digits p (n mod 10 ^ p)))"

text \<open>The units that \<open>_ftoa\<close> prints for \<open>x\<close>.\<close>

definition fraction_at :: "nat \<Rightarrow> rat \<Rightarrow> rat" where
  "fraction_at p x = (x - of_int \<lfloor>x\<rfloor>) * 10 ^ p"

definition fixed_units :: "nat \<Rightarrow> rat \<Rightarrow> nat" where
  "fixed_units p x = (let w = nat \<lfloor>x\<rfloor>; t = fraction_at p x in
     if p = 0 then if 1 / 2 < t \<or> t = 1 / 2 \<and> odd w then w + 1 else w
     else w * 10 ^ p + round_half t)"

lemma fraction_at_range: "0 \<le> fraction_at p x" "fraction_at p x < 10 ^ p"
proof -
  have "0 \<le> x - of_int \<lfloor>x\<rfloor>" "x - of_int \<lfloor>x\<rfloor> < 1" using floor_correct [of x] by simp_all
  then show "0 \<le> fraction_at p x" "fraction_at p x < 10 ^ p"
    using mult_strict_right_mono [of "x - of_int \<lfloor>x\<rfloor>" 1 "10 ^ p :: rat"] by (simp_all add: fraction_at_def)
qed

text \<open>They are the nearest ones.\<close>

lemma fixed_units_nearest:
  assumes "0 \<le> x" shows "\<bar>of_nat (fixed_units p x) - x * 10 ^ p\<bar> \<le> 1 / 2"
proof -
  have w: "of_nat (nat \<lfloor>x\<rfloor>) = (of_int \<lfloor>x\<rfloor> :: rat)" using assms by simp
  have x: "x * 10 ^ p = of_int \<lfloor>x\<rfloor> * 10 ^ p + fraction_at p x" by (simp add: fraction_at_def algebra_simps)
  show ?thesis
  proof (cases "p = 0")
    case True
    then show ?thesis using fraction_at_range [of 0 x] x w
      by (auto simp: fixed_units_def Let_def abs_le_iff)
  next
    case False
    then have "of_nat (fixed_units p x) - x * 10 ^ p = of_nat (round_half (fraction_at p x)) - fraction_at p x"
      using x w by (simp add: fixed_units_def Let_def)
    then show ?thesis using round_half_nearest [OF fraction_at_range(1)] by simp
  qed
qed

text \<open>The numbers that the steps compute can be represented.\<close>

definition exact_at :: "(rat \<Rightarrow> bool) \<Rightarrow> nat \<Rightarrow> rat \<Rightarrow> bool" where
  "exact_at rep p x \<longleftrightarrow> rep x \<and> rep (x - of_int \<lfloor>x\<rfloor>) \<and> rep (fraction_at p x)
     \<and> rep (fraction_at p x - of_int \<lfloor>fraction_at p x\<rfloor>) \<and> (p = 0 \<longrightarrow> rep (x - of_int \<lfloor>x\<rfloor> - 1))"

text \<open>Sign and padding, as for integers.\<close>

lemma ftoa_layout:
  assumes "\<not> has fl FLAGS_HASH" "length text \<le> 31"
    and "has fl FLAGS_ZEROPAD \<Longrightarrow> \<not> has fl FLAGS_LEFT \<Longrightarrow> unat width \<le> 32"
  shows "(let (buf3, width1) =
        (if \<not> has fl FLAGS_LEFT \<and> has fl FLAGS_ZEROPAD then
           let w1 = (if width \<noteq> 0 \<and> (neg \<or> has fl (FLAGS_PLUS OR FLAGS_SPACE)) then width - 1 else width)
           in (zero_fill w1 (rev text), w1)
         else (rev text, width))
      in out_rev out b ml (ntoa_sign neg fl buf3) width1 fl p)
    = emits out b ml (c_layout (has fl FLAGS_LEFT) (has fl FLAGS_ZEROPAD) (unat width) 0
        (sign_chars neg (has fl FLAGS_PLUS) (has fl FLAGS_SPACE)) text) p"
proof -
  let ?z = "ntoa_zeros neg 0 width fl (rev text)"
  have z: "?z = (if \<not> has fl FLAGS_LEFT \<and> has fl FLAGS_ZEROPAD then
           let w1 = (if width \<noteq> 0 \<and> (neg \<or> has fl (FLAGS_PLUS OR FLAGS_SPACE)) then width - 1 else width)
           in (zero_fill w1 (rev text), w1)
         else (rev text, width))"
    by (simp add: ntoa_zeros_def Let_def zero_fill.simps [of 0])
  have l: "length (ntoa_sign neg fl (fst ?z)) < 2 ^ 32"
    using assms(2) by (intro le_less_trans [OF length_ntoa_sign [OF length_ntoa_zeros]]) simp_all
  have "(case ?z of (buf3, width1) \<Rightarrow> out_rev out b ml (ntoa_sign neg fl buf3) width1 fl p)
      = emits out b ml (ntoa_text (rev text) neg 10 0 width fl) p"
    using assms(1) l by (simp add: ntoa_text_def ntoa_hash_def case_prod_beta out_rev_emits)
  also have "ntoa_text (rev text) neg 10 0 width fl
      = c_layout (has fl FLAGS_LEFT) (has fl FLAGS_ZEROPAD) (unat width) (unat (0 :: u32))
          (sign_chars neg (has fl FLAGS_PLUS) (has fl FLAGS_SPACE)) (rev (rev text))"
    using assms length_sign_chars [of neg "has fl FLAGS_PLUS" "has fl FLAGS_SPACE"]
    by (intro ntoa_text_layout) auto
  finally show ?thesis unfolding z by simp
qed

text \<open>The digits in the buffer, from the value without its sign.\<close>

definition ftoa_digits :: "'d fpu \<Rightarrow> 'd \<Rightarrow> u32 \<Rightarrow> 'd \<Rightarrow> u8 list" where
  "ftoa_digits fp value prec p10 =
     (let whole0 = fp_to_int fp value;
          tmp = fp_mul fp (fp_sub fp value (fp_of_int fp whole0)) p10;
          frac0 = fp_to_ulong fp tmp;
          diff0 = fp_sub fp tmp (fp_of_ulong fp frac0);
          (whole1, fr) = round_frac fp p10 diff0 whole0 frac0;
          (whole, buf1) =
            (if prec = 0 then
               let diff = fp_sub fp value (fp_of_int fp whole1)
               in (if (\<not> fp_lt fp diff (fp_dec fp 5 (- 1)) \<or> fp_lt fp (fp_dec fp 5 (- 1)) diff)
                      \<and> whole1 AND 1 \<noteq> 0
                   then (whole1 + 1, []) else (whole1, []))
             else
               let (count, b1) = frac_digits prec fr []; b2 = extra_zeros count b1
               in (whole1, if room b2 then b2 @ [chr CHR ''.''] else b2))
      in whole_digits whole buf1)"

context exact_steps
begin

lemma first_steps:
  assumes v: "val a = Some y" and y: "0 \<le> y" "y \<le> 10 ^ 9" and e: "exact_at rep p y" and p: "p \<le> 9"
  defines "w \<equiv> fp_to_int fp a"
  defines "tmp \<equiv> fp_mul fp (fp_sub fp a (fp_of_int fp w)) (fp_dec fp 1 (int p))"
  shows "unat w = nat \<lfloor>y\<rfloor>" "unat w \<le> 10 ^ 9" "unat (fp_to_ulong fp tmp) = nat \<lfloor>fraction_at p y\<rfloor>"
    "val (fp_sub fp tmp (fp_of_ulong fp (fp_to_ulong fp tmp)))
      = Some (fraction_at p y - of_nat (unat (fp_to_ulong fp tmp)))"
    "val (fp_of_int fp w) = Some (of_int \<lfloor>y\<rfloor>)"
proof -
  let ?t = "fraction_at p y"
  note t = fraction_at_range [of p y]
  have "\<lfloor>y\<rfloor> \<le> 10 ^ 9" using floor_mono [OF y(2)] by simp
  then have w9: "nat \<lfloor>y\<rfloor> \<le> 10 ^ 9" by (simp add: nat_le_iff)
  then show w: "unat w = nat \<lfloor>y\<rfloor>" unfolding w_def using to_int [OF v y(1)] y(2)
    by (simp add: unat_of_nat_u32)
  then show "unat w \<le> 10 ^ 9" using w9 by simp
  have "sint w = int (unat w)" using w w9 by (intro sint_u32_small) (simp add: word_less_nat_alt)
  then show i: "val (fp_of_int fp w) = Some (of_int \<lfloor>y\<rfloor>)" using of_int [of w] w y(1) by simp
  have "val (fp_sub fp a (fp_of_int fp w)) = Some (y - of_int \<lfloor>y\<rfloor>)"
    using sub [OF v i] e by (simp add: exact_at_def)
  from mul [OF this val_power [OF p]] e have tmp: "val tmp = Some ?t"
    by (simp add: tmp_def exact_at_def fraction_at_def)
  have "(10 :: rat) ^ p \<le> 10 ^ 9" using p by (intro power_increasing) simp_all
  with t(2) have t9: "?t < 10 ^ 9" by linarith
  then have "\<lfloor>?t\<rfloor> < 10 ^ 9" by (simp add: floor_less_iff)
  then have "nat \<lfloor>?t\<rfloor> < 10 ^ 9" by (simp add: nat_less_iff t(1))
  then show f: "unat (fp_to_ulong fp tmp) = nat \<lfloor>?t\<rfloor>"
    using to_ulong [OF tmp t(1)] t9 by (simp add: unat_of_nat_u32)
  then have "(of_nat (unat (fp_to_ulong fp tmp)) :: rat) = of_int \<lfloor>?t\<rfloor>" using t(1) by simp
  then show "val (fp_sub fp tmp (fp_of_ulong fp (fp_to_ulong fp tmp)))
      = Some (?t - of_nat (unat (fp_to_ulong fp tmp)))"
    using sub [OF tmp of_ulong] e by (simp add: exact_at_def)
qed

lemma ftoa_digits_fraction:
  assumes v: "val a = Some y" and y: "0 \<le> y" "y \<le> 10 ^ 9" and e: "exact_at rep p y" and p: "0 < p" "p \<le> 9"
    and tie: "fraction_at p y \<noteq> 10 ^ p - 1 / 2"
  shows "ftoa_digits fp a (of_nat p) (fp_dec fp 1 (int p)) = rev (fixed_text p (fixed_units p y))"
proof -
  note s = first_steps [OF v y e p(2)]
  obtain W F where r: "round_frac fp (fp_dec fp 1 (int p))
      (fp_sub fp (fp_mul fp (fp_sub fp a (fp_of_int fp (fp_to_int fp a))) (fp_dec fp 1 (int p)))
        (fp_of_ulong fp (fp_to_ulong fp (fp_mul fp (fp_sub fp a (fp_of_int fp (fp_to_int fp a))) (fp_dec fp 1 (int p))))))
      (fp_to_int fp a)
      (fp_to_ulong fp (fp_mul fp (fp_sub fp a (fp_of_int fp (fp_to_int fp a))) (fp_dec fp 1 (int p)))) = (W, F)"
    and F: "unat F < 10 ^ p" and W: "unat W \<le> 10 ^ 9 + 1"
    and sum: "unat W * 10 ^ p + unat F = unat (fp_to_int fp a) * 10 ^ p + round_half (fraction_at p y)"
    using round_frac_eq [OF s(4,3) fraction_at_range tie p(2) s(2)] by blast
  have u: "fixed_units p y = unat W * 10 ^ p + unat F" using sum s(1) p(1) by (simp add: fixed_units_def Let_def)
  have wf: "fixed_units p y div 10 ^ p = unat W" "fixed_units p y mod 10 ^ p = unat F"
    unfolding u using F by simp_all
  obtain q where q: "p = Suc q" using p(1) by (cases p) simp_all
  have "unat (of_nat p :: u32) = p" using p(2) by (intro unat_of_nat_u32) simp
  then have nz: "(of_nat p :: u32) \<noteq> 0" using p(1) by (intro notI) simp
  obtain c b1 where fd: "frac_digits (of_nat p) F [] = (c, b1)" by fastforce
  have b: "extra_zeros c b1 = low_digits p (unat F)"
    using frac_digits_eq [of F q "[]"] F p fd unfolding q by simp
  have "whole_digits W (low_digits p (unat F) @ [chr CHR ''.''])
      = (low_digits p (unat F) @ [chr CHR ''.'']) @ rev (number_text 10 (unat W))"
    using W p(2) by (intro whole_digits_eq [of _ 9]) simp_all
  then show ?thesis
    using p nz unfolding ftoa_digits_def Let_def r fd b prod.case fixed_text_def wf by simp
qed

lemma ftoa_digits_whole:
  assumes v: "val a = Some y" and y: "0 \<le> y" "y \<le> 10 ^ 9" and e: "exact_at rep 0 y"
  shows "ftoa_digits fp a 0 (fp_dec fp 1 0) = rev (fixed_text 0 (fixed_units 0 y))"
proof -
  let ?w = "fp_to_int fp a" and ?t = "fraction_at 0 y"
  have s: "unat ?w = nat \<lfloor>y\<rfloor>" "unat ?w \<le> 10 ^ 9"
    "unat (fp_to_ulong fp (fp_mul fp (fp_sub fp a (fp_of_int fp ?w)) (fp_dec fp 1 0))) = nat \<lfloor>?t\<rfloor>"
    "val (fp_sub fp (fp_mul fp (fp_sub fp a (fp_of_int fp ?w)) (fp_dec fp 1 0))
      (fp_of_ulong fp (fp_to_ulong fp (fp_mul fp (fp_sub fp a (fp_of_int fp ?w)) (fp_dec fp 1 0)))))
      = Some (?t - of_nat (unat (fp_to_ulong fp (fp_mul fp (fp_sub fp a (fp_of_int fp ?w)) (fp_dec fp 1 0)))))"
    "val (fp_of_int fp ?w) = Some (of_int \<lfloor>y\<rfloor>)"
    using first_steps [OF v y e] by simp_all
  have t1: "0 \<le> ?t" "?t < 1" using fraction_at_range [of 0 y] by simp_all
  then have "nat \<lfloor>?t\<rfloor> = 0" by (simp add: floor_eq_iff)
  then have f0: "fp_to_ulong fp (fp_mul fp (fp_sub fp a (fp_of_int fp ?w)) (fp_dec fp 1 0)) = 0"
    using s(3) by (simp add: unat_eq_zero)
  define diff0 where "diff0 = fp_sub fp (fp_mul fp (fp_sub fp a (fp_of_int fp ?w)) (fp_dec fp 1 0)) (fp_of_ulong fp 0)"
  have d0: "val diff0 = Some ?t" using s(4) unfolding f0 diff0_def by simp
  have le: "fp_le fp (fp_dec fp 1 0) (fp_of_ulong fp 1)"
    using le [OF _ of_ulong, of "fp_dec fp 1 0" 1 1] val_power [of 0] by simp
  define W where "W = (if 1 / 2 < ?t then ?w + 1 else ?w)"
  have r: "round_frac fp (fp_dec fp 1 0) diff0 ?w 0 = (W, if ?t = 1 / 2 then 1 else 0)"
    using lt [OF half d0] lt [OF d0 half] le by (auto simp: round_frac_def W_def)
  have w1: "unat (?w + 1) = unat ?w + 1" using s(2) by (intro unat_plus_1) simp
  then have uW: "unat W = (if 1 / 2 < ?t then unat ?w + 1 else unat ?w)" by (simp add: W_def)
  have "sint W = int (unat W)" using uW s(2) by (intro sint_u32_small) (simp add: word_less_nat_alt)
  then have vW: "val (fp_of_int fp W) = Some (of_nat (unat W))" using of_int [of W] by simp
  have ty: "?t = y - of_int \<lfloor>y\<rfloor>" by (simp add: fraction_at_def)
  have wy: "of_nat (unat ?w) = (of_int \<lfloor>y\<rfloor> :: rat)" using s(1) y(1) by simp
  have dW: "val (fp_sub fp a (fp_of_int fp W)) = Some (y - of_nat (unat W))"
    using sub [OF v vW] e uW wy unfolding exact_at_def by (cases "1 / 2 < ?t") (simp_all add: algebra_simps)
  have tests: "(\<not> fp_lt fp (fp_sub fp a (fp_of_int fp W)) (fp_dec fp 5 (- 1))
      \<or> fp_lt fp (fp_dec fp 5 (- 1)) (fp_sub fp a (fp_of_int fp W))) \<longleftrightarrow> ?t = 1 / 2"
    unfolding lt [OF dW half] lt [OF half dW] using uW wy ty t1 by (cases "1 / 2 < ?t") auto
  define V where "V = (if ?t = 1 / 2 \<and> W AND 1 \<noteq> 0 then W + 1 else W)"
  have uV: "unat V = fixed_units 0 y"
    using uW w1 s(1) by (auto simp: V_def W_def fixed_units_def Let_def and_1_odd)
  have "fixed_units 0 y \<le> 10 ^ 9 + 1" using s(1,2) by (auto simp: fixed_units_def Let_def)
  then have "whole_digits V [] = [] @ rev (number_text 10 (unat V))"
    unfolding uV [symmetric] by (intro whole_digits_eq [of _ 9]) simp_all
  moreover have "ftoa_digits fp a 0 (fp_dec fp 1 0) = whole_digits V []"
    unfolding ftoa_digits_def Let_def f0 diff0_def [symmetric] r prod.case tests V_def by simp
  ultimately show ?thesis by (simp add: uV fixed_text_def)
qed

end

subsection \<open>The conversion\<close>

lemma fixed_units_bound:
  assumes "0 \<le> y" "y \<le> 10 ^ 9" shows "fixed_units p y div 10 ^ p \<le> 10 ^ 9"
proof -
  have "of_nat (fixed_units p y) \<le> y * 10 ^ p + 1 / 2" using abs_le_D1 [OF fixed_units_nearest [OF assms(1), of p]] by simp
  also have "\<dots> \<le> 10 ^ 9 * 10 ^ p + 1 / 2" using assms(2) by (intro add_mono mult_right_mono) simp_all
  also have "\<dots> < of_nat (10 ^ 9 * 10 ^ p + 1)" by simp
  finally have "fixed_units p y < 10 ^ 9 * 10 ^ p + 1" by (simp only: of_nat_less_iff)
  then have "fixed_units p y div 10 ^ p \<le> (10 ^ 9 * 10 ^ p) div 10 ^ p" by (intro div_le_mono) simp
  then show ?thesis by simp
qed

lemma length_fixed_text:
  assumes "0 \<le> y" "y \<le> 10 ^ 9" "p \<le> 9" shows "length (fixed_text p (fixed_units p y)) \<le> 20"
proof -
  have "length (number_text 10 (fixed_units p y div 10 ^ p)) \<le> 10"
    using fixed_units_bound [OF assms(1,2), of p] by (intro length_number_text_u32) simp
  then show ?thesis using assms(3) by (cases "p = 0") (simp_all add: fixed_text_def)
qed

lemma limit_prec_small: "unat prec \<le> 9 \<Longrightarrow> limit_prec prec [] = (prec, [])"
  by (simp add: limit_prec.simps word_less_nat_alt)

definition fixed_prec :: "u32 \<Rightarrow> u32 \<Rightarrow> nat" where
  "fixed_prec fl pr = (if has fl FLAGS_PRECISION then unat pr else 6)"

context exact_steps
begin

lemma ftoa_fixed_text:
  assumes v: "val v = Some x" "\<bar>x\<bar> \<le> 10 ^ 9" and p: "p = fixed_prec fl pr" "p \<le> 9"
    and e: "exact_at rep p \<bar>x\<bar>" and tie: "0 < p \<Longrightarrow> fraction_at p \<bar>x\<bar> \<noteq> 10 ^ p - 1 / 2"
    and fl: "\<not> has fl FLAGS_HASH" "has fl FLAGS_ZEROPAD \<Longrightarrow> \<not> has fl FLAGS_LEFT \<Longrightarrow> unat width \<le> 32"
  shows "ftoa_fixed fp out b ml v pr width fl q
    = Some (emits out b ml (c_layout (has fl FLAGS_LEFT) (has fl FLAGS_ZEROPAD) (unat width) 0
        (sign_chars (x < 0) (has fl FLAGS_PLUS) (has fl FLAGS_SPACE)) (fixed_text p (fixed_units p \<bar>x\<bar>))) q)"
proof -
  let ?text = "fixed_text p (fixed_units p \<bar>x\<bar>)"
  let ?a = "if fp_lt fp v (fp_dec fp 0 0) then fp_sub fp (fp_dec fp 0 0) v else v"
  have n: "fp_lt fp v (fp_dec fp 0 0) \<longleftrightarrow> x < 0" using lt [OF v(1) val_zero] .
  have a: "val ?a = Some \<bar>x\<bar>"
    using sub [OF val_zero v(1)] v(1) e unfolding n exact_at_def by (cases "x < 0") simp_all
  have lp: "limit_prec (if \<not> has fl FLAGS_PRECISION then 6 else pr) [] = (of_nat p, [])"
    using p by (cases "has fl FLAGS_PRECISION") (simp_all add: fixed_prec_def limit_prec_small)
  have d: "ftoa_digits fp ?a (of_nat p) (fp_dec fp 1 (int p)) = rev ?text"
    using ftoa_digits_fraction [OF a _ v(2) e _ p(2) tie] ftoa_digits_whole [OF a _ v(2)] e by (cases "p = 0") simp_all
  have split: "ftoa_fixed fp out b ml v pr width fl q = Some (
      let (buf3, width1) =
        (if \<not> has fl FLAGS_LEFT \<and> has fl FLAGS_ZEROPAD then
           let w1 = (if width \<noteq> 0 \<and> (x < 0 \<or> has fl (FLAGS_PLUS OR FLAGS_SPACE)) then width - 1 else width)
           in (zero_fill w1 (ftoa_digits fp ?a (of_nat p) (fp_dec fp 1 (int p))), w1)
         else (ftoa_digits fp ?a (of_nat p) (fp_dec fp 1 (int p)), width))
      in out_rev out b ml (ntoa_sign (x < 0) fl buf3) width1 fl q)"
    unfolding ftoa_fixed_def lp n ftoa_digits_def Let_def prod.case power [OF p(2)] option.case
    by (simp add: case_prod_beta)
  have "length ?text \<le> 31" using length_fixed_text [OF _ v(2) p(2)] by simp
  from ftoa_layout [OF fl(1) this fl(2)] show ?thesis unfolding split d by simp
qed

lemma float_conv_text:
  assumes "val v = Some x" "\<bar>x\<bar> \<le> 10 ^ 9" "p = fixed_prec fl pr" "p \<le> 9"
    and "exact_at rep p \<bar>x\<bar>" "0 < p \<Longrightarrow> fraction_at p \<bar>x\<bar> \<noteq> 10 ^ p - 1 / 2"
    and "\<not> has fl FLAGS_HASH" "has fl FLAGS_ZEROPAD \<Longrightarrow> \<not> has fl FLAGS_LEFT \<Longrightarrow> unat width \<le> 32"
  shows "float_conv fp False out b ml v pr width fl q
    = Some (emits out b ml (c_layout (has fl FLAGS_LEFT) (has fl FLAGS_ZEROPAD) (unat width) 0
        (sign_chars (x < 0) (has fl FLAGS_PLUS) (has fl FLAGS_SPACE)) (fixed_text p (fixed_units p \<bar>x\<bar>))) q)"
proof -
  obtain m where m: "10 ^ 9 \<le> m" "val (fp_dbl_max fp) = Some m" using largest by blast
  have b9: "val (fp_dec fp 1 9) = Some (10 ^ 9)" using val_power [of 9] by simp
  have "fp_eq fp v v" "\<not> fp_lt fp v (fp_neg fp (fp_dbl_max fp))" "\<not> fp_lt fp (fp_dbl_max fp) v"
    "\<not> fp_lt fp (fp_dec fp 1 9) v" "\<not> fp_lt fp v (fp_neg fp (fp_dec fp 1 9))"
    unfolding eq [OF assms(1,1)] lt [OF assms(1) neg [OF m(2)]] lt [OF m(2) assms(1)] lt [OF b9 assms(1)]
      lt [OF assms(1) neg [OF b9]]
    using assms(2) m(1) by auto
  then show ?thesis
    using ftoa_fixed_text [OF assms(1-8)] by (subst float_conv.simps) simp
qed

end

subsection \<open>The directive\<close>

text \<open>A number of units of \<open>10 ^ - p\<close> with flags and width.\<close>

definition c_fixed :: "u8 list \<Rightarrow> nat \<Rightarrow> nat \<Rightarrow> bool \<Rightarrow> nat \<Rightarrow> u8 list" where
  "c_fixed fl width p neg n = c_layout (chr CHR ''-'' \<in> set fl) (chr CHR ''0'' \<in> set fl) width 0
     (sign_chars neg (chr CHR ''+'' \<in> set fl) (chr CHR '' '' \<in> set fl)) (fixed_text p n)"

lemma digit_byte_printable: "d < 10 \<Longrightarrow> 32 \<le> digit_byte d"
proof -
  have "\<forall>d\<in>set [0..<10]. 32 \<le> digit_byte d" unfolding digit_byte_def by (simp add: upt_rec)
  then show "d < 10 \<Longrightarrow> 32 \<le> digit_byte d" by simp
qed

lemma low_digits_printable: "c \<in> set (low_digits p n) \<Longrightarrow> 32 \<le> c"
  by (induction p arbitrary: n) (auto intro: digit_byte_printable)

lemma fixed_text_printable: "c \<in> set (fixed_text p n) \<Longrightarrow> 32 \<le> c"
  using digits_less [of 10 _ "n div 10 ^ p"]
  by (auto simp: fixed_text_def number_text_def dest: low_digits_printable intro: digit_byte_printable split: if_splits)

lemma c_fixed_nonzero: "0 \<notin> set (c_fixed fl width p neg n)"
  unfolding c_fixed_def using fixed_text_printable [of 0 p n]
  by (intro set_c_layout) (auto simp: sign_chars_def)

definition directive_prec :: "extent \<Rightarrow> nat" where
  "directive_prec pr = (case prec_of pr of None \<Rightarrow> 6 | Some k \<Rightarrow> k)"

context exact_steps
begin

lemma fixed_directive:
  assumes fl: "set fl \<subseteq> flag_chars" and w: "width_ok w" and pr: "prec_ok pr"
    and zero: "chr CHR ''0'' \<in> set fl \<Longrightarrow> width_of w \<le> 32"
    and p: "p = directive_prec pr" "p \<le> 9" and v: "val (fp_arg fp (lo, hi)) = Some x" "\<bar>x\<bar> \<le> 10 ^ 9"
    and e: "exact_at rep p \<bar>x\<bar>" and tie: "0 < p \<Longrightarrow> fraction_at p \<bar>x\<bar> \<noteq> 10 ^ p - 1 / 2"
  shows "vsn_loop fp out b ml (directive_syntax fl w pr (chr CHR ''f'') @ fmt)
      (extent_args w @ extent_args pr @ lo # hi # va) q
    = vsn_loop fp out b ml fmt va (emits out b ml
        (c_fixed (fl @ width_flags w) (width_of w) p (x < 0) (fixed_units p \<bar>x\<bar>)) q)"
proof -
  let ?w = "of_nat (width_of w) :: u32" and ?pr = "of_nat (case prec_of pr of None \<Rightarrow> 0 | Some k \<Rightarrow> k) :: u32"
  have spec: "chr CHR ''f'' \<in> set (bytes ''diuxXobscfF'')" by simp
  obtain f where f: "flag_word (fl @ width_flags w) (pr \<noteq> Absent) f"
    "parse_directive (fl @ width_syntax w @ prec_syntax pr @ chr CHR ''f'' # fmt) (extent_args w @ extent_args pr @ lo # hi # va)
      = Some (f, ?w, ?pr, chr CHR ''f'' # fmt, lo # hi # va)"
    using parse_syntax [OF flag_chars_hash [OF fl] w pr spec] by blast
  have uw: "unat ?w = width_of w" using extent_bound [OF w] by (simp add: unat_of_nat_u32)
  have z: "chr CHR ''0'' \<in> set (fl @ width_flags w) \<longleftrightarrow> chr CHR ''0'' \<in> set fl" by (cases w) auto
  have h: "chr CHR ''#'' \<notin> set (fl @ width_flags w)" using fl by (cases w) auto
  have a: "pr \<noteq> Absent \<longleftrightarrow> prec_of pr \<noteq> None" using pr by (cases pr) (auto simp: prec_ok_def)
  have pf: "p = fixed_prec f ?pr"
    using p f(1) a by (cases "prec_of pr") (auto simp: fixed_prec_def directive_prec_def flag_word_def unat_of_nat_u32)
  have "float_conv fp False out b ml (fp_arg fp (lo, hi)) ?pr ?w f q
    = Some (emits out b ml (c_layout (has f FLAGS_LEFT) (has f FLAGS_ZEROPAD) (unat ?w) 0
        (sign_chars (x < 0) (has f FLAGS_PLUS) (has f FLAGS_SPACE)) (fixed_text p (fixed_units p \<bar>x\<bar>))) q)"
  proof (rule float_conv_text [OF v pf p(2) e tie])
    show "unat ?w \<le> 32" if "has f FLAGS_ZEROPAD"
      unfolding uw using that f(1) z zero by (simp add: flag_word_def)
  qed (use f(1) h in \<open>simp_all add: flag_word_def\<close>)
  then have "conv_float fp out b ml (chr CHR ''f'') f ?w ?pr (lo # hi # va) q
    = Some (va, emits out b ml (c_fixed (fl @ width_flags w) (width_of w) p (x < 0) (fixed_units p \<bar>x\<bar>)) q)"
    using f(1) unfolding uw by (simp add: conv_float_def c_fixed_def flag_word_def)
  with f(2) show ?thesis by (simp add: directive_syntax_def convert_def)
qed

end

subsection \<open>A fraction of nines\<close>

text \<open>
  Halfway above \<open>10 ^ p - 1\<close> the fraction becomes \<open>10 ^ p\<close>, which has a digit more than are
  counted: the counter wraps around, and zeros fill the buffer.
\<close>

lemma frac_digits_power:
  "length buf + Suc p \<le> 32 \<Longrightarrow> unat fr = 10 ^ p
     \<Longrightarrow> frac_digits c fr buf = (c - of_nat (Suc p), buf @ replicate p (chr CHR ''0'') @ [chr CHR ''1''])"
proof (induction p arbitrary: fr buf c)
  case 0
  then have "fr = 1" by (simp add: word_unat_eq_iff)
  moreover have "(1 :: u32) div 10 = 0" "(1 :: u32) mod 10 = 1" by simp_all
  ultimately show ?case using 0(1) by (subst frac_digits.simps) simp
next
  case (Suc p)
  have d: "unat (fr div 10) = 10 ^ p" "fr div 10 \<noteq> 0"
    using Suc.prems(2) by (simp_all add: word_unat_eq_iff unat_div_10)
  have "unat fr mod 10 = 0" using Suc.prems(2) by simp
  then have c: "(ucast (48 + fr mod 10 :: u32) :: u8) = chr CHR ''0''"
    by (simp add: decimal_char digit_byte_def)
  have "frac_digits c fr buf = frac_digits (c - 1) (fr div 10) (buf @ [chr CHR ''0''])"
    using Suc.prems(1) d(2) c by (subst frac_digits.simps) simp
  also have "\<dots> = (c - 1 - of_nat (Suc p), (buf @ [chr CHR ''0'']) @ replicate p (chr CHR ''0'') @ [chr CHR ''1''])"
    using Suc.prems(1) d(1) by (intro Suc.IH) simp_all
  finally show ?case by (simp add: algebra_simps)
qed

lemma extra_zeros_wrapped:
  "length buf + k = 32 \<Longrightarrow> k \<le> unat c \<Longrightarrow> extra_zeros c buf = buf @ replicate k (chr CHR ''0'')"
proof (induction k arbitrary: buf c)
  case 0
  then show ?case by (simp add: extra_zeros.simps)
next
  case (Suc k)
  then have "0 < c" by (simp add: word_less_nat_alt)
  moreover from this have "unat (c - 1) = unat c - 1" by (intro unat_minus_one) auto
  ultimately show ?case using Suc by (subst extra_zeros.simps) simp
qed

context exact_steps
begin

lemma ftoa_fixed_nines:
  assumes v: "val v = Some x" "0 \<le> x" "x \<le> 10 ^ 9" and i: "rep (x - of_int \<lfloor>x\<rfloor>)" and p: "0 < p" "p \<le> 9"
    and tmp: "val (fp_mul fp (fp_sub fp v (fp_of_int fp (fp_to_int fp v))) (fp_dec fp 1 (int p))) = Some (10 ^ p - 1 / 2)"
    and h: "rep (1 / 2)" and P: "has g FLAGS_PRECISION" "\<not> has g FLAGS_LEFT" "\<not> has g FLAGS_ZEROPAD"
  shows "ftoa_fixed fp out b ml v (of_nat p) 0 g q
    = Some (emits out b ml (replicate (31 - p) (chr CHR ''0'') @ chr CHR ''1'' # replicate p (chr CHR ''0'')) q)"
proof -
  let ?tmp = "fp_mul fp (fp_sub fp v (fp_of_int fp (fp_to_int fp v))) (fp_dec fp 1 (int p))"
  let ?f = "fp_to_ulong fp ?tmp"
  have n: "\<not> fp_lt fp v (fp_dec fp 0 0)" using lt [OF v(1) val_zero] v(2) by simp
  have up: "unat (of_nat p :: u32) = p" using p(2) by (intro unat_of_nat_u32) simp
  have lp: "limit_prec (of_nat p) [] = (of_nat p, [])" using p(2) up by (intro limit_prec_small) simp
  have p9: "(10 :: nat) ^ p \<le> 10 ^ 9" "1 \<le> (10 :: nat) ^ p" using power_increasing [OF p(2), of "10 :: nat"] by simp_all
  have r: "10 ^ p - 1 / 2 = (of_nat (10 ^ p - 1) + 1 / 2 :: rat)" using p9(2) by (simp add: of_nat_diff)
  have fl: "\<lfloor>10 ^ p - 1 / 2 :: rat\<rfloor> = int (10 ^ p - 1)" unfolding r by (simp only: floor_eq_iff) simp
  have "(10 ^ p - 1 / 2 :: rat) < 2 ^ 32"
  proof -
    have "(10 :: rat) ^ p \<le> 10 ^ 9" using p(2) by (intro power_increasing) simp_all
    then show ?thesis by simp
  qed
  moreover have "0 \<le> (10 ^ p - 1 / 2 :: rat)" unfolding r by (intro add_nonneg_nonneg of_nat_0_le_iff) simp
  ultimately have "?f = of_nat (nat \<lfloor>10 ^ p - 1 / 2 :: rat\<rfloor>)" using to_ulong [OF tmp] by blast
  then have "?f = of_nat (10 ^ p - 1)" unfolding fl by (simp only: nat_int)
  moreover have "unat (of_nat (10 ^ p - 1) :: u32) = 10 ^ p - 1" using p9(1) by (intro unat_of_nat_u32) simp
  ultimately have uf: "unat ?f = 10 ^ p - 1" by simp
  have u1: "unat (?f + 1) = 10 ^ p" using uf p9 by (subst unat_plus_1) simp_all
  have d: "val (fp_sub fp ?tmp (fp_of_ulong fp ?f)) = Some (1 / 2)"
  proof -
    have "10 ^ p - 1 / 2 - of_nat (unat ?f) = (1 / 2 :: rat)" unfolding uf r by simp
    with sub [OF tmp of_ulong [of ?f]] h show ?thesis by metis
  qed
  have "odd (10 ^ p - 1 :: nat)" using p(1) by simp
  then have "?f AND 1 \<noteq> 0" unfolding and_1_odd uf .
  then have rf: "round_frac fp (fp_dec fp 1 (int p)) (fp_sub fp ?tmp (fp_of_ulong fp ?f)) (fp_to_int fp v) ?f
      = (fp_to_int fp v, ?f + 1)"
    using lt [OF half d] lt [OF d half] by (simp add: round_frac_def)
  have fd: "frac_digits (of_nat p) (?f + 1) [] = (- 1, replicate p (chr CHR ''0'') @ [chr CHR ''1''])"
    using frac_digits_power [of "[]" p "?f + 1" "of_nat p"] u1 p(2) by simp
  have ez: "extra_zeros (- 1) (replicate p (chr CHR ''0'') @ [chr CHR ''1''])
      = replicate p (chr CHR ''0'') @ chr CHR ''1'' # replicate (31 - p) (chr CHR ''0'')"
    using p(2) by (subst extra_zeros_wrapped [of _ "31 - p"]) simp_all
  let ?b = "replicate p (chr CHR ''0'') @ chr CHR ''1'' # replicate (31 - p) (chr CHR ''0'')"
  have nz: "(of_nat p :: u32) \<noteq> 0" using up p(1) by (intro notI) simp
  have l: "length ?b = 32" using p(2) by simp
  have s: "ntoa_sign False g ?b = ?b" using l by (simp add: ntoa_sign_def)
  have w: "whole_digits (fp_to_int fp v) ?b = ?b" using l by (subst whole_digits.simps) simp
  have "ftoa_fixed fp out b ml v (of_nat p) 0 g q = Some (out_rev out b ml ?b 0 g q)"
    unfolding ftoa_fixed_def using P n nz l
    by (simp only: lp if_True if_False not_True_eq_False not_False_eq_True simp_thms Let_def prod.case power [OF p(2)]
        option.case rf fd ez less_irrefl w s)
  also have "\<dots> = Some (emits out b ml (rev ?b) q)"
    using l P by (subst out_rev_emits) (simp_all add: rev_text_def)
  finally show ?thesis by simp
qed

text \<open>The same through the directive.\<close>

lemma nines_directive:
  assumes v: "val (fp_arg fp (lo, hi)) = Some x" "0 \<le> x" "x \<le> 10 ^ 9" and i: "rep (x - of_int \<lfloor>x\<rfloor>)" and p: "0 < p" "p \<le> 9"
    and tmp: "val (fp_mul fp (fp_sub fp (fp_arg fp (lo, hi)) (fp_of_int fp (fp_to_int fp (fp_arg fp (lo, hi))))) (fp_dec fp 1 (int p)))
      = Some (10 ^ p - 1 / 2)"
    and h: "rep (1 / 2)"
  shows "vsn_loop fp out b ml (directive_syntax [] Absent (Fixed p) (chr CHR ''f'')) [lo, hi] q
    = Some (emits out b ml (replicate (31 - p) (chr CHR ''0'') @ chr CHR ''1'' # replicate p (chr CHR ''0'')) q)"
proof -
  let ?v = "fp_arg fp (lo, hi)"
  have w: "set [] \<subseteq> flag_chars" "width_ok Absent" "prec_ok (Fixed p)" "chr CHR ''f'' \<in> set (bytes ''diuxXobscfF'')"
    using p(2) by (simp_all add: width_ok_def prec_ok_def)
  obtain f where f: "flag_word [] True f"
    "parse_directive (prec_syntax (Fixed p) @ chr CHR ''f'' # []) [lo, hi] = Some (f, 0, of_nat p, [chr CHR ''f''], [lo, hi])"
    using parse_syntax [OF flag_chars_hash [OF w(1)] w(2-4), of "[]" "[lo, hi]"] by auto
  obtain m where m: "10 ^ 9 \<le> m" "val (fp_dbl_max fp) = Some m" using largest by blast
  have b9: "val (fp_dec fp 1 9) = Some (10 ^ 9)" using val_power [of 9] by simp
  have "fp_eq fp ?v ?v" "\<not> fp_lt fp ?v (fp_neg fp (fp_dbl_max fp))" "\<not> fp_lt fp (fp_dbl_max fp) ?v"
    "\<not> fp_lt fp (fp_dec fp 1 9) ?v" "\<not> fp_lt fp ?v (fp_neg fp (fp_dec fp 1 9))"
    unfolding eq [OF v(1,1)] lt [OF v(1) neg [OF m(2)]] lt [OF m(2) v(1)] lt [OF b9 v(1)] lt [OF v(1) neg [OF b9]]
    using v(2,3) m(1) by auto
  moreover have "ftoa_fixed fp out b ml ?v (of_nat p) 0 f q
      = Some (emits out b ml (replicate (31 - p) (chr CHR ''0'') @ chr CHR ''1'' # replicate p (chr CHR ''0'')) q)"
    using f(1) by (intro ftoa_fixed_nines [OF v i p tmp h]) (simp_all add: flag_word_def)
  ultimately have "float_conv fp False out b ml ?v (of_nat p) 0 f q
      = Some (emits out b ml (replicate (31 - p) (chr CHR ''0'') @ chr CHR ''1'' # replicate p (chr CHR ''0'')) q)"
    by (subst float_conv.simps) simp
  with f(2) show ?thesis by (simp add: directive_syntax_def convert_def conv_float_def)
qed

end

end
