(* ===== verification/Printf_Double.thy ===== *)
theory Printf_Double
  imports Printf_Fixed "HOL-Library.Log_Nat"
begin

text \<open>
  A floating-point unit with the format of \<open>double\<close>, rounding to the nearest number of 53 bits,
  without overflow: infinities and NaN are one value.  It is an instance of \<open>exact_steps\<close>, so that
  the results on \<open>%f\<close> hold for it.
\<close>

subsection \<open>Rounding to 53 bits\<close>

definition round_even :: "rat \<Rightarrow> int" where
  "round_even x = (let n = \<lfloor>x\<rfloor>; d = x - of_int n in if 1 / 2 < d \<or> d = 1 / 2 \<and> odd n then n + 1 else n)"

text \<open>The binary exponent of a positive number.\<close>

definition ilog2 :: "rat \<Rightarrow> int" where
  "ilog2 x = (if 1 \<le> x then int (floorlog 2 (nat \<lfloor>x\<rfloor>)) - 1 else - int (floorlog 2 (nat (\<lceil>1 / x\<rceil> - 1))))"

definition round53 :: "rat \<Rightarrow> rat" where
  "round53 x = (if x = 0 then 0 else
     let u = 2 powi (ilog2 \<bar>x\<bar> - 52) in of_int (round_even (x / u)) * u)"

lemma round_even_int [simp]: "round_even (of_int n) = n"
  by (simp add: round_even_def)

lemma ilog2_lower:
  assumes "0 < x" shows "2 powi ilog2 x \<le> x"
proof (cases "1 \<le> x")
  case True
  let ?n = "nat \<lfloor>x\<rfloor>"
  have n: "0 < ?n" using True by simp
  then have "2 ^ (floorlog 2 ?n - 1) \<le> ?n" using floorlog_bounds [of ?n 2] by simp
  then have "(2 :: rat) ^ (floorlog 2 ?n - 1) \<le> of_nat ?n" by (metis of_nat_le_iff of_nat_power of_nat_numeral)
  also have "of_nat ?n \<le> x" using True by simp
  finally show ?thesis
    using True n by (simp add: ilog2_def power_int_def nat_diff_distrib Suc_le_eq floorlog_def)
next
  case False
  let ?n = "nat (\<lceil>1 / x\<rceil> - 1)"
  have "?n < 2 ^ floorlog 2 ?n"
    using floorlog_bounds [of ?n 2] by (cases "?n = 0") simp_all
  then have "?n + 1 \<le> 2 ^ floorlog 2 ?n" by (simp only: Suc_le_eq Suc_eq_plus1 [symmetric])
  then have "(of_nat (?n + 1) :: rat) \<le> of_nat (2 ^ floorlog 2 ?n)" by (simp only: of_nat_le_iff)
  moreover have "1 / x \<le> of_nat (?n + 1)" using assms by (simp add: of_nat_diff ceiling_correct)
  ultimately have "1 / x \<le> 2 ^ floorlog 2 ?n" by simp
  then have "1 / 2 ^ floorlog 2 ?n \<le> x" using assms by (simp add: divide_le_eq pos_divide_le_eq mult.commute)
  then show ?thesis using False by (simp add: ilog2_def power_int_minus field_simps)
qed

lemma divide_powi: "x / 2 powi e = x * 2 powi (- e)" for x :: rat
  by (simp add: power_int_minus divide_inverse)

text \<open>A number with at most 53 bits is kept.\<close>

lemma round53_dyadic:
  assumes "\<bar>m\<bar> < 2 ^ 53" shows "round53 (of_int m / 2 ^ k) = of_int m / 2 ^ k"
proof (cases "m = 0")
  case False
  let ?x = "of_int m / 2 ^ k :: rat"
  let ?e = "ilog2 \<bar>?x\<bar> - 52"
  have "2 powi ilog2 \<bar>?x\<bar> \<le> \<bar>?x\<bar>" using False by (intro ilog2_lower) simp
  also have "\<bar>?x\<bar> = of_int \<bar>m\<bar> / 2 ^ k" by simp
  also have "\<dots> < 2 ^ 53 / 2 ^ k"
    using assms by (intro divide_strict_right_mono) (metis of_int_less_iff of_int_numeral of_int_power, simp)
  also have "\<dots> = 2 powi (53 - int k)" by (simp add: power_int_diff)
  finally have "\<not> 2 powi (53 - int k) \<le> (2 powi ilog2 \<bar>?x\<bar> :: rat)" by simp
  then have "\<not> 53 - int k \<le> ilog2 \<bar>?x\<bar>" using power_int_increasing [of "53 - int k" "ilog2 \<bar>?x\<bar>" "2 :: rat"] by auto
  then have "int k \<le> - ?e" by simp
  then obtain j where j: "- ?e = int k + int j" using zle_iff_zadd [of "int k" "- ?e"] by blast
  have "?x / 2 powi ?e = of_int (m * 2 ^ j)"
  proof -
    have "?x / 2 powi ?e = ?x * 2 powi (int k + int j)" unfolding j [symmetric] by (rule divide_powi)
    then show ?thesis by (simp add: power_int_add)
  qed
  then have "round53 ?x = of_int (m * 2 ^ j) * 2 powi ?e"
    using False by (simp only: round53_def Let_def round_even_int) simp
  also have "\<dots> = ?x" using \<open>?x / 2 powi ?e = of_int (m * 2 ^ j)\<close> by (simp add: field_simps)
  finally show ?thesis .
qed (simp add: round53_def)

subsection \<open>The unit\<close>

text \<open>The number that 64 bits stand for, and back.\<close>

definition double_value :: "u64 \<Rightarrow> rat option" where
  "double_value u =
     (let e = unat (drop_bit 52 u AND 0x7FF); f = unat (u AND mask 52);
          m = (if e = 0 then of_nat f / 2 ^ 1074 else of_nat (2 ^ 52 + f) * 2 powi (int e - 1075))
      in if e = 0x7FF then None else Some (if bit u 63 then - m else m))"

definition double_bits :: "rat option \<Rightarrow> u64" where
  "double_bits d =
     (case d of None \<Rightarrow> 0x7FF8000000000000
      | Some x \<Rightarrow>
        let k = max (- 1022) (ilog2 \<bar>x\<bar>); m = nat \<lfloor>\<bar>x\<bar> / 2 powi (k - 52)\<rfloor>
        in (if x < 0 then push_bit 63 1 else 0) OR
           (if x = 0 then 0 else if m < 2 ^ 52 then of_nat m
            else push_bit 52 (word_of_int (k + 1023)) OR of_nat (m - 2 ^ 52)))"

definition compare_finite :: "(rat \<Rightarrow> rat \<Rightarrow> bool) \<Rightarrow> rat option \<Rightarrow> rat option \<Rightarrow> bool" where
  "compare_finite R a b = (case (a, b) of (Some x, Some y) \<Rightarrow> R x y | _ \<Rightarrow> False)"

definition round_finite :: "(rat \<Rightarrow> rat \<Rightarrow> rat) \<Rightarrow> rat option \<Rightarrow> rat option \<Rightarrow> rat option" where
  "round_finite f a b = (case (a, b) of (Some x, Some y) \<Rightarrow> Some (round53 (f x y)) | _ \<Rightarrow> None)"

definition truncate_to :: "rat option \<Rightarrow> u32" where
  "truncate_to a = (case a of None \<Rightarrow> 0x80000000
     | Some x \<Rightarrow> word_of_int (if 0 \<le> x then \<lfloor>x\<rfloor> else \<lceil>x\<rceil>))"

definition double_fpu :: "rat option fpu" where
  "double_fpu = \<lparr>fp_arg = (\<lambda>w. double_value (long_long w)),
     fp_dec = (\<lambda>m e. Some (round53 (of_int m * 10 powi e))), fp_dbl_max = Some (of_nat (2 ^ 53 - 1) * 2 ^ 971),
     fp_eq = compare_finite (=), fp_lt = compare_finite (<), fp_le = compare_finite (\<le>),
     fp_add = round_finite (+), fp_sub = round_finite (-), fp_mul = round_finite (*),
     fp_div = (\<lambda>a b. if b = Some 0 then None else round_finite (/) a b), fp_neg = map_option uminus,
     fp_of_int = (\<lambda>w. Some (of_int (sint w))), fp_of_ulong = (\<lambda>w. Some (of_nat (unat w))),
     fp_to_int = truncate_to, fp_to_ulong = truncate_to, fp_bits = double_bits, fp_of_bits = double_value\<rparr>"

lemma word_of_int_floor: "0 \<le> x \<Longrightarrow> word_of_int \<lfloor>x\<rfloor> = (of_nat (nat \<lfloor>x\<rfloor>) :: u32)" for x :: rat
  by simp

interpretation double: exact_steps double_fpu "\<lambda>d. d" "\<lambda>x. round53 x = x"
proof (unfold_locales, goal_cases)
  case (1 a x b y)
  then show ?case by (simp add: double_fpu_def compare_finite_def)
next
  case (2 a x b y)
  then show ?case by (simp add: double_fpu_def compare_finite_def)
next
  case (3 a x b y)
  then show ?case by (simp add: double_fpu_def compare_finite_def)
next
  case (4 a x b y)
  then show ?case by (simp add: double_fpu_def round_finite_def)
next
  case (5 a x b y)
  then show ?case by (simp add: double_fpu_def round_finite_def)
next
  case (6 a x)
  then show ?case by (simp add: double_fpu_def)
next
  case (7 m k)
  have "\<bar>int (m * 10 ^ k)\<bar> < 2 ^ 53" using 7 by (simp only: abs_of_nat) (use of_nat_mono [OF 7, where ?'a = int] in simp)
  then show ?case using round53_dyadic [of "int (m * 10 ^ k)" 0] by (simp add: double_fpu_def power_int_def)
next
  case 8
  then show ?case using round53_dyadic [of 1 1] by (simp add: double_fpu_def power_int_minus)
next
  case (9 w)
  then show ?case by (simp add: double_fpu_def)
next
  case (10 w)
  then show ?case by (simp add: double_fpu_def)
next
  case (11 a x)
  then show ?case by (simp add: double_fpu_def truncate_to_def)
next
  case (12 a x)
  then show ?case by (simp add: double_fpu_def truncate_to_def)
next
  case 13
  have "(10 ^ 9 :: rat) \<le> of_nat (2 ^ 53 - 1) * 1" by simp
  also have "\<dots> \<le> of_nat (2 ^ 53 - 1) * 2 ^ 971" by (intro mult_left_mono) (simp_all only: of_nat_0_le_iff one_le_power one_le_numeral)
  finally show ?case
    by (intro exI [of _ "of_nat (2 ^ 53 - 1) * 2 ^ 971"]) (simp only: double_fpu_def fpu.simps simp_thms)
qed

subsection \<open>Samples\<close>

lemma bits_2_5: "fp_arg double_fpu (0, 0x40040000) = Some (5 / 2)"
  by (simp add: double_fpu_def double_value_def long_long_def mask_eq_exp_minus_1 power_int_def power_one_over)

lemma bits_0_995: "fp_arg double_fpu (0x3D70A3D7, 0x3FEFD70A) = Some (0x1FD70A3D70A3D7 / 9007199254740992)"
  by (simp add: double_fpu_def double_value_def long_long_def mask_eq_exp_minus_1 power_int_def power_one_over)

lemma product_99_5: "round53 (0x1FD70A3D70A3D7 / 9007199254740992 * 100) = 199 / 2"
proof -
  have "\<lfloor>0x1FD70A3D70A3D7 / 9007199254740992 * 100 :: rat\<rfloor> = 99" by (simp add: floor_eq_iff)
  then have "ilog2 \<bar>0x1FD70A3D70A3D7 / 9007199254740992 * 100\<bar> = 6" by (simp add: ilog2_def compute_floorlog)
  moreover have "\<lfloor>0x1FD70A3D70A3D7 / 9007199254740992 * 100 / 2 powi (6 - 52) :: rat\<rfloor> = 7001690045677567"
    by (simp add: floor_eq_iff power_int_def power_one_over)
  ultimately show ?thesis by (simp add: round53_def Let_def round_even_def power_int_def power_one_over)
qed

text \<open>C13: The directive \<open>%f\<close> with any of the flags \<open>0\<close>, \<open>-\<close>, \<open>+\<close> and space, a width (up to 32 with the
  flag \<open>0\<close>) and a precision up to 9: \<open>snprintf\<close> leaves the number correctly rounded to the precision,
  cut to the buffer, for every number of magnitude up to \<open>10 ^ 9\<close> for which the unit computes the steps
  of \<open>_ftoa\<close> exactly, but for a fraction halfway below the next whole number.  Larger numbers are
  printed by \<open>_etoa\<close>.\<close>

theorem snprintf_fixed:
  assumes "buffer \<noteq> 0" "0 < count" "exact_steps fp val rep"
    and "set fl \<subseteq> flag_chars" "width_ok w" "prec_ok pr" "chr CHR ''0'' \<notin> set fl \<or> width_of w \<le> 32"
    and "p = directive_prec pr" "p \<le> 9" "val (fp_arg fp (lo, hi)) = Some x" "\<bar>x\<bar> \<le> 10 ^ 9"
    and "exact_at rep p \<bar>x\<bar>" "p = 0 \<or> fraction_at p \<bar>x\<bar> \<noteq> 10 ^ p - 1 / 2"
  shows "\<exists>n text s'. \<bar>of_nat n - \<bar>x\<bar> * 10 ^ p\<bar> \<le> 1 / 2
    \<and> text = c_fixed (fl @ width_flags w) (width_of w) p (x < 0) n
    \<and> snprintf fp buffer count (directive_syntax fl w pr (chr CHR ''f'')) (extent_args w @ extent_args pr @ [lo, hi]) s
        = Some (of_nat (length text), s')
    \<and> cstr (ram s') buffer (take (unat count - 1) text)
    \<and> s' = s\<lparr>ram := ram s'\<rparr> \<and> same_outside (span buffer (unat count)) (ram s) (ram s')"
proof -
  let ?n = "fixed_units p \<bar>x\<bar>"
  let ?t = "c_fixed (fl @ width_flags w) (width_of w) p (x < 0) ?n"
  have "vsn_loop fp Out_buffer buffer count (directive_syntax fl w pr (chr CHR ''f'') @ [])
      (extent_args w @ extent_args pr @ lo # hi # []) (0, s)
    = vsn_loop fp Out_buffer buffer count [] [] (emits Out_buffer buffer count ?t (0, s))"
    using assms(7,13) by (intro exact_steps.fixed_directive [OF assms(3-6) _ assms(8-12)]) auto
  then have loop: "vsn_loop fp Out_buffer buffer count (directive_syntax fl w pr (chr CHR ''f''))
      (extent_args w @ extent_args pr @ [lo, hi]) (0, s) = Some (emits Out_buffer buffer count ?t (0, s))" by simp
  have "length ?t \<le> max (width_of w) 21"
    using length_fixed_text [OF _ assms(11,9)] length_sign_chars [of "x < 0"] unfolding c_fixed_def length_c_layout
    by (intro max.mono) (auto intro: order.trans [OF add_mono])
  then have "length ?t < 2 ^ 32" using extent_bound [OF assms(5)] by simp
  from snprintf_text [OF loop c_fixed_nonzero this assms(1,2)] fixed_units_nearest [of "\<bar>x\<bar>" p]
  show ?thesis unfolding same_outside_def by (intro exI [of _ ?n] exI [of _ ?t]) auto
qed

theorem snprintf_fixed_witness:
  "\<exists>s'. snprintf double_fpu 100 20 (directive_syntax [chr CHR ''+''] (Fixed 8) (Fixed 1) (chr CHR ''f'')) [0, 0x40040000]
        (initial_machine (\<lambda>_. 0) []) = Some (8, s')
    \<and> cstr (ram s') 100 (bytes ''    +2.5'')"
proof -
  have floors: "\<lfloor>5 / 2 :: rat\<rfloor> = 2" by (simp add: floor_eq_iff)
  have "exact_at (\<lambda>x. round53 x = x) 1 \<bar>5 / 2\<bar>"
    using round53_dyadic [of 5 1] round53_dyadic [of 1 1] round53_dyadic [of 5 0] round53_dyadic [of 0 0]
    by (simp add: exact_at_def fraction_at_def floors)
  moreover have "exact_steps double_fpu (\<lambda>d. d) (\<lambda>x. round53 x = x)" by (rule double.exact_steps_axioms)
  ultimately have "\<exists>n text s'. \<bar>of_nat n - \<bar>5 / 2\<bar> * 10 ^ 1\<bar> \<le> (1 / 2 :: rat)
    \<and> text = c_fixed ([chr CHR ''+''] @ width_flags (Fixed 8)) (width_of (Fixed 8)) 1 ((5 / 2 :: rat) < 0) n
    \<and> snprintf double_fpu 100 20 (directive_syntax [chr CHR ''+''] (Fixed 8) (Fixed 1) (chr CHR ''f''))
        (extent_args (Fixed 8) @ extent_args (Fixed 1) @ [0, 0x40040000]) (initial_machine (\<lambda>_. 0) [])
        = Some (of_nat (length text), s')
    \<and> cstr (ram s') 100 (take (unat (20 :: u32) - 1) text)
    \<and> s' = (initial_machine (\<lambda>_. 0) [])\<lparr>ram := ram s'\<rparr>
    \<and> same_outside (span 100 (unat (20 :: u32))) (ram (initial_machine (\<lambda>_. 0) [])) (ram s')"
    by (intro snprintf_fixed)
      (simp_all add: bits_2_5 width_ok_def prec_ok_def directive_prec_def fraction_at_def floors)
  then obtain n s' where n: "\<bar>of_nat n - 25\<bar> \<le> (1 / 2 :: rat)"
    and s: "snprintf double_fpu 100 20 (directive_syntax [chr CHR ''+''] (Fixed 8) (Fixed 1) (chr CHR ''f'')) [0, 0x40040000]
        (initial_machine (\<lambda>_. 0) []) = Some (of_nat (length (c_fixed [chr CHR ''+''] 8 1 False n)), s')"
    "cstr (ram s') 100 (take (unat (20 :: u32) - 1) (c_fixed [chr CHR ''+''] 8 1 False n))"
    by auto
  from n have "(of_nat n :: rat) < 26" "24 < (of_nat n :: rat)" unfolding abs_le_iff by linarith+
  then have "n = 25" by simp
  moreover have "c_fixed [chr CHR ''+''] 8 1 False 25 = bytes ''    +2.5''" by code_simp
  ultimately show ?thesis using s by auto
qed

text \<open>C36: A value whose fraction, scaled and rounded by the unit, is exactly one half above \<open>10 ^ p - 1\<close>:
  \<open>%.pf\<close> prints 32 characters of zeros with a single 1, no decimal point and no whole part.\<close>

theorem fixed_nines_overflow:
  assumes "buffer \<noteq> 0" "0 < count" "exact_steps fp val rep"
    and "val (fp_arg fp (lo, hi)) = Some x" "0 \<le> x" "x \<le> 10 ^ 9" "rep (x - of_int \<lfloor>x\<rfloor>)" "rep (1 / 2)" "0 < p" "p \<le> 9"
    and "val (fp_mul fp (fp_sub fp (fp_arg fp (lo, hi)) (fp_of_int fp (fp_to_int fp (fp_arg fp (lo, hi))))) (fp_dec fp 1 (int p)))
      = Some (10 ^ p - 1 / 2)"
  shows "\<exists>s'. snprintf fp buffer count (directive_syntax [] Absent (Fixed p) (chr CHR ''f'')) [lo, hi] s = Some (32, s')
    \<and> cstr (ram s') buffer (take (unat count - 1)
        (replicate (31 - p) (chr CHR ''0'') @ chr CHR ''1'' # replicate p (chr CHR ''0'')))"
proof -
  let ?t = "replicate (31 - p) (chr CHR ''0'') @ chr CHR ''1'' # replicate p (chr CHR ''0'')"
  have "vsn_loop fp Out_buffer buffer count (directive_syntax [] Absent (Fixed p) (chr CHR ''f'')) [lo, hi] (0, s)
      = Some (emits Out_buffer buffer count ?t (0, s))"
    by (rule exact_steps.nines_directive [OF assms(3-7,9-11,8)])
  from snprintf_text [OF this _ _ assms(1,2)] assms(10) show ?thesis by auto
qed

theorem fixed_nines_overflow_witness:
  "\<exists>s'. snprintf double_fpu 100 40 (directive_syntax [] Absent (Fixed 2) (chr CHR ''f'')) [0x3D70A3D7, 0x3FEFD70A]
        (initial_machine (\<lambda>_. 0) []) = Some (32, s')
    \<and> cstr (ram s') 100 (bytes ''00000000000000000000000000000100'')"
proof -
  let ?x = "0x1FD70A3D70A3D7 / 9007199254740992 :: rat"
  have fl: "\<lfloor>?x\<rfloor> = 0" by (simp add: floor_eq_iff)
  have x: "round53 ?x = ?x" using round53_dyadic [of "0x1FD70A3D70A3D7" 53] by simp
  have rep: "round53 (?x - of_int \<lfloor>?x\<rfloor>) = ?x - of_int \<lfloor>?x\<rfloor>" "round53 (1 / 2) = 1 / 2" "round53 100 = 100"
    using round53_dyadic [of "0x1FD70A3D70A3D7" 53] round53_dyadic [of 1 1] round53_dyadic [of 100 0] by (simp_all add: fl)
  have "fp_mul double_fpu (fp_sub double_fpu (Some ?x) (fp_of_int double_fpu (fp_to_int double_fpu (Some ?x))))
      (fp_dec double_fpu 1 (int 2)) = Some (10 ^ 2 - 1 / 2)"
    using product_99_5 by (simp add: double_fpu_def round_finite_def truncate_to_def fl x rep(3))
  moreover have zeros: "bytes ''00000000000000000000000000000100'' = replicate 29 48 @ 49 # replicate 2 48" by code_simp
  ultimately show ?thesis
    unfolding zeros using fixed_nines_overflow [OF _ _ double.exact_steps_axioms bits_0_995,
        where buffer = 100 and count = 40 and p = 2 and s = "initial_machine (\<lambda>_. 0) []"] rep
    by (simp add: bits_0_995 fl)
qed

end
