(* ===== verification/Device_Spec.thy ===== *)
theory Device_Spec
  imports Kernel_Main
begin

text \<open>
  The devices as their user describes them, without the machine: the character put back, the
  keyboard, the values still to be read, and the log of the ports.  \<open>kbd_getch\<close>, \<open>dev_out\<close> and
  \<open>port_reads\<close> say what a call does to the devices; the code of \<open>getch\<close>, \<open>IO_OUT\<close> and
  \<open>IO_IN\<close> does exactly this, and leaves the rest of the machine alone.
\<close>

subsection \<open>The devices\<close>

text \<open>\<open>dv_press\<close> holds the keys whose last event was their release.\<close>

record device =
  dv_saved :: u8
  dv_shift :: bool
  dv_press :: "u32 \<Rightarrow> bool"
  dv_in :: "u32 list"
  dv_log :: "io_event list"

definition device_of :: "machine \<Rightarrow> device" where
  "device_of s = \<lparr>dv_saved = last_saved_ch s, dv_shift = kb_shift s, dv_press = is_press s, dv_in = io_in s,
     dv_log = io_log s\<rparr>"

definition with_device :: "device \<Rightarrow> machine \<Rightarrow> machine" where
  "with_device d s = s\<lparr>last_saved_ch := dv_saved d, kb_shift := dv_shift d, is_press := dv_press d,
     io_log := dv_log d, io_in := dv_in d\<rparr>"

lemma device_of_with [simp]: "device_of (with_device d s) = d"
  by (simp add: device_of_def with_device_def)

lemma with_device_of [simp]: "with_device (device_of s) s = s"
  by (simp add: device_of_def with_device_def)

lemma with_device_twice [simp]: "with_device d (with_device e s) = with_device d s"
  by (simp add: with_device_def)

lemma device_of_sel [simp]:
  "dv_saved (device_of s) = last_saved_ch s" "dv_shift (device_of s) = kb_shift s"
  "dv_press (device_of s) = is_press s" "dv_in (device_of s) = io_in s" "dv_log (device_of s) = io_log s"
  by (simp_all add: device_of_def)

definition dev_note :: "io_event list \<Rightarrow> device \<Rightarrow> device" where
  "dev_note es d = d\<lparr>dv_log := dv_log d @ es\<rparr>"

lemma log_io_device: "log_io es s = with_device (dev_note es (device_of s)) s"
  by (simp add: log_io_def dev_note_def with_device_def device_of_def)

subsection \<open>Keys\<close>

text \<open>The keyboard by its rows; the other keys of the table have no code that a caller could use.\<close>

definition key_row :: "nat \<Rightarrow> string \<Rightarrow> (nat \<times> u32) list" where
  "key_row i cs = zip [i..<i + length cs] (map ucast (bytes cs))"

definition kbd_layout :: "nat \<Rightarrow> u32 option" where
  "kbd_layout = map_of ([(0, 0), (1, 27)] @ key_row 2 ''1234567890-='' @ [(14, 8), (15, 9)]
     @ key_row 16 ''QWERTYUIOP[]'' @ [(28, 10)] @ key_row 30 ''ASDFGHJKL;'' @ [(40, 39), (41, 96), (43, 92)]
     @ key_row 44 ''ZXCVBNM,./'' @ [(57, 32), (58, 0x3A), (84, 0), (85, 0), (86, 0)])"

text \<open>A key that goes up after it was down gives its character; caps lock turns lower case on and off.\<close>

definition kbd_stroke :: "u32 \<Rightarrow> bool \<Rightarrow> device \<Rightarrow> u32 option \<times> device" where
  "kbd_stroke k up d =
     (if \<not> up then (None, d\<lparr>dv_press := (dv_press d)(k := False)\<rparr>)
      else if dv_press d k then (None, d)
      else let d1 = d\<lparr>dv_press := (dv_press d)(k := True)\<rparr>
        in if k = 0x3A then (None, d1\<lparr>dv_shift := \<not> dv_shift d\<rparr>)
           else (Some (if k \<in> {10, 13} then 10 else if dv_shift d \<and> 65 \<le> k \<and> k \<le> 90 then k + 32 else k), d1))"

text \<open>The next byte that is not zero, after the delay of 4096 writes.\<close>

definition kbd_read :: "device \<Rightarrow> (u8 \<times> device) option" where
  "kbd_read d =
     (let zero = (\<lambda>v. (ucast v :: u8) = 0)
      in case dropWhile zero (dv_in d) of [] \<Rightarrow> None
         | v # vs \<Rightarrow> Some (ucast v, dev_note (replicate 4096 (Outb 0 0x80)
             @ replicate (Suc (length (takeWhile zero (dv_in d)))) (Inb 0x60)) (d\<lparr>dv_in := vs\<rparr>)))"

lemma kbd_read_shorter: "kbd_read d = Some (b, d1) \<Longrightarrow> length (dv_in d1) < length (dv_in d)"
  using length_dropWhile_le [of "\<lambda>v. (ucast v :: u8) = 0" "dv_in d"]
  by (auto simp: kbd_read_def dev_note_def Let_def split: list.splits)

lemma kbd_stroke_in: "kbd_stroke k up d = (r, d2) \<Longrightarrow> dv_in d2 = dv_in d"
  by (auto simp: kbd_stroke_def Let_def split: if_splits)

function kbd_wait :: "device \<Rightarrow> (u32 \<times> device) option" where
  "kbd_wait d =
     (case kbd_read d of None \<Rightarrow> None
      | Some (b, d1) \<Rightarrow>
        if b = 0xE0
        then (case kbd_read d1 of None \<Rightarrow> None
              | Some (b2, d2) \<Rightarrow> if b2 = 0x53 then Some (KEY_DC, d2) else if b2 = 0x52 then Some (KEY_IC, d2) else kbd_wait d2)
        else if 0xE0 < b then kbd_wait d1
        else (case kbd_layout (unat b mod 128 mod 89) of None \<Rightarrow> None
              | Some k \<Rightarrow> (case kbd_stroke k (128 \<le> unat b) d1 of
                  (Some c, d2) \<Rightarrow> Some (c, d2) | (None, d2) \<Rightarrow> kbd_wait d2)))"
  by pat_completeness auto

termination
  by (relation "measure (\<lambda>d. length (dv_in d))") (auto dest!: kbd_read_shorter kbd_stroke_in [OF sym])

declare kbd_wait.simps [simp del]

text \<open>A call moves the cursor of the screen by four writes, which all reach the serial port; a
  character put back comes first.\<close>

definition kbd_getch :: "device \<Rightarrow> (u32 \<times> device) option" where
  "kbd_getch d =
     (let d1 = dev_note (replicate 4 (Outb 0x3F8 10)) d
      in if dv_saved d \<noteq> 0 then Some (scast (dv_saved d), d1\<lparr>dv_saved := 0\<rparr>) else kbd_wait d1)"

subsection \<open>Ports\<close>

definition dev_out :: "u16 \<Rightarrow> u32 \<Rightarrow> u8 \<Rightarrow> device \<Rightarrow> device" where
  "dev_out port v width d =
     dev_note (if width = 67 then [Outb port (ucast v)] else if width = 72 then [Outw port (ucast v)]
       else if width = 83 then [Outl port v] else []) d"

text \<open>For want of \<open>break\<close> an input of a byte is followed by one of a word and one of a double word.\<close>

definition port_reads :: "u16 \<Rightarrow> u8 \<Rightarrow> io_event list" where
  "port_reads port width =
     (if width = 67 then [Inb port, Inw port, Inl port] else if width = 72 then [Inw port, Inl port]
      else if width = 83 then [Inl port] else [])"

definition dev_in :: "io_event list \<Rightarrow> device \<Rightarrow> (u32 \<times> device) option" where
  "dev_in es d =
     (if length es \<le> length (dv_in d)
      then Some (last (0 # take (length es) (dv_in d)), dev_note es (d\<lparr>dv_in := drop (length es) (dv_in d)\<rparr>))
      else None)"

definition le_bytes :: "u32 \<Rightarrow> u8 list" where
  "le_bytes v = [ucast v, ucast (drop_bit 8 v), ucast (drop_bit 16 v), ucast (drop_bit 24 v)]"

subsection \<open>The code\<close>

lemma kbd_layout_table:
  assumes "i < 89"
  shows "kbd_layout i = (if char_to_int (ps2_set1 ! i) < 256 then Some (char_to_int (ps2_set1 ! i)) else None)"
proof -
  have "list_all2 (\<lambda>i k. kbd_layout i = (if k < 256 then Some k else None)) [0..<89] (map char_to_int ps2_set1)"
    unfolding scan_table kbd_layout_def key_row_def by (simp add: upt_rec)
  with assms show ?thesis by (auto dest!: list_all2_nthD [where p = i])
qed

lemma byte_parts:
  "(ucast (b :: u8) AND NOT 0x80 :: u32) = of_nat (unat b mod 128)" "(ucast b :: u32) AND 0x80 \<noteq> 0 \<longleftrightarrow> 128 \<le> unat b"
proof -
  have "bit (2 ^ k :: u32) n \<longleftrightarrow> n = k" if "k < 32" for k n using that by (auto simp: bit_exp_iff)
  from this [of 7] have bit80: "bit (0x80 :: u32) n \<longleftrightarrow> n = 7" for n by simp
  have lt: "unat b < 256" using unsigned_less [of b, where ?'a = nat] by simp
  have low: "(ucast b AND NOT c :: u32) = take_bit 7 (ucast b)" "(ucast b :: u32) AND c \<noteq> 0 \<longleftrightarrow> bit (ucast b :: u32) 7"
    if "\<And>n. bit c n \<longleftrightarrow> n = 7" for c
  proof -
    show "(ucast b AND NOT c :: u32) = take_bit 7 (ucast b)"
      by (rule bit_word_eqI) (auto simp: bit_simps that dest: bit_imp_le_length)
    show "(ucast b :: u32) AND c \<noteq> 0 \<longleftrightarrow> bit (ucast b :: u32) 7"
      unfolding bit_eq_iff [of "(ucast b :: u32) AND c"] by (auto simp: bit_simps that)
  qed
  have "(take_bit 7 (ucast b) :: u32) = of_nat (unat b mod 128)"
    by (simp add: take_bit_eq_mod word_unat_eq_iff unat_mod unat_byte unat_of_nat)
  with low(1) [OF bit80] show "(ucast (b :: u8) AND NOT 0x80 :: u32) = of_nat (unat b mod 128)" by (rule trans)
  have "bit (ucast b :: u32) 7 \<longleftrightarrow> bit (unat b) 7" by (simp add: bit_simps)
  also have "\<dots> \<longleftrightarrow> 128 \<le> unat b"
  proof -
    have "unat b div 128 = (if 128 \<le> unat b then 1 else 0)" using lt by auto
    then show ?thesis by (simp add: bit_iff_odd)
  qed
  finally show "(ucast b :: u32) AND 0x80 \<noteq> 0 \<longleftrightarrow> 128 \<le> unat b" using low(2) [OF bit80] by simp
qed

lemma ps2_poll_devices:
  "ps2_poll s = (case dropWhile (\<lambda>v. (ucast v :: u8) = 0) (io_in s) of [] \<Rightarrow> None
     | v # vs \<Rightarrow> Some (ucast v, s\<lparr>io_in := vs,
         io_log := io_log s @ replicate (Suc (length (takeWhile (\<lambda>v. (ucast v :: u8) = 0) (io_in s)))) (Inb 0x60)\<rparr>))"
proof (induction "io_in s" arbitrary: s)
  case Nil
  then show ?case by (simp add: ps2_poll.simps port_in_def)
next
  case (Cons v vs)
  let ?s = "s\<lparr>io_in := vs, io_log := io_log s @ [Inb 0x60]\<rparr>"
  have p: "ps2_poll s = (if (ucast v :: u8) \<noteq> 0 then Some (ucast v, ?s) else ps2_poll ?s)"
    using Cons.hyps(2) [symmetric] by (subst ps2_poll.simps) (simp add: port_in_def)
  show ?case
  proof (cases "(ucast v :: u8) = 0")
    case True
    with p Cons.hyps(1) [of ?s] Cons.hyps(2) [symmetric] show ?thesis
      by (cases "dropWhile (\<lambda>v. (ucast v :: u8) = 0) vs") (simp_all del: dropWhile_eq_Nil_conv)
  next
    case False
    with p Cons.hyps(2) [symmetric] show ?thesis by simp
  qed
qed

lemma get_ps2_input_devices:
  "get_ps2_input s = map_option (\<lambda>(b, d). (b, with_device d s)) (kbd_read (device_of s))"
  by (cases "dropWhile (\<lambda>v. (ucast v :: u8) = 0) (io_in s)")
    (simp_all add: get_ps2_input_def ps2_poll_devices kbd_read_def dev_note_def with_device_def Let_def
      del: dropWhile_eq_Nil_conv)

lemma with_device_keys:
  "with_device (device_of s\<lparr>dv_press := P\<rparr>) s = s\<lparr>is_press := P\<rparr>"
  "with_device (device_of s\<lparr>dv_press := P, dv_shift := h\<rparr>) s = s\<lparr>is_press := P, kb_shift := h\<rparr>"
  by (simp_all add: with_device_def device_of_def)

lemma key_event_devices:
  "key_event (ucast (b :: u8)) s = (case kbd_layout (unat b mod 128 mod 89) of None \<Rightarrow> None
     | Some k \<Rightarrow> (case kbd_stroke k (128 \<le> unat b) (device_of s) of (r, d) \<Rightarrow> Some (r, with_device d s)))"
proof -
  have "unat (of_nat (unat b mod 128) mod 89 :: u32) = unat b mod 128 mod 89"
    by (simp add: unat_mod unat_of_nat)
  then have k: "scan_key (ucast b) = char_to_int (ps2_set1 ! (unat b mod 128 mod 89))"
    by (simp only: scan_key_def byte_parts(1) length_ps2_set1 of_nat_numeral)
  have special: "char_to_int KEY_SHIFT_LEFT = 0xFFFFFFFD" "char_to_int KEY_SHIFT_RIGHT = 0xFFFFFFFE"
    "char_to_int KEY_CAPSLOCK = 0x3A"
    by (simp_all add: char_to_int_def KEY_SHIFT_LEFT_def KEY_SHIFT_RIGHT_def KEY_CAPSLOCK_def)
  let ?k = "scan_key (ucast b)"
  have lower: "tolower ?k = (if 65 \<le> ?k \<and> ?k \<le> 90 then ?k + 32 else ?k)"
    using tolower_upper [of ?k] tolower_other [of ?k] by simp
  have lay: "kbd_layout (unat b mod 128 mod 89) = (if ?k < 256 then Some ?k else None)"
    unfolding k by (rule kbd_layout_table) simp
  show ?thesis
  proof (cases "?k < 256")
    case True
    then have n: "?k \<noteq> 0xFFFFFFFD" "?k \<noteq> 0xFFFFFFFE" "\<not> 256 \<le> ?k" by auto
    have lay': "kbd_layout (unat b mod 128 mod 89) = Some ?k" using lay True by simp
    have up: "(is_press s)(?k := is_press s ?k) = is_press s" by simp
    show ?thesis unfolding lay' option.case key_event_def Let_def byte_parts(2) special lower kbd_stroke_def
      using n up by (cases "128 \<le> unat b"; cases "is_press s ?k"; cases "?k = 0x3A"; cases "?k \<in> {10, 13}"; cases "kb_shift s")
        (simp_all add: with_device_keys KEY_ENTER_def)
  next
    case False
    then have "256 \<le> ?k" by simp
    moreover have "kbd_layout (unat b mod 128 mod 89) = None" using lay False by simp
    ultimately show ?thesis by (simp add: key_event_def Let_def)
  qed
qed

lemma getch_loop_devices:
  "d = device_of s \<Longrightarrow> getch_loop s = map_option (\<lambda>(k, d). (k, with_device d s)) (kbd_wait d)"
proof (induction d arbitrary: s rule: kbd_wait.induct)
  case (1 d)
  show ?case
  proof (cases "kbd_read d")
    case None
    then show ?thesis using 1(4) by (subst getch_loop.simps; subst kbd_wait.simps) (simp add: get_ps2_input_devices)
  next
    case (Some p)
    then obtain b d1 where b: "kbd_read d = Some (b, d1)" by (cases p) auto
    let ?s1 = "with_device d1 s"
    have g: "get_ps2_input s = Some (b, ?s1)" using b 1(4) by (simp add: get_ps2_input_devices)
    have g1: "get_ps2_input ?s1 = map_option (\<lambda>(b, d). (b, with_device d s)) (kbd_read d1)"
      by (simp add: get_ps2_input_devices)
    have cmp: "0xE0 \<le> (ucast b :: u32) \<longleftrightarrow> 0xE0 \<le> b" "(ucast b :: u32) = 0xE0 \<longleftrightarrow> b = 0xE0"
      using unat_byte [of b] by (auto simp: word_le_nat_alt word_unat_eq_iff)
    consider (ext) "b = 0xE0" | (skip) "0xE0 < b" | (key) "b \<noteq> 0xE0" "\<not> 0xE0 < b" "\<not> 0xE0 \<le> b"
      by fastforce
    then show ?thesis
    proof cases
      case ext
      show ?thesis
      proof (cases "kbd_read d1")
        case None
        with ext g g1 b cmp show ?thesis by (subst getch_loop.simps; subst kbd_wait.simps) simp
      next
        case (Some p2)
        then obtain b2 d2 where b2: "kbd_read d1 = Some (b2, d2)" by (cases p2) auto
        have IH: "getch_loop (with_device d2 s) = map_option (\<lambda>(k, d). (k, with_device d (with_device d2 s))) (kbd_wait d2)"
          if "b2 \<noteq> 0x53" "b2 \<noteq> 0x52"
          by (rule 1(1) [OF b refl ext b2 refl that]) simp
        with ext g g1 b cmp b2 show ?thesis by (subst getch_loop.simps; subst kbd_wait.simps) auto
      qed
    next
      case skip
      then have "b \<noteq> 0xE0" "0xE0 \<le> b" by auto
      have "getch_loop ?s1 = map_option (\<lambda>(k, d). (k, with_device d ?s1)) (kbd_wait d1)"
        by (rule 1(2) [OF b refl \<open>b \<noteq> 0xE0\<close> skip]) simp
      with skip g b cmp \<open>b \<noteq> 0xE0\<close> \<open>0xE0 \<le> b\<close> show ?thesis
        by (subst getch_loop.simps; subst kbd_wait.simps) simp
    next
      case key
      have e: "getch_loop s = (case key_event (ucast b) ?s1 of None \<Rightarrow> None
          | Some (Some k, s2) \<Rightarrow> Some (k, s2) | Some (None, s2) \<Rightarrow> getch_loop s2)"
        using g cmp key(3) by (subst getch_loop.simps) simp
      show ?thesis
      proof (cases "kbd_layout (unat b mod 128 mod 89)")
        case None
        with e b key show ?thesis by (subst kbd_wait.simps) (simp add: key_event_devices)
      next
        case (Some k)
        obtain r d2 where r: "kbd_stroke k (128 \<le> unat b) d1 = (r, d2)" by fastforce
        have IH: "getch_loop (with_device d2 s) = map_option (\<lambda>(k, d). (k, with_device d (with_device d2 s))) (kbd_wait d2)"
          if "r = None"
          by (rule 1(3) [OF b refl key(1,2) Some r [symmetric] that]) simp
        with e b key Some r show ?thesis
          by (subst kbd_wait.simps) (cases r; simp add: key_event_devices)
      qed
    qed
  qed
qed

lemma getch_devices:
  "getch s = map_option (\<lambda>(k, d). (k, with_device d s)) (kbd_getch (device_of s))"
proof -
  let ?d = "dev_note (replicate 4 (Outb 0x3F8 10)) (device_of s)"
  have o: "outb p v s = with_device (dev_note [Outb 0x3F8 10] (device_of s)) s" for p v s
    by (simp add: outb_def log_io_device)
  have n: "dev_note es (dev_note fs d) = dev_note (fs @ es) d" for es fs d by (simp add: dev_note_def)
  let ?u = "with_device ?d s"
  have "getch s = (if last_saved_ch ?u \<noteq> 0 then Some (char_to_int (last_saved_ch ?u), ?u\<lparr>last_saved_ch := 0\<rparr>) else getch_loop ?u)"
    unfolding getch_def Let_def o with_device_twice device_of_with n by (simp add: numeral_eq_Suc)
  then show ?thesis
    using getch_loop_devices [OF refl, of ?u]
    by (simp add: kbd_getch_def Let_def char_to_int_def) (simp add: with_device_def dev_note_def)
qed

text \<open>The ports.\<close>

lemma IO_OUT_devices: "IO_OUT port v mode s = (0, with_device (dev_out port v (ram s mode) (device_of s)) s)"
  by (simp add: IO_OUT_def dev_out_def log_io_device) (simp add: dev_note_def with_device_def device_of_def)

lemma st32_wr: "st32 m p v = wr m p (le_bytes v)"
  by (simp add: st32_def le_bytes_def add.assoc)

lemma st32_twice: "st32 (st32 m p v) p w = st32 m p w"
  unfolding st32_wr using wr_nth [of _ _ _ p] by (intro ext) (simp add: le_bytes_def)

lemma port_in_devices:
  "port_in e s = map_option (\<lambda>(v, d). (v, with_device d s)) (dev_in [e] (device_of s))"
  by (cases "io_in s") (simp_all add: port_in_def dev_in_def dev_note_def with_device_def device_of_def)

lemma IO_IN_devices:
  fixes port mode p s
  defines "s0 \<equiv> s\<lparr>ram := st32 (ram s) p 0\<rparr>"
  shows "IO_IN port mode p s = map_option (\<lambda>(v, d). (0, with_device d (s\<lparr>ram := st32 (ram s) p v\<rparr>)))
    (dev_in (port_reads port (ram s0 mode)) (device_of s))"
proof -
  have h: "chr CHR ''C'' = (67 :: u8)" "chr CHR ''H'' = (72 :: u8)" "chr CHR ''S'' = (83 :: u8)" by simp_all
  obtain a b c where "io_in s = [] \<or> io_in s = [a] \<or> io_in s = [a, b] \<or> (\<exists>r. io_in s = a # b # c # r)"
    by (metis list.exhaust)
  then show ?thesis
    unfolding IO_IN_def s0_def [symmetric] h Let_def
    by (elim disjE exE; cases "ram s0 mode \<in> {67, 72, 83}")
      (auto simp: s0_def read_port_def port_in_def port_reads_def dev_in_def dev_note_def with_device_def device_of_def
        st32_twice)
qed

end
