(* ===== verification/Kernel_Frame.thy ===== *)
theory Kernel_Frame
  imports Libc_Stubs Printf_Format Device_Spec
begin

text \<open>
  What the components leave alone.  The machine has three parts: memory with the records of the
  heap, the cursor and attribute of the console, and the devices.  The heap changes the first part
  only, output adds its echo to the log of the devices, and reading keys changes nothing but the
  devices.
\<close>

subsection \<open>The parts of the machine\<close>

definition console_of :: "machine \<Rightarrow> u32 \<times> u32 \<times> u8" where
  "console_of s = (term_row s, term_col s, term_color s)"

lemmas parts = device_of_def console_of_def

subsection \<open>The heap\<close>

lemma mem_new_block_parts:
  "mem_new_block rg s = (nb, s') \<Longrightarrow> nb \<noteq> 0 \<Longrightarrow> s' = s"
  by (auto simp: mem_new_block_def split: option.splits)

lemma take_free_parts [simp]: "device_of (take_free i d s) = device_of s" "console_of (take_free i d s) = console_of s"
  by (simp_all add: take_free_def set_region_def parts)

lemma fix_block_parts [simp]: "device_of (fix_block b s) = device_of s" "console_of (fix_block b s) = console_of s"
  by (simp_all add: fix_block_def parts)

lemma ram_update_parts [simp]: "device_of (s\<lparr>ram := m\<rparr>) = device_of s" "console_of (s\<lparr>ram := m\<rparr>) = console_of s"
  by (simp_all add: parts)

lemma alloc_take_parts:
  assumes "alloc_take i n b ptr s = (p, s')" "p \<noteq> 0"
  shows "device_of s' = device_of s \<and> console_of s' = console_of s"
proof -
  obtain nb s1 where nb: "mem_new_block (region s i) s = (nb, s1)" by fastforce
  with assms have "nb \<noteq> 0" by (auto simp: alloc_take_def)
  with assms nb mem_new_block_parts [OF nb] show ?thesis by (auto simp: alloc_take_def Let_def)
qed

lemma alloc_walk_parts:
  assumes ret: "alloc_walk i n b ptr s = Some (r, s')" and "r \<noteq> Some 0"
  shows "device_of s' = device_of s \<and> console_of s' = console_of s"
proof -
  have "fst (r, s') \<noteq> Some 0 \<longrightarrow> device_of (snd (r, s')) = device_of s \<and> console_of (snd (r, s')) = console_of s"
    by (rule alloc_walk.raw_induct [where P = "\<lambda>i n b ptr s y. fst y \<noteq> Some 0 \<longrightarrow>
        device_of (snd y) = device_of s \<and> console_of (snd y) = console_of s", OF _ ret])
      (auto simp: Let_def split: if_splits prod.splits dest!: alloc_take_parts)
  with assms(2) show ?thesis by simp
qed

lemma alloc_regions_parts:
  "alloc_regions is n s = Some (p, s') \<Longrightarrow> p \<noteq> 0 \<Longrightarrow> device_of s' = device_of s \<and> console_of s' = console_of s"
proof (induction "is" arbitrary: s)
  case (Cons i "is")
  then show ?case
    by (auto simp: Let_def split: if_splits option.splits dest!: alloc_walk_parts)
qed simp

lemma malloc_parts:
  "malloc n s = Some (p, s') \<Longrightarrow> device_of s' = device_of s \<and> console_of s' = console_of s"
  using alloc_regions_parts [of "region_order s" n s p s']
  by (auto simp: malloc_def mem_alloc_def bind_eq_Some_conv split: if_splits)

lemma free_walk_parts:
  assumes ret: "free_walk ptr b prev bptr s = Some (r, s')"
  shows "device_of s' = device_of s \<and> console_of s' = console_of s"
proof -
  have "device_of (snd (r, s')) = device_of s \<and> console_of (snd (r, s')) = console_of s"
    by (rule free_walk.raw_induct [where P = "\<lambda>ptr b prev bptr s y.
        device_of (snd y) = device_of s \<and> console_of (snd y) = console_of s", OF _ ret])
      (auto simp: Let_def split: if_splits)
  then show ?thesis by simp
qed

lemma free_parts:
  "free p s = Some s' \<Longrightarrow> device_of s' = device_of s \<and> console_of s' = console_of s"
proof -
  have "free_regions is p s = Some s' \<Longrightarrow> device_of s' = device_of s \<and> console_of s' = console_of s" for "is"
    by (induction "is" arbitrary: s)
      (auto split: option.splits bool.splits dest!: free_walk_parts)
  then show "free p s = Some s' \<Longrightarrow> device_of s' = device_of s \<and> console_of s' = console_of s"
    by (simp add: free_def mem_free_def)
qed

subsection \<open>Output\<close>

lemma addch_device: "device_of (addch c s) = dev_note (serial_echo c) (device_of s)"
  by (simp add: device_of_def dev_note_def addch_log)

lemma print_device:
  assumes "s' = s\<lparr>ram := m, term_row := r, term_col := c, io_log := io_log s @ es\<rparr>"
  shows "device_of s' = dev_note es (device_of s)"
  using assms by (simp add: device_of_def dev_note_def)

subsection \<open>Devices\<close>

text \<open>Only the devices have changed.\<close>

definition kept :: "machine \<Rightarrow> machine \<Rightarrow> bool" where
  "kept s s' \<longleftrightarrow> ram s' = ram s \<and> heap_master s' = heap_master s \<and> console_of s' = console_of s"

lemma kept_with_device [simp]: "kept s (with_device d s)"
  by (simp add: kept_def with_device_def parts)

end
