(* ===== verification/Kernel_Os.thy ===== *)
theory Kernel_Os
  imports Kernel_Frame Allocator Numbers
begin

text \<open>
  The calls that the COBOL side makes into C, and an operating system as it would describe it: a
  heap of blocks, a terminal, the devices with the log of all port accesses, and memory of its own.  \<open>kernel_call\<close> is what the
  C code does with a call, \<open>os_call\<close> what the system does.
\<close>

subsection \<open>Calls\<close>

datatype call =
    Put u32 | Move u32 u32 | Clear | Clear_line | Clear_below | Attr u32
  | Print "item list"
  | Malloc u32 | Calloc u32 u32 | Free u32
  | Store u32 "u8 list" | Copy u32 u32 u32 | Fill u32 u32 u32 | Compare u32 u32 u32
  | Format u32 u32 "item list"
  | Length u32 "u8 list" | Concat u32 "u8 list" u32 "u8 list" | Same u32 "u8 list" u32 "u8 list"
  | Itoa u32 u64 nat | Atoi u32 nat nat
  | Getch | Ungetch u32
  | Port_out u16 u32 u32 | Port_in u16 u32 u32

text \<open>
  The string calls come with the address of each string and the string, as the items of a format
  do, and \<open>Atoi\<close> with the number that is there.  The result of a call that has none is 0.
\<close>

fun kernel_call :: "'d fpu \<Rightarrow> call \<Rightarrow> machine \<Rightarrow> (u32 \<times> machine) option" where
  "kernel_call fp (Put c) s = Some (0, addch c s)"
| "kernel_call fp (Move y x) s = Some (move y x s)"
| "kernel_call fp Clear s = Some (0, clear s)"
| "kernel_call fp Clear_line s = Some (0, clrtoeol s)"
| "kernel_call fp Clear_below s = Some (0, clrtobot s)"
| "kernel_call fp (Attr a) s = Some (attrset a s)"
| "kernel_call fp (Print items) s = printf fp (format_syntax items) (format_args items) s"
| "kernel_call fp (Malloc n) s = malloc n s"
| "kernel_call fp (Calloc n k) s = calloc n k s"
| "kernel_call fp (Free p) s = map_option (Pair 0) (free p s)"
| "kernel_call fp (Store p bs) s = Some (0, s\<lparr>ram := wr (ram s) p bs\<rparr>)"
| "kernel_call fp (Copy d p n) s = (case memcpy d p n (ram s) of (r, m) \<Rightarrow> Some (r, s\<lparr>ram := m\<rparr>))"
| "kernel_call fp (Fill d c n) s = (case memset d c n (ram s) of (r, m) \<Rightarrow> Some (r, s\<lparr>ram := m\<rparr>))"
| "kernel_call fp (Compare a b n) s = Some (memcmp a b n (ram s), s)"
| "kernel_call fp (Format b n items) s = snprintf fp b n (format_syntax items) (format_args items) s"
| "kernel_call fp (Length p t) s = map_option (\<lambda>r. (r, s)) (strlen (ram s) p)"
| "kernel_call fp (Concat d u p t) s = map_option (\<lambda>(r, m). (r, s\<lparr>ram := m\<rparr>)) (strcat d p (ram s))"
| "kernel_call fp (Same p t q u) s = map_option (\<lambda>r. (r, s)) (strcmp (ram s) p q)"
| "kernel_call fp (Itoa p v b) s = map_option (\<lambda>(r, m). (r, s\<lparr>ram := m\<rparr>)) (itoa p v (of_nat b) (ram s))"
| "kernel_call fp (Atoi p b n) s = map_option (\<lambda>r. (r, s)) (internal_atoi p (of_nat b) 0 (ram s))"
| "kernel_call fp Getch s = getch s"
| "kernel_call fp (Ungetch c) s = Some (0, ungetch c s)"
| "kernel_call fp (Port_out port v mode) s = Some (IO_OUT port v mode s)"
| "kernel_call fp (Port_in port mode d) s = IO_IN port mode d s"

text \<open>One call after the other, until one does not return.\<close>

fun kernel_run :: "'d fpu \<Rightarrow> call list \<Rightarrow> machine \<Rightarrow> (u32 list \<times> machine) option" where
  "kernel_run fp [] s = Some ([], s)"
| "kernel_run fp (c # cs) s = do {
     (r, s1) \<leftarrow> kernel_call fp c s;
     (rs, s2) \<leftarrow> kernel_run fp cs s1;
     Some (r # rs, s2) }"

subsection \<open>The system\<close>

record os =
  os_heap :: "ablock list"
  os_budget :: nat
  os_tty :: tty
  os_dev :: device
  os_mem :: mem

text \<open>The memory that the C side keeps for itself: the descriptor table and the screen.\<close>

definition kernel_area :: "u32 set" where
  "kernel_area = span 0x10000 98304 \<union> vga_window"

definition os_alloc :: "nat \<Rightarrow> os \<Rightarrow> (u32 \<times> os) option" where
  "os_alloc n k =
     (if n \<le> os_budget k \<and> length (a_fix (os_heap k)) < 8192
      then Some (of_nat (0x10000 + snd (hd (a_fix (os_heap k))) - n),
                 k\<lparr>os_heap := a_alloc n (os_heap k), os_budget := os_budget k - n\<rparr>)
      else None)"

definition os_draw :: "(tty \<Rightarrow> tty) \<Rightarrow> os \<Rightarrow> (u32 \<times> os) option" where
  "os_draw f k = Some (0, k\<lparr>os_tty := f (os_tty k)\<rparr>)"

definition os_note :: "io_event list \<Rightarrow> os \<Rightarrow> os" where
  "os_note es k = k\<lparr>os_dev := dev_note es (os_dev k)\<rparr>"

definition os_write :: "u32 \<Rightarrow> u8 list \<Rightarrow> os \<Rightarrow> os" where
  "os_write p bs k = k\<lparr>os_mem := wr (os_mem k) p bs\<rparr>"

fun os_call :: "call \<Rightarrow> os \<Rightarrow> (u32 \<times> os) option" where
  "os_call (Put c) k = Some (0, os_note (serial_echo c) (k\<lparr>os_tty := tty_put c (os_tty k)\<rparr>))"
| "os_call (Move y x) k =
     (if unat y < 25 \<and> unat x < 80 then os_draw (\<lambda>t. t\<lparr>crow := unat y, ccol := unat x\<rparr>) k else Some (ERR, k))"
| "os_call Clear k = os_draw (\<lambda>t. t\<lparr>cells := replicate 2000 (blank (cattr t))\<rparr>) k"
| "os_call Clear_line k = os_draw (\<lambda>t. t\<lparr>cells := take (80 * crow t + ccol t) (cells t)
     @ replicate (80 - ccol t) (blank (cattr t)) @ drop (80 * crow t + 80) (cells t)\<rparr>) k"
| "os_call Clear_below k = os_draw (\<lambda>t. t\<lparr>cells := take (80 * crow t + ccol t) (cells t)
     @ replicate (2000 - (80 * crow t + ccol t)) (blank (cattr t))\<rparr>) k"
| "os_call (Attr a) k = os_draw (\<lambda>t. t\<lparr>cattr := if a = 0 then 7 else ucast (a AND 0xFF)\<rparr>) k"
| "os_call (Print items) k =
     Some (of_nat (length (format_text items)),
       os_note (concat (map (serial_echo \<circ> char_to_int) (format_text items)))
         (k\<lparr>os_tty := fold char_put (format_text items) (os_tty k)\<rparr>))"
| "os_call (Malloc n) k = os_alloc (unat n) k"
| "os_call (Calloc n sz) k =
     map_option (\<lambda>(p, k1). (p, os_write p (replicate (unat (n * sz)) 0) k1)) (os_alloc (unat (n * sz)) k)"
| "os_call (Free p) k = Some (0, k\<lparr>os_heap := a_free 0x10000 (unat p) (os_heap k)\<rparr>)"
| "os_call (Store p bs) k = Some (0, os_write p bs k)"
| "os_call (Copy d p n) k = Some (d + n, os_write d (rd (os_mem k) p (unat n)) k)"
| "os_call (Fill d c n) k = Some (d + n, os_write d (replicate (unat n) (ucast c)) k)"
| "os_call (Compare a b n) k = Some (if rd (os_mem k) a (unat n) = rd (os_mem k) b (unat n) then 0 else - 1, k)"
| "os_call (Format b n items) k =
     Some (of_nat (length (format_text items)), os_write b (take (unat n - 1) (format_text items) @ [0]) k)"
| "os_call (Length p t) k = Some (of_nat (length t), k)"
| "os_call (Concat d u p t) k = Some (d + of_nat (length u + length t + 1), os_write d (u @ t @ [0]) k)"
| "os_call (Same p t q u) k = Some (if prefix t u \<or> prefix u t then 0 else - 1, k)"
| "os_call (Itoa p v b) k =
     (if unat v < b ^ 32 then Some (p, os_write p (number_text b (unat v) @ [0]) k) else None)"
| "os_call (Atoi p b n) k = Some (of_nat n, k)"
| "os_call Getch k = map_option (\<lambda>(c, d). (c, k\<lparr>os_dev := d\<rparr>)) (kbd_getch (os_dev k))"
| "os_call (Ungetch c) k = Some (0, k\<lparr>os_dev := (os_dev k)\<lparr>dv_saved := ucast c\<rparr>\<rparr>)"
| "os_call (Port_out port v mode) k = Some (0, k\<lparr>os_dev := dev_out port v (os_mem k mode) (os_dev k)\<rparr>)"
| "os_call (Port_in port mode p) k =
     map_option (\<lambda>(v, d). (0, (os_write p (le_bytes v) k)\<lparr>os_dev := d\<rparr>))
       (dev_in (port_reads port (wr (os_mem k) p (le_bytes 0) mode)) (os_dev k))"

fun os_run :: "call list \<Rightarrow> os \<Rightarrow> (u32 list \<times> os) option" where
  "os_run [] k = Some ([], k)"
| "os_run (c # cs) k = do {
     (r, k1) \<leftarrow> os_call c k;
     (rs, k2) \<leftarrow> os_run cs k1;
     Some (r # rs, k2) }"

text \<open>What a caller has to respect: it writes its own memory only, and erases only what is there.\<close>

definition string_in :: "os \<Rightarrow> u32 \<Rightarrow> u8 list \<Rightarrow> bool" where
  "string_in k p t \<longleftrightarrow> cstr (os_mem k) p t \<and> span p (Suc (length t)) \<inter> kernel_area = {}"

fun call_ok :: "call \<Rightarrow> os \<Rightarrow> bool" where
  "call_ok (Put c) k \<longleftrightarrow> c = 8 \<longrightarrow> ccol (os_tty k) \<noteq> 0"
| "call_ok (Print items) k \<longleftrightarrow> (\<forall>it \<in> set items. item_ok (os_mem k) (- kernel_area) it) \<and> 8 \<notin> set (format_text items)"
| "call_ok (Calloc n sz) k \<longleftrightarrow> (case os_alloc (unat (n * sz)) k of None \<Rightarrow> True
     | Some (p, k1) \<Rightarrow> span p (unat (n * sz)) \<inter> kernel_area = {})"
| "call_ok (Store p bs) k \<longleftrightarrow> span p (length bs) \<inter> kernel_area = {}"
| "call_ok (Copy d p n) k \<longleftrightarrow> span d (unat n) \<inter> kernel_area = {} \<and> span p (unat n) \<inter> kernel_area = {}
     \<and> span d (unat n) \<inter> span p (unat n) = {}"
| "call_ok (Fill d c n) k \<longleftrightarrow> span d (unat n) \<inter> kernel_area = {}"
| "call_ok (Compare a b n) k \<longleftrightarrow> span a (unat n) \<inter> kernel_area = {} \<and> span b (unat n) \<inter> kernel_area = {}"
| "call_ok (Format b n items) k \<longleftrightarrow> b \<noteq> 0 \<and> 0 < n \<and> span b (unat n) \<inter> kernel_area = {}
     \<and> (\<forall>it \<in> set items. item_ok (os_mem k) (- (kernel_area \<union> span b (unat n))) it) \<and> length (format_text items) < 2 ^ 32"
| "call_ok (Length p t) k \<longleftrightarrow> string_in k p t"
| "call_ok (Concat d u p t) k \<longleftrightarrow> string_in k d u \<and> string_in k p t \<and> span d (length u + length t + 1) \<inter> kernel_area = {}
     \<and> span d (length u + length t + 1) \<inter> span p (length t + 1) = {}"
| "call_ok (Same p t q u) k \<longleftrightarrow> string_in k p t \<and> string_in k q u"
| "call_ok (Itoa p v b) k \<longleftrightarrow> 2 \<le> b \<and> b \<le> 36 \<and> span p (Suc (length (number_text b (unat v)))) \<inter> kernel_area = {}"
| "call_ok (Atoi p b n) k \<longleftrightarrow> 2 \<le> b \<and> b \<le> 36 \<and> string_in k p (number_text b n)"
| "call_ok (Port_out port v mode) k \<longleftrightarrow> mode \<notin> kernel_area"
| "call_ok (Port_in port mode d) k \<longleftrightarrow> mode \<notin> kernel_area \<and> span d 4 \<inter> kernel_area = {}"
| "call_ok c k \<longleftrightarrow> True"

fun run_ok :: "call list \<Rightarrow> os \<Rightarrow> bool" where
  "run_ok [] k \<longleftrightarrow> True"
| "run_ok (c # cs) k \<longleftrightarrow> call_ok c k \<and> (case os_call c k of None \<Rightarrow> True | Some (r, k1) \<Rightarrow> run_ok cs k1)"

subsection \<open>The machine implements a state of the system\<close>

definition os_rel :: "machine \<Rightarrow> os \<Rightarrow> bool" where
  "os_rel s k \<longleftrightarrow> heap_state s (os_heap k) \<and> heap_base s = 0x10000 \<and> heap_table s = 8192
     \<and> heap_free s = os_budget k \<and> table (region s 0) \<subseteq> span 0x10000 98304
     \<and> view s = os_tty k \<and> device_of s = os_dev k \<and> same_outside kernel_area (os_mem k) (ram s)"

text \<open>The system after booting: one free block, the greeting, and the memory the loader left.\<close>

definition booted :: "mem \<Rightarrow> u32 list \<Rightarrow> os" where
  "booted m input = \<lparr>os_heap = [(False, 8290304)], os_budget = 8290304,
     os_tty = fold char_put (bytes ''Hello from C\<newline>'')
       \<lparr>cells = replicate 2000 (blank 7), crow = 0, ccol = 0, cattr = 7\<rparr>,
     os_dev = \<lparr>dv_saved = 0, dv_shift = False, dv_press = (\<lambda>_. False), dv_in = input,
       dv_log = cursor_log @ concat (map (serial_echo \<circ> char_to_int) (bytes ''Hello from C\<newline>''))\<rparr>,
     os_mem = m\<rparr>"

end
