(* ===== verification/Kernel_Calls.thy ===== *)
theory Kernel_Calls
  imports Kernel_Os
begin

text \<open>
  Every call of \<open>Kernel_Os\<close> for itself: on related states the C code and the system agree on the
  result, and the states they reach are related again.
\<close>

subsection \<open>Changes that keep the relation\<close>

lemma os_relD:
  assumes "os_rel s k"
  shows "heap_state s (os_heap k)" "heap_base s = 0x10000" "heap_table s = 8192" "heap_free s = os_budget k"
    "table (region s 0) \<subseteq> kernel_area" "view s = os_tty k" "device_of s = os_dev k" "term_ok s"
    "same_outside kernel_area (os_mem k) (ram s)"
  using assms by (auto simp: os_rel_def kernel_area_def heap_state_def)

lemma area_parts: "vga_window \<subseteq> kernel_area" "table (region s 0) \<subseteq> span 0x10000 98304 \<Longrightarrow> table (region s 0) \<subseteq> kernel_area"
  by (auto simp: kernel_area_def)

text \<open>Output.\<close>

lemma os_rel_drawn:
  assumes k: "os_rel s k" and t: "term_ok s'" "heap_master s' = heap_master s" "device_of s' = dev_note es (device_of s)"
    "same_outside vga_window (ram s) (ram s')" "view s' = t"
  shows "os_rel s' (os_note es (k\<lparr>os_tty := t\<rparr>))"
proof -
  have r: "region s' 0 = region s 0" using t(2) by (simp add: region_def)
  have "heap_state s' (os_heap k)" using os_relD(1) [OF k] t(2,1,4) by (rule heap_state_frame)
  moreover have "same_outside kernel_area (os_mem k) (ram s')"
    using os_relD(9) [OF k] same_outside_mono [OF t(4) area_parts(1)] by (rule same_outside_trans)
  ultimately show ?thesis using k r t(3,5) by (simp add: os_rel_def os_note_def)
qed

lemma dev_note_Nil [simp]: "dev_note [] d = d"
  by (simp add: dev_note_def)

lemma os_rel_silent:
  assumes "os_rel s k" "term_ok s'" "heap_master s' = heap_master s" "device_of s' = device_of s"
    "same_outside vga_window (ram s) (ram s')" "view s' = t"
  shows "os_rel s' (k\<lparr>os_tty := t\<rparr>)"
  using os_rel_drawn [OF assms(1-3) _ assms(5,6), of "[]"] assms(4) by (simp add: os_note_def)

text \<open>The heap.\<close>

lemma screen_table:
  assumes "os_rel s k" "same_outside (table (region s 0)) (ram s) (ram s')"
  shows "screen (ram s') = screen (ram s)"
proof (rule screen_frame)
  fix q assume "q \<in> vga_window"
  moreover have "table (region s 0) \<inter> vga_window = {}"
    using os_relD(1) [OF assms(1)] by (auto simp: heap_state_def table_def)
  ultimately show "ram s' q = ram s q" using assms(2) by (auto simp: same_outside_def)
qed

lemma os_rel_heap:
  assumes k: "os_rel s k" and h: "heap_state s' bs" "region s' 0 = (region s 0)\<lparr>rg_free_size := f\<rparr>"
    "same_outside (table (region s 0)) (ram s) (ram s')" "device_of s' = device_of s" "console_of s' = console_of s"
  shows "os_rel s' (k\<lparr>os_heap := bs, os_budget := unat f\<rparr>)"
proof -
  have "view s' = view s" using h(5) screen_table [OF k h(3)] by (simp add: view_def console_of_def)
  moreover have "same_outside kernel_area (os_mem k) (ram s')"
    using os_relD(9) [OF k] same_outside_mono [OF h(3) os_relD(5) [OF k]] by (rule same_outside_trans)
  ultimately show ?thesis using k h(1,2,4) by (simp add: os_rel_def)
qed

text \<open>The caller's memory.\<close>

lemma os_rel_memory:
  assumes k: "os_rel s k" and w: "same_outside A (ram s) m" "A \<inter> kernel_area = {}"
    and m: "\<And>q. q \<in> A \<Longrightarrow> m q = m' q" "same_outside A (os_mem k) m'"
  shows "os_rel (s\<lparr>ram := m\<rparr>) (k\<lparr>os_mem := m'\<rparr>)"
proof -
  have "heap_state (s\<lparr>ram := m\<rparr>) (os_heap k)"
    using os_relD(1,5) [OF k] w by (intro heap_state_write) auto
  moreover have "screen m = screen (ram s)"
    using w area_parts(1) by (intro screen_frame) (auto simp: same_outside_def)
  then have "view (s\<lparr>ram := m\<rparr>) = view s" by (simp add: view_def)
  moreover have "same_outside kernel_area m' m"
    using os_relD(9) [OF k] w m unfolding same_outside_def by (metis disjoint_iff)
  moreover have "region (s\<lparr>ram := m\<rparr>) 0 = region s 0" by (simp add: region_def)
  ultimately show ?thesis using k by (simp add: os_rel_def)
qed

lemma apart_from_area:
  assumes "span p n \<inter> kernel_area = {}" shows "n < 2 ^ 32"
proof (rule ccontr)
  assume "\<not> n < 2 ^ 32"
  then have "unat (vga_base - p) < n" using less_le_trans [OF unat_u32_less [of "vga_base - p"], of n] by simp
  then have "p + of_nat (unat (vga_base - p)) \<in> span p n" by (rule in_spanI)
  moreover have "vga_base \<in> kernel_area" using in_spanI [of 0 4000 vga_base] by (simp add: kernel_area_def)
  ultimately show False using assms by auto
qed

lemma os_rel_write:
  assumes "os_rel s k" "span p (length bs) \<inter> kernel_area = {}"
  shows "os_rel (s\<lparr>ram := wr (ram s) p bs\<rparr>) (os_write p bs k)"
  unfolding os_write_def
proof (rule os_rel_memory [OF assms(1) _ assms(2)])
  show "wr (ram s) p bs q = wr (os_mem k) p bs q" if "q \<in> span p (length bs)" for q
    using that apart_from_area [OF assms(2)] by (auto simp: span_def wr_nth)
qed (rule same_outside_wr, simp_all)+

text \<open>The devices.\<close>

lemma os_rel_kept:
  assumes k: "os_rel s k" and "kept s s'"
  shows "os_rel s' (k\<lparr>os_dev := device_of s'\<rparr>)"
proof -
  have r: "ram s' = ram s" "heap_master s' = heap_master s" "term_row s' = term_row s" "term_col s' = term_col s"
    "term_color s' = term_color s" using assms(2) by (simp_all add: kept_def console_of_def)
  have "term_ok s'" using os_relD(8) [OF k] r(3,4) by (simp add: term_ok_def)
  moreover have "same_outside vga_window (ram s) (ram s')" unfolding r(1) by (rule same_outside_refl)
  ultimately have "heap_state s' (os_heap k)" by (rule heap_state_frame [OF os_relD(1) [OF k] r(2)])
  moreover have "view s' = view s" unfolding view_def r ..
  moreover have "region s' 0 = region s 0" unfolding region_def r ..
  moreover have "same_outside kernel_area (os_mem k) (ram s')" unfolding r(1) by (rule os_relD(9) [OF k])
  ultimately show ?thesis using k by (simp add: os_rel_def)
qed

subsection \<open>Every call\<close>

abbreviation agree :: "(u32 \<times> machine) option \<Rightarrow> (u32 \<times> os) option \<Rightarrow> bool" where
  "agree \<equiv> rel_option (rel_prod (=) os_rel)"

lemma below_signed:
  assumes "n \<le> 1000" shows "\<not> v <s 0 \<and> \<not> of_nat n <=s v \<longleftrightarrow> unat (v :: u32) < n"
proof
  assume "\<not> v <s 0 \<and> \<not> of_nat n <=s v"
  then have "v < of_nat n" using sbounds [of n v] assms by blast
  then show "unat v < n" using assms by (simp add: word_less_nat_alt unat_of_nat_u32)
next
  assume n: "unat v < n"
  then have "v < 2 ^ 31" "(of_nat n :: u32) < 2 ^ 31" using assms by (simp_all add: word_less_nat_alt unat_of_nat_u32)
  then have "sint v = int (unat v)" "sint (of_nat n :: u32) = int n"
    using assms by (subst sint_u32_small; simp add: unat_of_nat_u32)+
  with n show "\<not> v <s 0 \<and> \<not> of_nat n <=s v"
    unfolding word_sle_eq word_sless_alt by (simp only: of_nat_le_iff) simp
qed

lemma call_put: "os_rel s k \<Longrightarrow> call_ok (Put c) k \<Longrightarrow> agree (kernel_call fp (Put c) s) (os_call (Put c) k)"
proof -
  assume k: "os_rel s k" and c: "call_ok (Put c) k"
  have "c = 8 \<longrightarrow> term_col s \<noteq> 0" using c by (auto simp: os_relD(6) [OF k, symmetric] view_def)
  from addch_view [OF os_relD(8) [OF k] this] os_relD(6) [OF k]
  have "os_rel (addch c s) (os_note (serial_echo c) (k\<lparr>os_tty := tty_put c (os_tty k)\<rparr>))"
    by (intro os_rel_drawn [OF k]) (auto simp: same_outside_def addch_device)
  then show ?thesis by simp
qed

lemma call_move: "os_rel s k \<Longrightarrow> agree (kernel_call fp (Move y x) s) (os_call (Move y x) k)"
proof -
  assume k: "os_rel s k"
  have c: "x <s 0 \<or> y <s 0 \<or> 80 <=s x \<or> 25 <=s y \<longleftrightarrow> \<not> (unat y < 25 \<and> unat x < 80)"
    using below_signed [of 80 x] below_signed [of 25 y] by auto
  show ?thesis
  proof (cases "unat y < 25 \<and> unat x < 80")
    case True
    let ?s = "s\<lparr>term_col := x, term_row := y\<rparr>"
    have "os_rel ?s (k\<lparr>os_tty := (os_tty k)\<lparr>crow := unat y, ccol := unat x\<rparr>\<rparr>)"
      using True unfolding os_relD(6) [OF k, symmetric]
      by (intro os_rel_silent [OF k]) (auto simp: term_ok_def word_less_nat_alt device_of_def view_def)
    with True c show ?thesis by (simp add: move_def os_draw_def)
  next
    case False
    with c k show ?thesis by (auto simp: move_def)
  qed
qed

lemma call_clear:
  assumes k: "os_rel s k"
  shows "agree (kernel_call fp Clear s) (os_call Clear k)"
    "agree (kernel_call fp Clear_line s) (os_call Clear_line k)"
    "agree (kernel_call fp Clear_below s) (os_call Clear_below k)"
proof -
  note t = os_relD(8) [OF k] and v = os_relD(6) [OF k, symmetric]
  have ok: "term_ok (clear s)" "term_ok (clrtoeol s)" "term_ok (clrtobot s)"
    using t by (auto simp: clear_def clrtoeol_def clrtobot_def term_ok_def Let_def)
  have d: "heap_master (clear s) = heap_master s" "heap_master (clrtoeol s) = heap_master s"
    "heap_master (clrtobot s) = heap_master s" "device_of (clear s) = device_of s"
    "device_of (clrtoeol s) = device_of s" "device_of (clrtobot s) = device_of s"
    by (simp_all add: clear_def clrtoeol_def clrtobot_def device_of_def Let_def)
  have a: "cattr (view s) = term_color s" by (simp add: view_def)
  have f: "same_outside vga_window (ram s) (ram (clear s))" "same_outside vga_window (ram s) (ram (clrtoeol s))"
    "same_outside vga_window (ram s) (ram (clrtobot s))"
    unfolding same_outside_def using clear_frame clrtoeol_frame [OF t] clrtobot_frame [OF t] by blast+
  show "agree (kernel_call fp Clear s) (os_call Clear k)"
    using os_rel_silent [OF k ok(1) d(1,4) f(1) clear_view] by (simp add: os_draw_def v a)
  show "agree (kernel_call fp Clear_line s) (os_call Clear_line k)"
    using os_rel_silent [OF k ok(2) d(2,5) f(2) clrtoeol_view [OF t]] by (simp add: os_draw_def v a Let_def)
  show "agree (kernel_call fp Clear_below s) (os_call Clear_below k)"
    using os_rel_silent [OF k ok(3) d(3,6) f(3) clrtobot_view [OF t]] by (simp add: os_draw_def v a Let_def)
qed

lemma call_attr: "os_rel s k \<Longrightarrow> agree (kernel_call fp (Attr a) s) (os_call (Attr a) k)"
proof -
  assume k: "os_rel s k"
  have "vga_entry_color 7 0 = 7" by (simp add: vga_entry_color_def)
  then have "os_rel (snd (attrset a s)) (k\<lparr>os_tty := (os_tty k)\<lparr>cattr := if a = 0 then 7 else ucast (a AND 0xFF)\<rparr>\<rparr>)"
    using os_relD(8) [OF k] unfolding os_relD(6) [OF k, symmetric]
    by (intro os_rel_silent [OF k]) (auto simp: attrset_def term_ok_def device_of_def view_def A_NORMAL_def)
  then show ?thesis by (simp add: os_draw_def attrset_def)
qed

text \<open>What callers have in their memory is there for the C code.\<close>

lemma string_in_ram:
  assumes "os_rel s k" "string_in k p t" shows "cstr (ram s) p t"
  using assms(2) os_relD(9) [OF assms(1)] unfolding string_in_def
  by (subst cstr_cong [of p t _ "os_mem k"]) (auto simp: same_outside_def)

lemma bytes_in_ram:
  assumes "os_rel s k" "span p n \<inter> kernel_area = {}" shows "rd (ram s) p n = rd (os_mem k) p n"
  using assms(2) os_relD(9) [OF assms(1)] by (intro rd_cong) (auto simp: same_outside_def)

lemma item_ok_ram:
  assumes k: "os_rel s k" and ok: "item_ok (os_mem k) (- (kernel_area \<union> A)) it"
  shows "item_ok (ram s) (- A) it"
proof (cases it)
  case (Text fl w pr q t)
  with ok have "string_in k q t" by (auto simp: string_in_def)
  from string_in_ram [OF k this] ok show ?thesis unfolding Text by auto
qed (use ok in simp_all)

lemma call_print:
  assumes k: "os_rel s k" and c: "call_ok (Print items) k"
  shows "agree (kernel_call fp (Print items) s) (os_call (Print items) k)"
proof -
  have "kernel_area \<union> vga_window = kernel_area" using area_parts(1) by blast
  then have "item_ok (ram s) (- vga_window) it" if "item_ok (os_mem k) (- kernel_area) it" for it
    using item_ok_ram [OF k, of vga_window it] that by simp
  with c have "\<forall>it \<in> set items. item_ok (ram s) (- vga_window) it" "8 \<notin> set (format_text items)" by auto
  from printf_items [OF os_relD(8) [OF k] this, of fp] obtain s' where
    s': "printf fp (format_syntax items) (format_args items) s = Some (of_nat (length (format_text items)), s')"
    "term_ok s'" "view s' = fold char_put (format_text items) (view s)"
    "io_log s' = io_log s @ concat (map (serial_echo \<circ> char_to_int) (format_text items))"
    "same_outside vga_window (ram s) (ram s')"
    "s' = s\<lparr>ram := ram s', term_row := term_row s', term_col := term_col s', io_log := io_log s'\<rparr>" by blast
  have h: "heap_master s' = heap_master s" using arg_cong [OF s'(6), of heap_master] by simp
  have "device_of s' = dev_note (concat (map (serial_echo \<circ> char_to_int) (format_text items))) (device_of s)"
    using s'(6) unfolding s'(4) by (rule print_device)
  from os_rel_drawn [OF k s'(2) h this s'(5,3)] s'(1) os_relD(6) [OF k] show ?thesis by simp
qed

lemma malloc_agrees:
  assumes k: "os_rel s k" shows "agree (malloc n s) (os_alloc (unat n) k)"
proof -
  note hs = os_relD(1) [OF k] and D = heap_state_D [OF os_relD(1) [OF k]]
  note eqs = os_relD(2-4) [OF k]
  consider (refused) "heap_free s < unat n" | (full) "unat n \<le> heap_free s" "length (a_fix (os_heap k)) = heap_table s"
    | (taken) "unat n \<le> heap_free s" "length (a_fix (os_heap k)) < heap_table s"
    using D(4) by linarith
  then show ?thesis
  proof cases
    case refused
    then show ?thesis using mem_alloc_refused [OF hs] eqs by (simp add: malloc_def os_alloc_def)
  next
    case full
    then show ?thesis using mem_alloc_no_descriptor [OF hs full] eqs by (auto simp: malloc_def os_alloc_def)
  next
    case taken
    from mem_alloc_taken [OF hs taken] obtain p s' where
      s': "mem_alloc n s = Some (p, s')" "heap_state s' (a_alloc (unat n) (os_heap k))"
      "unat p = heap_base s + snd (hd (a_fix (os_heap k))) - unat n"
      "same_outside (table (region s 0)) (ram s) (ram s')"
      "region s' 0 = (region s 0)\<lparr>rg_free_size := rg_free_size (region s 0) - n\<rparr>" by blast
    have "unat n \<le> snd (hd (a_fix (os_heap k)))"
      using taken(1) D(3) a_fix_head [OF D(1)] by linarith
    with s'(3) eqs have up: "unat p = 0x10000 + snd (hd (a_fix (os_heap k))) - unat n" "0 < unat p" by simp_all
    then have p: "p = of_nat (0x10000 + snd (hd (a_fix (os_heap k))) - unat n)" "p \<noteq> 0"
      by (simp_all flip: up(1)) auto
    then have m: "malloc n s = Some (p, s')" by (simp add: malloc_def s'(1))
    have "unat (rg_free_size (region s 0) - n) = os_budget k - unat n"
      using taken(1) eqs by (simp add: unat_sub word_le_nat_alt)
    with os_rel_heap [OF k s'(2,5,4)] malloc_parts [OF m] m p taken eqs
    show ?thesis by (simp add: os_alloc_def)
  qed
qed

lemma call_calloc:
  assumes k: "os_rel s k" and c: "call_ok (Calloc n sz) k"
  shows "agree (kernel_call fp (Calloc n sz) s) (os_call (Calloc n sz) k)"
proof (cases "malloc (n * sz) s")
  case None
  with malloc_agrees [OF k, of "n * sz"] show ?thesis by (simp add: calloc_def)
next
  case (Some r)
  with malloc_agrees [OF k, of "n * sz"] obtain p s1 k1 where
    r: "malloc (n * sz) s = Some (p, s1)" "os_alloc (unat (n * sz)) k = Some (p, k1)" "os_rel s1 k1"
    by (cases r) (auto simp: option_rel_Some1 rel_prod_sel)
  have "os_rel (s1\<lparr>ram := wr (ram s1) p (replicate (unat (n * sz)) 0)\<rparr>) (os_write p (replicate (unat (n * sz)) 0) k1)"
    using c r(2) by (intro os_rel_write [OF r(3)]) (simp_all only: call_ok.simps option.case prod.case length_replicate)
  with r show ?thesis by (simp add: calloc_def memset_eq)
qed

lemma call_free:
  assumes k: "os_rel s k" shows "agree (kernel_call fp (Free p) s) (os_call (Free p) k)"
proof -
  from mem_free_frees [OF os_relD(1) [OF k], of p] obtain s' where
    s': "mem_free p s = Some s'" "heap_state s' (a_free (heap_base s) (unat p) (os_heap k))"
    "region s' 0 = region s 0" "same_outside (table (region s 0)) (ram s) (ram s')" by blast
  have f: "free p s = Some s'" using s'(1) by (simp add: free_def)
  have "region s' 0 = (region s 0)\<lparr>rg_free_size := rg_free_size (region s 0)\<rparr>" using s'(3) by simp
  from os_rel_heap [OF k s'(2) this s'(4)] free_parts [OF f] os_relD(2,4) [OF k] f show ?thesis by simp
qed

lemma call_memory:
  assumes k: "os_rel s k"
  shows "call_ok (Copy d p n) k \<Longrightarrow> agree (kernel_call fp (Copy d p n) s) (os_call (Copy d p n) k)"
    "call_ok (Fill d c n) k \<Longrightarrow> agree (kernel_call fp (Fill d c n) s) (os_call (Fill d c n) k)"
    "call_ok (Store p bs) k \<Longrightarrow> agree (kernel_call fp (Store p bs) s) (os_call (Store p bs) k)"
proof -
  assume c: "call_ok (Copy d p n) k"
  then have "rd (ram s) p (unat n) = rd (os_mem k) p (unat n)" by (intro bytes_in_ram [OF k]) simp
  moreover have "os_rel (s\<lparr>ram := wr (ram s) d (rd (os_mem k) p (unat n))\<rparr>) (os_write d (rd (os_mem k) p (unat n)) k)"
    using c by (intro os_rel_write [OF k]) (simp_all only: call_ok.simps length_rd)
  ultimately show "agree (kernel_call fp (Copy d p n) s) (os_call (Copy d p n) k)"
    using c by (simp add: memcpy_apart)
next
  assume c: "call_ok (Fill d c n) k"
  have "os_rel (s\<lparr>ram := wr (ram s) d (replicate (unat n) (ucast c))\<rparr>) (os_write d (replicate (unat n) (ucast c)) k)"
    using c by (intro os_rel_write [OF k]) (simp_all only: call_ok.simps length_replicate)
  then show "agree (kernel_call fp (Fill d c n) s) (os_call (Fill d c n) k)" by (simp add: memset_eq)
next
  assume c: "call_ok (Store p bs) k"
  with os_rel_write [OF k] show "agree (kernel_call fp (Store p bs) s) (os_call (Store p bs) k)" by simp
qed

lemma call_getch:
  assumes k: "os_rel s k" shows "agree (kernel_call fp Getch s) (os_call Getch k)"
proof -
  have "os_rel (with_device d s) (k\<lparr>os_dev := d\<rparr>)" for d
    using os_rel_kept [OF k kept_with_device, of d] by simp
  then show ?thesis using os_relD(7) [OF k]
    by (cases "kbd_getch (os_dev k)") (auto simp: getch_devices)
qed

lemma os_rel_le_bytes:
  assumes "os_rel s k" "span p 4 \<inter> kernel_area = {}"
  shows "os_rel (s\<lparr>ram := st32 (ram s) p v\<rparr>) (os_write p (le_bytes v) k)"
  unfolding st32_wr using assms(2) by (intro os_rel_write [OF assms(1)]) (simp add: le_bytes_def eval_nat_numeral)

lemma call_ports:
  assumes k: "os_rel s k"
  shows "call_ok (Port_in port mode p) k \<Longrightarrow> agree (kernel_call fp (Port_in port mode p) s) (os_call (Port_in port mode p) k)"
    "call_ok (Port_out port v mode) k \<Longrightarrow> agree (kernel_call fp (Port_out port v mode) s) (os_call (Port_out port v mode) k)"
    "agree (kernel_call fp (Ungetch c) s) (os_call (Ungetch c) k)"
proof -
  assume c: "call_ok (Port_in port mode p) k"
  then have p: "span p 4 \<inter> kernel_area = {}" "mode \<notin> kernel_area" by simp_all
  note w = os_rel_le_bytes [OF k p(1)]
  have m: "st32 (ram s) p 0 mode = wr (os_mem k) p (le_bytes 0) mode"
    using os_relD(9) [OF w [of 0]] p(2) by (simp add: same_outside_def os_write_def)
  have "os_rel (with_device d (s\<lparr>ram := st32 (ram s) p v\<rparr>)) ((os_write p (le_bytes v) k)\<lparr>os_dev := d\<rparr>)" for v d
    using os_rel_kept [OF w [of v] kept_with_device, of d] by simp
  then show "agree (kernel_call fp (Port_in port mode p) s) (os_call (Port_in port mode p) k)"
    using m os_relD(7) [OF k]
    by (cases "dev_in (port_reads port (wr (os_mem k) p (le_bytes 0) mode)) (os_dev k)") (auto simp: IO_IN_devices)
next
  assume "call_ok (Port_out port v mode) k"
  then have "ram s mode = os_mem k mode" using os_relD(9) [OF k] by (simp add: same_outside_def)
  moreover have "os_rel (with_device d s) (k\<lparr>os_dev := d\<rparr>)" for d
    using os_rel_kept [OF k kept_with_device, of d] by simp
  ultimately show "agree (kernel_call fp (Port_out port v mode) s) (os_call (Port_out port v mode) k)"
    using os_relD(7) [OF k] by (simp add: IO_OUT_devices)
next
  have "kept s (ungetch c s)" by (simp add: ungetch_def kept_def parts)
  from os_rel_kept [OF k this] show "agree (kernel_call fp (Ungetch c) s) (os_call (Ungetch c) k)"
    by (simp add: os_relD(7) [OF k, symmetric] ungetch_def device_of_def)
qed

text \<open>Strings and numbers.\<close>

lemma string_call_writes:
  assumes "os_rel s k" "cstr m p t" "same_outside (span p (Suc (length t))) (ram s) m"
    and "span p (Suc (length t)) \<inter> kernel_area = {}"
  shows "os_rel (s\<lparr>ram := m\<rparr>) (os_write p (t @ [0]) k)"
proof -
  have "length t < 2 ^ 32" using apart_from_area [OF assms(4)] by simp
  from cstr_written [OF assms(2,3) this] os_rel_write [OF assms(1), of p "t @ [0]"] assms(4) show ?thesis by simp
qed

lemma call_format:
  assumes k: "os_rel s k" and c: "call_ok (Format b n items) k"
  shows "agree (kernel_call fp (Format b n items) s) (os_call (Format b n items) k)"
proof -
  let ?t = "take (unat n - 1) (format_text items) @ [0]"
  from c have n: "0 < unat n" by (auto simp: word_less_nat_alt)
  have "\<forall>it \<in> set items. item_ok (ram s) (- span b (unat n)) it" using c item_ok_ram [OF k] by auto
  with c have "snprintf fp b n (format_syntax items) (format_args items) s
      = Some (of_nat (length (format_text items)), s\<lparr>ram := wr (ram s) b ?t\<rparr>)"
    by (intro snprintf_items_result) simp_all
  moreover have "length ?t \<le> unat n" using n by simp
  then have "span b (length ?t) \<inter> kernel_area = {}" using c span_mono [of "length ?t" "unat n" b] by auto
  ultimately show ?thesis using os_rel_write [OF k] by simp
qed

lemma call_strings:
  assumes k: "os_rel s k"
  shows "call_ok (Compare a b n) k \<Longrightarrow> agree (kernel_call fp (Compare a b n) s) (os_call (Compare a b n) k)"
    "call_ok (Length p t) k \<Longrightarrow> agree (kernel_call fp (Length p t) s) (os_call (Length p t) k)"
    "call_ok (Same p t q u) k \<Longrightarrow> agree (kernel_call fp (Same p t q u) s) (os_call (Same p t q u) k)"
    "call_ok (Atoi p bs v) k \<Longrightarrow> agree (kernel_call fp (Atoi p bs v) s) (os_call (Atoi p bs v) k)"
  using k bytes_in_ram [OF k, of a "unat n"] bytes_in_ram [OF k, of b "unat n"] strlen_cstr [OF string_in_ram [OF k, of p t]]
    strcmp_cstr [OF string_in_ram [OF k, of p t] string_in_ram [OF k, of q u]]
    atoi_number_text [of bs _ p v, OF _ _ string_in_ram [OF k]]
  by (simp_all add: memcmp_eq)

lemma call_concat:
  assumes k: "os_rel s k" and c: "call_ok (Concat d u p t) k"
  shows "agree (kernel_call fp (Concat d u p t) s) (os_call (Concat d u p t) k)"
proof -
  have l: "length u + length t < 2 ^ 32" using c apart_from_area [of d "length u + length t + 1"] by simp
  from c have "cstr (ram s) d u" "cstr (ram s) p t" by (auto intro: string_in_ram [OF k])
  from strcat_cstr [OF this l] c obtain m where
    m: "strcat d p (ram s) = Some (d + of_nat (length u + length t + 1), m)" "cstr m d (u @ t)"
    "same_outside (span d (length u + length t + 1)) (ram s) m" by (auto simp: same_outside_def)
  have "os_rel (s\<lparr>ram := m\<rparr>) (os_write d ((u @ t) @ [0]) k)"
    using m(3) c by (intro string_call_writes [OF k m(2)]) simp_all
  with m(1) show ?thesis by simp
qed

lemma call_itoa:
  assumes k: "os_rel s k" and c: "call_ok (Itoa p v b) k"
  shows "agree (kernel_call fp (Itoa p v b) s) (os_call (Itoa p v b) k)"
proof (cases "unat v < b ^ 32")
  case True
  from itoa_text [OF _ _ True, of p "ram s"] c obtain m where
    m: "itoa p v (of_nat b) (ram s) = Some (p, m)" "cstr m p (number_text b (unat v))"
    "same_outside (span p (Suc (length (number_text b (unat v))))) (ram s) m"
    by (auto simp: same_outside_def simp del: length_number_text)
  from string_call_writes [OF k m(2,3)] c m(1) True show ?thesis by simp
next
  case False
  have "unat v < 2 ^ 64" using unsigned_less [of v, where ?'a = nat] by simp
  also have "(2 :: nat) ^ 64 \<le> b ^ 64" using c by (intro power_mono) simp_all
  finally have "itoa p v (of_nat b) (ram s) = None" using itoa_overflows [of b v p "ram s"] c False by simp
  with False show ?thesis by simp
qed

lemma call_agrees:
  assumes "os_rel s k" "call_ok c k" shows "agree (kernel_call fp c s) (os_call c k)"
  using assms malloc_agrees [OF assms(1)]
  by (cases c) (simp_all only: call_put call_move call_clear call_attr call_print call_calloc call_free
      call_memory call_getch call_ports call_format call_strings call_concat call_itoa kernel_call.simps(8) os_call.simps(8))

end
