(* ===== verification/Kernel_System.thy ===== *)
theory Kernel_System
  imports Kernel_Calls
begin

text \<open>
  The components together: the C code, booted, implements the operating system of \<open>Kernel_Os\<close>
  call by call, so that the heap, the console, the devices and the callers' memory do not
  interfere.
\<close>

subsection \<open>Runs\<close>

lemma run_agrees:
  "os_rel s k \<Longrightarrow> run_ok cs k \<Longrightarrow> rel_option (rel_prod (=) os_rel) (kernel_run fp cs s) (os_run cs k)"
proof (induction cs arbitrary: s k)
  case (Cons c cs)
  then have a: "agree (kernel_call fp c s) (os_call c k)" by (intro call_agrees) simp_all
  show ?case
  proof (cases "kernel_call fp c s")
    case None
    with a show ?thesis by simp
  next
    case (Some x)
    with a obtain r s1 k1 where x: "kernel_call fp c s = Some (r, s1)" "os_call c k = Some (r, k1)" "os_rel s1 k1"
      by (cases x) (auto simp: option_rel_Some1 rel_prod_sel)
    with Cons.prems have "run_ok cs k1" by simp
    from Cons.IH [OF x(3) this] x show ?thesis
      by (cases "kernel_run fp cs s1"; cases "os_run cs k1") auto
  qed
qed simp

lemma boot_os:
  obtains s where "boot fp (initial_machine m (a # b # input)) = Some s" "os_rel s (booted m input)"
proof -
  let ?s0 = "initial_machine m (a # b # input)"
  let ?s1 = "snd (mem_init_master ?s0)"
  let ?s2 = "snd (mem_new_region 0x10000 (65536 * 128) ?s1)"
  note k = kernel_region_state [OF initial_machine_ok, of m "a # b # input"]
  obtain s where s: "boot fp ?s0 = Some s" "io_in s = input" "heap_master s = heap_master ?s2" "term_ok s"
    "same_outside vga_window (ram ?s2) (ram s)" "last_saved_ch s = 0" "\<not> kb_shift s" "is_press s = (\<lambda>_. False)"
    "io_log s = cursor_log @ concat (map (serial_echo \<circ> char_to_int) (bytes ''Hello from C\<newline>''))"
    "view s = fold char_put (bytes ''Hello from C\<newline>'')
       \<lparr>cells = replicate 2000 (blank 7), crow = 0, ccol = 0, cattr = 7\<rparr>"
    by (rule boot_steps)
  have r: "region s 0 = region ?s2 0" using s(3) by (simp add: region_def)
  have h: "heap_state s [(False, 8290304)]" by (rule heap_state_frame [OF k(1) s(3-5)])
  have "same_outside (span 0x10000 98304) (ram ?s1) (ram ?s2)"
    using mem_new_region_frame [of "0x10000" "65536 * 128" ?s1] by (simp add: kernel_region)
  moreover have "span 0x10000 98304 \<subseteq> kernel_area" by (simp add: kernel_area_def)
  moreover have "ram ?s1 = m" by (simp add: mem_init_master_def)
  ultimately have "same_outside kernel_area m (ram ?s2)" using same_outside_mono by metis
  then have m: "same_outside kernel_area m (ram s)"
    using same_outside_mono [OF s(5) area_parts(1)] by (rule same_outside_trans)
  have t: "table (region s 0) \<subseteq> span 0x10000 98304" unfolding r by (rule k(5))
  have "os_rel s (booted m input)"
    unfolding os_rel_def booted_def using h k(2-4) r t s(2,6-10) m by (simp only: os.simps device_of_def)
  with s(1) show thesis by (rule that)
qed

subsection \<open>Well-formed machines\<close>

text \<open>Every descriptor carries one of the tags of its enumeration, the blocks in the list tile the
  heap of \<open>main\<close>, and the cursor is on the screen.\<close>

definition machine_wf :: "machine \<Rightarrow> bool" where
  "machine_wf s \<longleftrightarrow> unat (term_row s) < 25 \<and> unat (term_col s) < 80
     \<and> (\<forall>d \<in> slots (region s 0). blk_type (ram s) d \<in> {BLOCK_FREE, BLOCK_USED, BLOCK_NOT_PRESENT})
     \<and> (\<exists>bs. heap_state s bs \<and> total_size bs = 8290304)"

lemma heap_state_tags:
  assumes "heap_state s bs" "d \<in> slots (region s 0)"
  shows "blk_type (ram s) d \<in> {BLOCK_FREE, BLOCK_USED, BLOCK_NOT_PRESENT}"
proof -
  obtain ds es where ok: "heap_ok (ram s) (region s 0) ds es" using assms(1) by (auto simp: heap_state_def)
  then have "es = map (\<lambda>d. (blk_type (ram s) d, blk_size (ram s) d)) ds"
    by (simp add: heap_ok_def descriptors.linked_def slots_def)
  then have "fst ` set es = blk_type (ram s) ` set ds" by (simp add: image_image)
  with ok have "blk_type (ram s) d \<in> {BLOCK_FREE, BLOCK_USED}" if "d \<in> set ds" using that unfolding heap_ok_def by blast
  with ok assms(2) show ?thesis by (cases "d \<in> set ds") (auto simp: heap_ok_def)
qed

lemma os_call_total:
  assumes "os_rel s k" "os_call c k = Some (r, k')"
  shows "total_size (os_heap k') = total_size (os_heap k)"
proof -
  note D = heap_state_D [OF os_relD(1) [OF assms(1)]]
  have "os_alloc n k = Some (r, k1) \<Longrightarrow> total_size (os_heap k1) = total_size (os_heap k)" for n r k1
    using D(3) os_relD(4) [OF assms(1)] total_a_alloc [OF D(1), of n] by (auto simp: os_alloc_def split: if_splits)
  with assms(2) show ?thesis
    by (cases c) (auto simp: os_draw_def os_write_def os_note_def split: if_splits)
qed

lemma run_total:
  "os_rel s k \<Longrightarrow> run_ok cs k \<Longrightarrow> kernel_run fp cs s = Some (rs, s')
     \<Longrightarrow> \<exists>k'. os_rel s' k' \<and> total_size (os_heap k') = total_size (os_heap k)"
proof (induction cs arbitrary: s k rs)
  case (Cons c cs)
  from Cons.prems(3) obtain r s1 rs1 where c: "kernel_call fp c s = Some (r, s1)" "kernel_run fp cs s1 = Some (rs1, s')"
    by (auto simp: bind_eq_Some_conv)
  have "agree (kernel_call fp c s) (os_call c k)" using Cons.prems(1,2) by (intro call_agrees) simp_all
  with c(1) obtain k1 where k1: "os_call c k = Some (r, k1)" "os_rel s1 k1"
    by (auto simp: option_rel_Some1 rel_prod_sel)
  with Cons.IH [OF k1(2) _ c(2)] Cons.prems(2) os_call_total [OF Cons.prems(1) k1(1)] show ?case by auto
qed auto

subsection \<open>Properties\<close>

text \<open>C7: From booting on, and for every sequence of calls of the COBOL side that respects \<open>run_ok\<close>
  (the callers write their own memory only, their strings are where they say, their formats are within
  \<open>item_ok\<close>, and they put no backspace in the first column), the C code does what the abstract system
  does: it returns exactly when the system does, with the same results, and the blocks of the heap, the
  screen, the keyboard, the values still to be read from the ports, the log of every port access and the
  callers' memory stay in step.\<close>

theorem kernel_refines_os:
  assumes "run_ok cs (booted m input)"
  shows "\<exists>s. boot fp (initial_machine m (a # b # input)) = Some s
    \<and> rel_option (rel_prod (=) os_rel) (kernel_run fp cs s) (os_run cs (booted m input))"
proof -
  obtain s where s: "boot fp (initial_machine m (a # b # input)) = Some s" "os_rel s (booted m input)"
    by (rule boot_os)
  from run_agrees [OF s(2) assms] s(1) show ?thesis by blast
qed

definition sample_calls :: "call list" where
  "sample_calls = [Malloc 64, Store 0x7F7FC0 [72, 105, 0], Store 0x7F7FD0 [33, 0],
     Concat 0x7F7FC0 [72, 105] 0x7F7FD0 [33], Length 0x7F7FC0 [72, 105, 33], Move 3 4,
     Print [Text [] Absent Absent 0x7F7FC0 [72, 105, 33]], Ungetch 75, Getch, Free 0x7F7FC0]"

lemma sample_strings_apart:
  "span 0x7F7FC0 (Suc (Suc (Suc (Suc 0)))) \<inter> kernel_area = {}" "span 0x7F7FC0 (Suc (Suc (Suc 0))) \<inter> kernel_area = {}"
  "span 0x7F7FD0 (Suc (Suc 0)) \<inter> kernel_area = {}"
  "span 0x7F7FC0 (Suc (Suc (Suc (Suc 0)))) \<inter> span 0x7F7FD0 (Suc (Suc 0)) = {}"
proof -
  have "span 0x7F7FC0 n \<inter> kernel_area = {}" "span 0x7F7FD0 n \<inter> kernel_area = {}" if "n \<le> 4" for n
    using that span_apart [of "0x10000" 98304 "0x7F7FC0" n] span_apart [of vga_base 4000 "0x7F7FC0" n]
      span_apart [of "0x10000" 98304 "0x7F7FD0" n] span_apart [of vga_base 4000 "0x7F7FD0" n]
    by (auto simp: kernel_area_def)
  then show "span 0x7F7FC0 (Suc (Suc (Suc (Suc 0)))) \<inter> kernel_area = {}" "span 0x7F7FC0 (Suc (Suc (Suc 0))) \<inter> kernel_area = {}"
    "span 0x7F7FD0 (Suc (Suc 0)) \<inter> kernel_area = {}" by simp_all
  show "span 0x7F7FC0 (Suc (Suc (Suc (Suc 0)))) \<inter> span 0x7F7FD0 (Suc (Suc 0)) = {}"
    using span_apart [of "0x7F7FC0" "Suc (Suc (Suc (Suc 0)))" "0x7F7FD0" "Suc (Suc 0)"] by simp
qed

lemma sample_getch: "dv_saved d = 75 \<Longrightarrow> kbd_getch d
    = Some (75, (dev_note (replicate 4 (Outb 0x3F8 10)) d)\<lparr>dv_saved := 0\<rparr>)"
  by (simp add: kbd_getch_def)

lemma sample_string_text: "format_text [Text [] Absent Absent p [72, 105, 33]] = [72, 105, 33]"
  by (simp add: format_text_def c_string_def)

lemma sample_run:
  "run_ok sample_calls (booted (\<lambda>_. 0) [])"
  "\<exists>k. os_run sample_calls (booted (\<lambda>_. 0) []) = Some ([0x7F7FC0, 0, 0, 0x7F7FC4, 3, 0, 3, 0, 75, 0], k)"
  using sample_strings_apart
  by (simp_all add: sample_calls_def booted_def os_alloc_def os_draw_def os_write_def os_note_def dev_note_def sample_getch sample_string_text
      string_in_def width_ok_def prec_ok_def disjoint_eq_subset_Compl)

theorem kernel_refines_os_witness:
  "\<exists>s s'. boot int_fpu (initial_machine (\<lambda>_. 0) [0, 0]) = Some s
    \<and> kernel_run int_fpu sample_calls s = Some ([0x7F7FC0, 0, 0, 0x7F7FC4, 3, 0, 3, 0, 75, 0], s')"
  using kernel_refines_os [OF sample_run(1), of int_fpu 0 0] sample_run(2)
  by (fastforce simp: option_rel_Some2 rel_prod_sel)

text \<open>C18: The machine stays well-formed under every sequence of calls that respects \<open>run_ok\<close>: the
  callers write their own memory only, their formats are within \<open>item_ok\<close>, and they put no backspace in
  the first column.\<close>

theorem kernel_run_typed:
  assumes "boot fp (initial_machine m (a # b # input)) = Some s" "run_ok cs (booted m input)"
    and "kernel_run fp cs s = Some (rs, s')"
  shows "machine_wf s'"
proof -
  obtain s0 where "boot fp (initial_machine m (a # b # input)) = Some s0" "os_rel s0 (booted m input)"
    by (rule boot_os)
  with assms(1) have "os_rel s (booted m input)" by simp
  from run_total [OF this assms(2,3)] obtain k' where
    k': "os_rel s' k'" "total_size (os_heap k') = 8290304" by (auto simp: booted_def)
  note h = os_relD(1) [OF k'(1)]
  have "\<forall>d \<in> slots (region s' 0). blk_type (ram s') d \<in> {BLOCK_FREE, BLOCK_USED, BLOCK_NOT_PRESENT}"
    by (intro ballI heap_state_tags [OF h])
  with h k'(2) term_okD [OF os_relD(8) [OF k'(1)]] show ?thesis unfolding machine_wf_def by blast
qed

theorem kernel_run_typed_witness:
  "\<exists>s s'. boot int_fpu (initial_machine (\<lambda>_. 0) [0, 0]) = Some s
    \<and> kernel_run int_fpu sample_calls s = Some ([0x7F7FC0, 0, 0, 0x7F7FC4, 3, 0, 3, 0, 75, 0], s') \<and> machine_wf s'"
proof -
  obtain s where s: "boot int_fpu (initial_machine (\<lambda>_. 0) [0, 0]) = Some s" "os_rel s (booted (\<lambda>_. 0) [])"
    by (rule boot_os)
  from run_agrees [OF s(2) sample_run(1), of int_fpu] sample_run(2) obtain s' where
    s': "kernel_run int_fpu sample_calls s = Some ([0x7F7FC0, 0, 0, 0x7F7FC4, 3, 0, 3, 0, 75, 0], s')"
    by (fastforce simp: option_rel_Some2 rel_prod_sel)
  from kernel_run_typed [OF s(1) sample_run(1) s'] s(1) s' show ?thesis by blast
qed

end
