(* ===== verification/Spec2Isabelle.thy ===== *)
theory Spec2Isabelle
  imports Libc_Stubs Heap_Split Sorting Printf_Double Kernel_System
begin

text \<open>
  A model of the C part of a small x86 kernel whose shell and drivers are written in COBOL:
  the C library \<open>src/libc\<close> it is linked with, and the entry point \<open>src/main.c\<close>.

  \<^bold>\<open>The program.\<close>  \<open>main\<close> sets up a heap (\<open>libc/alloc.c\<close>), clears the VGA text screen and enters
  the COBOL side.  That side calls back into C: the curses-like console and the PS/2 keyboard
  of \<open>libc/lib.c\<close>, the formatted output of \<open>libc/printf.c\<close>, the string, memory and number
  functions of \<open>libc/lib.c\<close>, \<open>malloc\<close> and its relatives, and the port I/O of \<open>main.c\<close>.  Output
  characters end in \<open>addch\<close>, which writes VGA memory and echoes to a serial port; the
  allocator prints through the same path.

  \<^bold>\<open>The machine.\<close>  The code runs on 32-bit x86: \<open>int\<close>, \<open>long\<close>, \<open>size_t\<close> and pointers are words of
  32 bits, \<open>char\<close> is a signed byte.  Memory is one function from addresses to bytes
  (\<open>C_Memory\<close>), read and written in little-endian order, so that pointers alias as they do in
  the program; the static variables of \<open>lib.c\<close> and the \<open>master\<close> record of the heap are fields of
  the record \<open>machine\<close> (\<open>Machine\<close>).  The hardware is a log of port accesses and a script of
  values to be read.  A function that takes the machine to another one is modelled by explicit
  state passing.  Its result is an option when it may have none: \<open>None\<close> stands for a loop that
  is never left, for a read from a port when the script has ended, and for behaviour that C
  leaves undefined (an index outside an array, a division by zero).  Signed overflow wraps around, as it
  does in the code of the compiler the sources are built with, without optimisation.

  \<^bold>\<open>Theories and sources.\<close>
  \<^item> \<open>C_Prelude\<close>, \<open>C_Memory\<close>: words, bytes, loads and stores, terminated strings, address ranges.
  \<^item> \<open>C_Block\<close>, \<open>C_String\<close>: \<open>memcpy\<close> ... \<open>memmove\<close> and \<open>strlen\<close> ... \<open>strtok\<close> of \<open>lib.c\<close>.
  \<^item> \<open>Machine\<close>: the state, the ports (\<open>inb\<close>, \<open>outb\<close>), the records of \<open>alloc.h\<close>.
  \<^item> \<open>Console\<close> models \<open>lib.c\<close> and \<open>ncurses.h\<close> from \<open>vga_entry\<close> to \<open>clrtobot\<close>; \<open>Console_Spec\<close> gives
    the abstract terminal (2000 cells, cursor, attribute) and shows that the code implements it.
  \<^item> \<open>Keyboard\<close>: \<open>_geT_ps2_input\<close>, \<open>getch\<close>, \<open>ungetch\<close>, \<open>flushinp\<close> of \<open>lib.c\<close>.
  \<^item> \<open>Printf_Int\<close>, \<open>Printf_Float\<close>, \<open>Printf\<close>: all of \<open>printf.c\<close>, the output functions and integer
    conversions, \<open>_ftoa\<close> and \<open>_etoa\<close>, the format parser and the public functions.
    \<open>Printf_Spec\<close>: what formatted output is.  Every conversion emits a list of characters
    through the output function, and nothing else.  \<open>Printf_Sink\<close>: the interface \<open>text_sink\<close> of
    an output function, interpreted on the buffer of \<open>snprintf\<close> and on the console, and the
    string conversion over it.  \<open>Printf_Layout\<close>: how sign, base prefix, zeros and digits fill a
    field.  \<open>Printf_Text\<close>: the text of integer directives with flags, width and precision.
    \<open>Printf_Length\<close>: their length modifiers.  \<open>Printf_Console\<close>: what \<open>printf\<close> shows on the screen.
    \<open>Printf_Format\<close>: whole formats, as the concrete syntax of lists of items.  \<open>Printf_Fixed\<close>: the
    interface \<open>exact_steps\<close> of a floating-point unit, and the text of \<open>%f\<close> over it.
    \<open>Printf_Double\<close>: a unit that rounds to 53 bits, as its interpretation, and the properties.
  \<^item> \<open>Digits\<close>, \<open>Numbers\<close>: positional notation; \<open>itoa\<close>, \<open>sitoa\<close>, \<open>internal_atoi\<close>, \<open>atoi\<close> of \<open>lib.c\<close>.
  \<^item> \<open>Alloc\<close>: \<open>alloc.c\<close>, with \<open>malloc\<close>, \<open>calloc\<close>, \<open>realloc\<close>, \<open>free\<close> of \<open>lib.c\<close>.  \<open>Alloc_Store\<close>: the
    interface \<open>block_store\<close> of a store of linked blocks, and its interpretation on the 12-byte
    descriptors in memory.  \<open>Alloc_Spec\<close>: the heap as a list of blocks, used or free, that tile
    a range of addresses.  \<open>Alloc_Refine\<close>: the code on memory does what the list operations do.
    \<open>Heap\<close>: the heap of \<open>main\<close>, sequences of calls, and the properties.  \<open>Heap_Resize\<close>:
    \<open>mem_align_alloc\<close>, and \<open>mem_realloc\<close> of the latest block.  \<open>Heap_Realloc\<close>: \<open>mem_realloc\<close> of any
    block, as the list operation \<open>a_realloc\<close>, which moves the border to a free neighbour.
    \<open>Heap_Copy\<close>: its branch that allocates, copies and releases; \<open>Heap_Split\<close>: the one that splits.
    \<open>Allocator\<close>: the interface \<open>allocator\<close> of the heap for its clients \<open>calloc\<close> and \<open>qsort\<close>,
    interpreted on \<open>malloc\<close> and \<open>free\<close>.
  \<^item> \<open>Sorting\<close>: \<open>qsort\<close> of \<open>lib.c\<close>, over the interface \<open>comparison\<close>, interpreted on \<open>memcmp\<close>.
  \<^item> \<open>Kernel_Main\<close>: \<open>main\<close>, \<open>IO_OUT\<close> and \<open>IO_IN\<close> of \<open>main.c\<close>.
  \<^item> \<open>Libc_Stubs\<close>: \<open>exit\<close>, \<open>abort\<close> and the functions of \<open>lib.c\<close> that only print their name and halt
    or return a constant, \<open>stat\<close>, \<open>fopen\<close>, and the messages of \<open>mem_print\<close> and \<open>malloc\<close>.
  \<^item> \<open>Device_Spec\<close>: the keyboard by its rows of keys and the ports, as devices without a machine, and
    \<open>getch\<close>, \<open>IO_OUT\<close> and \<open>IO_IN\<close> as functions on them.
    \<open>Kernel_Frame\<close>: what each component leaves alone.  \<open>Kernel_Os\<close>: the calls of the COBOL side, and an
    abstract operating system with a heap, a terminal, these devices and the callers' memory.
    \<open>Kernel_Calls\<close>: every call for itself.  \<open>Kernel_System\<close>: the booted C code implements it.

  \<^bold>\<open>What is shown.\<close>
  \<^item> The whole: from booting on, any sequence of calls (output, cursor, \<open>printf\<close>, \<open>snprintf\<close>, \<open>malloc\<close>,
    \<open>calloc\<close>, \<open>free\<close>, copies and comparisons of memory, strings, numbers as text, keys, ports) gives the
    same results and the same port accesses as the abstract system, and returns exactly when that does,
    as long as the callers respect \<open>run_ok\<close>: they write their own memory only, use formats within the
    limits of \<open>item_ok\<close>, and put no backspace in the first column.  So the heap's table, the screen, the
    keyboard and the callers' memory never disturb one another.
  \<^item> Heap: the descriptors of a region and the abstract list of blocks are related by \<open>heap_state\<close>.
    \<open>mem_alloc\<close> returns the address of a new block, disjoint from the old ones, and \<open>mem_free\<close>
    releases exactly the first block in use at or above its argument; both always return, and
    write only the descriptor table.  Every sequence of calls from the heap of \<open>main\<close> keeps the
    tiling.  \<open>mem_align_alloc\<close> returns an aligned address; \<open>mem_realloc\<close> resizes exactly one
    block where a neighbour is free, and moves a growing block with its bytes where none is.  The
    exact statements also show where the allocator loses memory, where it hands
    out more than it has, where \<open>mem_realloc\<close> moves a pointer without its data, and where it
    loses track of the blocks behind.
  \<^item> Console: \<open>addch\<close> refines the terminal's step, so do the string output and the clearing
    functions; a sequence of operations keeps the cursor on the screen exactly when it puts no backspace
    in the first column, and then writes nothing outside the VGA window.
  \<^item> Formatted output: a call of \<open>snprintf\<close> that returns has written within its buffer only, for every format;
    a format of characters and of integer, pointer, character and string directives prints the text
    that flags (\<open>#\<close> included), width, precision and length modifier ask for, within the limits of
    \<open>item_ok\<close>, cut to the buffer by \<open>snprintf\<close> and shown on the abstract terminal by \<open>printf\<close>; \<open>%f\<close> prints numbers up to \<open>10 ^ 9\<close>
    correctly rounded when the steps of \<open>_ftoa\<close> are exact, but for a fraction halfway above nines;
    what \<open>%u\<close> prints is read back by \<open>atoi\<close>.  The listing of
    \<open>mem_print\<close>, the report of a failed \<open>malloc\<close> and the message of \<open>exit\<close> are what the
    abstract terminal shows after their text.
  \<^item> Conversions and strings: \<open>itoa\<close> writes the digits, and returns exactly for zero and for the
    numbers of at most 32 digits in a base of at least two; the copying, concatenating, comparing
    and searching functions do what their names say, or the theorem states what they do.
  \<^item> Keyboard and kernel: \<open>getch\<close> returns the stroke of an ordinary key once it is released, and
    the special keys index an array out of its bounds; booting gives
    one free block and a blank screen with the greeting.  \<open>qsort\<close> returns and gives its
    temporary block back, but it never writes the array it is given.

  \<^bold>\<open>Loops and bounds.\<close>  Counting loops are recursive functions with a measure, or take the
  number of turns that are left; loops that need not end (strings without terminator, cyclic
  block lists, polling) are \<open>partial_function (option)\<close>, and a property of such a loop states that it
  returns, but for the frame of \<open>snprintf\<close> and the result of \<open>strtok\<close>, which are about the calls that
  return.  There is no fuel.

  \<^bold>\<open>Parameters.\<close>  The x87 arithmetic is a record of functions (\<open>fpu\<close>) that \<open>printf\<close> takes.
  Nothing is assumed about it, but in the two properties on the text of \<open>%f\<close>, which assume the
  laws \<open>exact_steps\<close> of IEEE 754: comparisons are those of the numbers, an exact result that can
  be represented is returned, conversions to integers truncate.  The comparison of \<open>qsort\<close> and the COBOL runtime's \<open>cob_init\<close>, \<open>KERNEL\<close>
  and \<open>cob_tidy\<close> are functions on the machine.  The addresses of the string literals and of the
  static result of \<open>localtime\<close> are arguments.  Format strings are given as byte lists without
  the terminator.

  \<^bold>\<open>Not modelled.\<close>  The COBOL programs and their runtime; the assembly entry \<open>crt0.S\<close>; the
  declarations and constants of \<open>all.h\<close>, \<open>libcob.h\<close> and \<open>multiboot2.h\<close> that no function uses.

  \<^bold>\<open>Plan.\<close>  The text of \<open>%e\<close> and \<open>%g\<close>; the scan codes of the shift and the extended keys;
  \<open>mem_free\<close> and \<open>mem_alloc\<close> on several regions.
\<close>

end
